(* ===== verification/Prelude.thy ===== *)
theory Prelude
  imports Main "HOL-Library.AList" "HOL-Library.Multiset" "HOL-Library.Word"
begin

text \<open>
  Shared vocabulary of the development: Go errors as values, Go maps as association lists
  with distinct keys, the 64-bit wrap-around of \<open>int64\<close>, scheduler scripts for the orders the
  Go runtime leaves open (map iteration, goroutine completion), and the generic lemmas the
  components use.
\<close>

named_theorems gomap_simps \<open>lookup, keys and counting in Go maps\<close>

section \<open>Errors\<close>

text \<open>
  The gRPC status codes the program produces, and those the transport reports on its own.
\<close>

datatype grpc_code = Internal | NotFound | Unavailable | Canceled | DeadlineExceeded

text \<open>
  A Go \<open>error\<close> value. \<open>Errorf f args\<close> is \<open>fmt.Errorf(f, args...)\<close> without a wrapped error,
  \<open>Wrapf f args e\<close> the same with \<open>%w\<close> applied to \<open>e\<close>, \<open>Sentinel s\<close> a package-level
  \<open>errors.New(s)\<close> that is compared by identity, \<open>StatusErr c f e\<close> is
  \<open>status.Errorf(c, f, e)\<close>, and \<open>Panic s\<close> is a run-time panic, which no caller sees as an
  ordinary error. A nil error is \<open>None :: error option\<close>.
\<close>

datatype error =
    Errorf string "string list"
  | Wrapf string "string list" error
  | Sentinel string
  | StatusErr grpc_code string error
  | Panic string

text \<open>\<open>errors.Is\<close> follows the chain of wrapped errors; a gRPC status formats its cause and wraps nothing.\<close>

fun errors_Is :: "error \<Rightarrow> error \<Rightarrow> bool" where
  "errors_Is (Wrapf f args e) target \<longleftrightarrow> Wrapf f args e = target \<or> errors_Is e target"
| "errors_Is e target \<longleftrightarrow> e = target"

lemma errors_Is_refl [simp]: "errors_Is e e"
  by (cases e) simp_all

definition ErrNoRows :: error where
  "ErrNoRows = Sentinel ''sql: no rows in result set''"

section \<open>Go maps\<close>

text \<open>
  A Go map is an association list with distinct keys. The position of a key in the list stands
  for the iteration order, which Go leaves open: no theorem of the development fixes it.
\<close>

type_synonym ('k, 'v) gomap = "('k \<times> 'v) list"

abbreviation go_get :: "('k, 'v) gomap \<Rightarrow> 'k \<Rightarrow> 'v option" where
  "go_get m k \<equiv> map_of m k"

abbreviation go_put :: "'k \<Rightarrow> 'v \<Rightarrow> ('k, 'v) gomap \<Rightarrow> ('k, 'v) gomap" where
  "go_put k v m \<equiv> AList.update k v m"

abbreviation go_del :: "'k \<Rightarrow> ('k, 'v) gomap \<Rightarrow> ('k, 'v) gomap" where
  "go_del k m \<equiv> AList.delete k m"

abbreviation go_keys :: "('k, 'v) gomap \<Rightarrow> 'k list" where
  "go_keys m \<equiv> map fst m"

abbreviation gomap_ok :: "('k, 'v) gomap \<Rightarrow> bool" where
  "gomap_ok m \<equiv> distinct (map fst m)"

lemma go_get_put [simp, gomap_simps]: "go_get (go_put k v m) = (go_get m)(k \<mapsto> v)"
  by (rule update_conv')

lemma go_get_del [simp, gomap_simps]: "go_get (go_del k m) = (go_get m)(k := None)"
  by (rule delete_conv')

lemma gomap_ok_put [simp, gomap_simps]: "gomap_ok m \<Longrightarrow> gomap_ok (go_put k v m)"
  by (rule distinct_update)

lemma gomap_ok_del [simp, gomap_simps]: "gomap_ok m \<Longrightarrow> gomap_ok (go_del k m)"
  by (rule distinct_delete)

lemma go_put_new: "go_get m k = None \<Longrightarrow> go_put k v m = m @ [(k, v)]"
  by (induction m) (auto split: if_splits)

lemma go_del_filter: "go_del k m = filter (\<lambda>(k', v). k' \<noteq> k) m"
  unfolding AList.delete_eq by (rule filter_cong) auto

lemma go_get_Some_iff: "gomap_ok m \<Longrightarrow> go_get m k = Some v \<longleftrightarrow> (k, v) \<in> set m"
  by (simp add: map_of_eq_Some_iff)

lemma go_get_in_set: "go_get m k = Some v \<Longrightarrow> (k, v) \<in> set m"
  by (rule map_of_SomeD)

lemma go_put_mem:
  "gomap_ok m \<Longrightarrow> (k', v') \<in> set (go_put k v m) \<longleftrightarrow>
     (if k' = k then v' = v else (k', v') \<in> set m)"
  by (subst go_get_Some_iff [symmetric]) (auto simp: go_get_Some_iff)

lemma go_del_mem: "(k', v') \<in> set (go_del k m) \<longleftrightarrow> (k', v') \<in> set m \<and> k' \<noteq> k"
  by (auto simp: go_del_filter)

text \<open>Counting the entries of a map that satisfy a predicate.\<close>

definition go_count :: "('k \<times> 'v \<Rightarrow> bool) \<Rightarrow> ('k, 'v) gomap \<Rightarrow> nat" where
  "go_count P m = length (filter P m)"

lemma go_count_Nil [simp]: "go_count P [] = 0"
  by (simp add: go_count_def)

lemma go_count_Cons [simp]: "go_count P (x # m) = (if P x then 1 else 0) + go_count P m"
  by (simp add: go_count_def)

lemma go_count_append [simp]: "go_count P (m @ m') = go_count P m + go_count P m'"
  by (simp add: go_count_def)

lemma go_count_put_new [gomap_simps]:
  "go_get m k = None \<Longrightarrow> go_count P (go_put k v m) = go_count P m + (if P (k, v) then 1 else 0)"
  by (simp add: go_put_new)

lemma go_count_del_absent: "go_get m k = None \<Longrightarrow> go_del k m = m"
  by (simp add: go_del_filter filter_id_conv map_of_eq_None_iff) force

lemma go_count_del [gomap_simps]:
  "gomap_ok m \<Longrightarrow> go_get m k = Some v \<Longrightarrow>
   go_count P (go_del k m) + (if P (k, v) then 1 else 0) = go_count P m"
proof (induction m)
  case Nil
  then show ?case by simp
next
  case (Cons x m)
  then have "fst x = k \<Longrightarrow> go_del k m = m"
    by (intro go_count_del_absent) (auto simp: map_of_eq_None_iff)
  with Cons show ?case by (cases x) (auto split: if_splits)
qed

lemma go_count_cong:
  "(\<And>k v. (k, v) \<in> set m \<Longrightarrow> P (k, v) = Q (k, v)) \<Longrightarrow> go_count P m = go_count Q m"
  unfolding go_count_def by (metis (mono_tags, lifting) filter_cong surj_pair)

text \<open>Two predicates that differ at one key only.\<close>

lemma go_count_change:
  assumes "gomap_ok m" and "go_get m k = Some v"
    and "\<And>k' v'. (k', v') \<in> set m \<Longrightarrow> k' \<noteq> k \<Longrightarrow> P (k', v') = Q (k', v')"
  shows "go_count Q m + (if P (k, v) then 1 else 0) = go_count P m + (if Q (k, v) then 1 else 0)"
proof -
  have "go_count P (go_del k m) = go_count Q (go_del k m)"
    by (rule go_count_cong) (use assms(3) in \<open>auto simp: go_del_filter\<close>)
  then show ?thesis
    using go_count_del [OF assms(1,2), of P] go_count_del [OF assms(1,2), of Q] by linarith
qed

lemma length_go_del:
  "gomap_ok m \<Longrightarrow> go_get m k = Some v \<Longrightarrow> Suc (length (go_del k m)) = length m"
  using go_count_del [of m k v "\<lambda>_. True"] by (simp add: go_count_def)

lemma length_go_put_new: "go_get m k = None \<Longrightarrow> length (go_put k v m) = Suc (length m)"
  by (simp add: go_put_new)

lemma map_filter_all_Some:
  "(\<And>x. x \<in> set xs \<Longrightarrow> f x = Some (g x)) \<Longrightarrow> List.map_filter f xs = map g xs"
  by (induction xs) (simp_all add: map_filter_simps)

section \<open>Machine integers\<close>

text \<open>Go's \<open>int64\<close> as a mathematical integer with the two's-complement wrap-around written out.\<close>

definition wrap64 :: "int \<Rightarrow> int" where
  "wrap64 x = (x + 2 ^ 63) mod 2 ^ 64 - 2 ^ 63"

text \<open>A \<open>time.Duration\<close> counts nanoseconds.\<close>

definition Second :: int where
  "Second = 1000000000"

lemma wrap64_id: "- (2 ^ 63) \<le> x \<Longrightarrow> x < 2 ^ 63 \<Longrightarrow> wrap64 x = x"
  by (simp add: wrap64_def)

lemma wrap64_bounds: "- (2 ^ 63) \<le> wrap64 x \<and> wrap64 x < 2 ^ 63"
proof -
  have "0 \<le> (x + 2 ^ 63) mod 2 ^ 64" and "(x + 2 ^ 63) mod 2 ^ 64 < 2 ^ 64" by simp_all
  then show ?thesis unfolding wrap64_def by simp
qed

section \<open>Fault scripts\<close>

text \<open>
  What the environment decides (whether a message is lost, whether a database statement fails)
  is a script with one entry per call, consumed in order; an exhausted script gives the default.
\<close>

fun pop :: "'a \<Rightarrow> 'a list \<Rightarrow> 'a \<times> 'a list" where
  "pop d [] = (d, [])"
| "pop d (x # xs) = (x, xs)"

section \<open>Scheduler scripts\<close>

text \<open>
  Go leaves two orders open: the iteration order of a map and the order in which goroutines
  finish. An operation that depends on one takes a script of choices: \<open>arrange ks xs\<close> takes the
  elements of \<open>xs\<close> in the order the script names, each entry choosing among the elements still
  left. An exhausted script keeps the order. Every permutation has a script.
\<close>

fun arrange :: "nat list \<Rightarrow> 'a list \<Rightarrow> 'a list" where
  "arrange _ [] = []"
| "arrange [] (x # xs) = x # xs"
| "arrange (k # ks) (x # xs) =
     (let i = k mod Suc (length xs); ys = x # xs in ys ! i # arrange ks (take i ys @ drop (Suc i) ys))"

lemma mset_pick: "i < length xs \<Longrightarrow> add_mset (xs ! i) (mset (take i xs @ drop (Suc i) xs)) = mset xs"
  by (metis id_take_nth_drop mset.simps(2) mset_append union_mset_add_mset_right)

lemma mset_arrange [simp]: "mset (arrange ks xs) = mset xs"
proof (induction ks xs rule: arrange.induct)
  case (3 k ks x xs)
  let ?i = "k mod Suc (length xs)"
  have "?i < length (x # xs)" by simp
  then have "add_mset ((x # xs) ! ?i) (mset (take ?i (x # xs) @ drop (Suc ?i) (x # xs))) = mset (x # xs)"
    by (rule mset_pick)
  with 3 show ?case by (simp only: arrange.simps Let_def mset.simps)
qed simp_all

lemma set_arrange [simp]: "set (arrange ks xs) = set xs"
  by (metis mset_arrange set_mset_mset)

lemma length_arrange [simp]: "length (arrange ks xs) = length xs"
  by (metis mset_arrange size_mset)

lemma arrange_Nil_iff [simp]: "arrange ks xs = [] \<longleftrightarrow> xs = []"
  by (metis length_0_conv length_arrange)

lemma arrange_complete: "mset ys = mset xs \<Longrightarrow> \<exists>ks. arrange ks xs = ys"
proof (induction ys arbitrary: xs)
  case Nil
  then show ?case by simp
next
  case (Cons y ys)
  then have "y \<in> set xs" by (metis list.set_intros(1) set_mset_mset)
  then obtain i where i: "i < length xs" "xs ! i = y" by (auto simp: in_set_conv_nth)
  let ?zs = "take i xs @ drop (Suc i) xs"
  have "mset ys = mset ?zs"
    using mset_pick [OF i(1)] Cons.prems i(2) by (metis add_mset_add_mset_same_iff mset.simps(2))
  then obtain ks where ks: "arrange ks ?zs = ys" using Cons.IH by blast
  from i(1) obtain x xs' where xs: "xs = x # xs'" by (cases xs) auto
  with i ks have "arrange (i # ks) xs = y # ys" by (simp add: Let_def)
  then show ?case by blast
qed

end
