(* ===== verification/Repository.thy ===== *)
theory Repository
  imports Prelude
begin

text \<open>
  What the repositories of accounts and bots have in common: a PostgreSQL table with a
  \<open>BIGSERIAL\<close> primary key, and the contract that the services rely on, as a locale that the
  in-memory and the PostgreSQL implementations of both packages interpret.
\<close>

section \<open>Database tables\<close>

text \<open>
  The rows by primary key, the sequence behind the key, and the driver errors of the statements
  to come: a statement that fails in the driver changes no row.
\<close>

record 'row table =
  tb_rows :: "(int, 'row) gomap"
  tb_seq :: int
  tb_faults :: "error option list"

definition tb_empty :: "'row table" where
  "tb_empty = \<lparr>tb_rows = [], tb_seq = 0, tb_faults = []\<rparr>"

definition tb_stmt :: "((int, 'row) gomap \<Rightarrow> 'x \<times> (int, 'row) gomap) \<Rightarrow> 'row table \<Rightarrow>
    (error + 'x) \<times> 'row table" where
  "tb_stmt stmt t =
     (let (f, rest) = pop None (tb_faults t); t1 = t\<lparr>tb_faults := rest\<rparr> in
      case f of
        Some e \<Rightarrow> (Inl e, t1)
      | None \<Rightarrow> (let (x, rows) = stmt (tb_rows t1) in (Inr x, t1\<lparr>tb_rows := rows\<rparr>)))"

text \<open>\<open>SELECT ... ORDER BY id\<close>, and the single row that \<open>Get\<close> expects.\<close>

definition tb_select :: "('row \<Rightarrow> bool) \<Rightarrow> 'row table \<Rightarrow> (error + 'row list) \<times> 'row table" where
  "tb_select P = tb_stmt (\<lambda>rows. (filter P (map snd (sort_key fst rows)), rows))"

definition tb_get :: "('row \<Rightarrow> bool) \<Rightarrow> 'row table \<Rightarrow> (error + 'row) \<times> 'row table" where
  "tb_get P t =
     (case tb_select P t of
        (Inl e, t') \<Rightarrow> (Inl e, t')
      | (Inr [], t') \<Rightarrow> (Inl ErrNoRows, t')
      | (Inr (x # _), t') \<Rightarrow> (Inr x, t'))"

text \<open>\<open>UPDATE ... WHERE\<close> and \<open>DELETE ... WHERE\<close>.\<close>

definition tb_update :: "('row \<Rightarrow> bool) \<Rightarrow> ('row \<Rightarrow> 'row) \<Rightarrow> 'row table \<Rightarrow> error option \<times> 'row table" where
  "tb_update P f t =
     (case tb_stmt (\<lambda>rows. ((), map (\<lambda>(i, x). (i, if P x then f x else x)) rows)) t of
        (Inl e, t') \<Rightarrow> (Some e, t')
      | (Inr _, t') \<Rightarrow> (None, t'))"

definition tb_delete :: "int \<Rightarrow> 'row table \<Rightarrow> error option \<times> 'row table" where
  "tb_delete i t =
     (case tb_stmt (\<lambda>rows. ((), go_del i rows)) t of
        (Inl e, t') \<Rightarrow> (Some e, t')
      | (Inr _, t') \<Rightarrow> (None, t'))"

text \<open>A deletion whose number of affected rows decides the result.\<close>

definition tb_delete_found :: "error \<Rightarrow> int \<Rightarrow> 'row table \<Rightarrow> error option \<times> 'row table" where
  "tb_delete_found notFound i t =
     (case tb_stmt (\<lambda>rows. (length (filter (\<lambda>(j, _). j = i) rows), go_del i rows)) t of
        (Inl e, t') \<Rightarrow> (Some e, t')
      | (Inr n, t') \<Rightarrow> (if n = 0 then Some notFound else None, t'))"

text \<open>
  \<open>INSERT ... RETURNING\<close>: the key comes from the sequence, which advances even when a
  constraint rejects the row. \<open>check\<close> is the database's own check of the column types,
  \<open>unique\<close> says which pairs of rows a \<open>UNIQUE\<close> constraint forbids, and \<open>mk\<close> builds the stored
  row from the key.
\<close>

definition duplicate_key :: error where
  "duplicate_key = Errorf ''pq: duplicate key value violates unique constraint'' []"

definition tb_insert :: "('row \<Rightarrow> error option) \<Rightarrow> ('row \<Rightarrow> 'row \<Rightarrow> bool) \<Rightarrow> (int \<Rightarrow> 'row) \<Rightarrow> 'row table \<Rightarrow>
    (error + 'row) \<times> 'row table" where
  "tb_insert check unique mk t =
     (let (f, rest) = pop None (tb_faults t); t1 = t\<lparr>tb_faults := rest\<rparr> in
      case f of
        Some e \<Rightarrow> (Inl e, t1)
      | None \<Rightarrow>
          (if tb_seq t1 \<ge> 2 ^ 63 - 1
           then (Inl (Errorf ''pq: nextval: reached maximum value of sequence'' []), t1)
           else
             (let i = tb_seq t1 + 1; row = mk i; t2 = t1\<lparr>tb_seq := i\<rparr> in
              case check row of
                Some e \<Rightarrow> (Inl e, t2)
              | None \<Rightarrow>
                  (if list_ex (\<lambda>(_, x). unique x row) (tb_rows t2) then (Inl duplicate_key, t2)
                   else (Inr row, t2\<lparr>tb_rows := go_put i row (tb_rows t2)\<rparr>)))))"

section \<open>Statements of the repositories\<close>

record ListFilter =
  lf_Status :: "string option"
  lf_WorkerID :: "string option"
  lf_Limit :: int
  lf_Offset :: int

text \<open>Errors wrapped by the repository; \<open>show_int\<close> below is the decimal formatting of an identifier.\<close>

definition wrap_result :: "string \<Rightarrow> string list \<Rightarrow> (error + 'a) \<times> 't \<Rightarrow> (error + 'a) \<times> 't" where
  "wrap_result f args x =
     (case x of (Inl e, t) \<Rightarrow> (Inl (Wrapf f args e), t) | (Inr a, t) \<Rightarrow> (Inr a, t))"

definition wrap_error :: "string \<Rightarrow> string list \<Rightarrow> error option \<times> 't \<Rightarrow> error option \<times> 't" where
  "wrap_error f args x = (map_option (Wrapf f args) (fst x), snd x)"

text \<open>The filter of \<open>List\<close> as the query built from it; a negative limit or offset is a database error.\<close>

definition list_query :: "ListFilter \<Rightarrow> ('row \<Rightarrow> string) \<Rightarrow> ('row \<Rightarrow> string option) \<Rightarrow> 'row \<Rightarrow> bool" where
  "list_query f st wk x \<longleftrightarrow>
     (case lf_Status f of None \<Rightarrow> True | Some s \<Rightarrow> st x = s) \<and>
     (case lf_WorkerID f of None \<Rightarrow> True | Some w \<Rightarrow> wk x = Some w)"

definition paginate :: "int \<Rightarrow> int \<Rightarrow> (error + 'a list) \<times> 't \<Rightarrow> (error + 'a list) \<times> 't" where
  "paginate limit offset x =
     (case x of
        (Inl e, t) \<Rightarrow> (Inl e, t)
      | (Inr xs, t) \<Rightarrow>
          (if limit < 0 then (Inl (Errorf ''pq: LIMIT must not be negative'' []), t)
           else if offset < 0 then (Inl (Errorf ''pq: OFFSET must not be negative'' []), t)
           else (Inr (take (nat limit) (drop (nat offset) xs)), t)))"

section \<open>Facts about tables\<close>

lemma tb_stmt_cases:
  assumes "tb_stmt stmt t = (r, t')"
  obtains (fault) e where "r = Inl e" "tb_rows t' = tb_rows t" "tb_seq t' = tb_seq t" "tb_faults t \<noteq> []"
  | (ran) x rows where "r = Inr x" "stmt (tb_rows t) = (x, rows)" "tb_rows t' = rows" "tb_seq t' = tb_seq t"
      "tb_faults t = [] \<Longrightarrow> tb_faults t' = []"
proof (cases "tb_faults t")
  case Nil
  with assms show thesis
    by (intro ran [of "fst (stmt (tb_rows t))" "snd (stmt (tb_rows t))"])
      (auto simp: tb_stmt_def split_beta Let_def)
next
  case (Cons f fs)
  with assms show thesis
    by (cases f) (auto simp: tb_stmt_def split_beta Let_def
        intro: fault ran [of "fst (stmt (tb_rows t))" "snd (stmt (tb_rows t))"])
qed

lemma sort_key_ids [simp]: "gomap_ok (sort_key fst rows) = gomap_ok rows"
  by (simp add: distinct_map)

lemma map_of_map_values: "map_of (map (\<lambda>(i, x). (i, g x)) rows) i = map_option g (map_of rows i)"
  by (induction rows) auto

lemma filter_eq_singleton: "distinct xs \<Longrightarrow> x \<in> set xs \<Longrightarrow> filter (\<lambda>y. y = x) xs = [x]"
  by (induction xs) (auto simp: filter_empty_conv)

lemma filter_unique:
  assumes "x \<in> set xs" "distinct xs" "\<And>y. y \<in> set xs \<Longrightarrow> P y \<longleftrightarrow> y = x"
  shows "filter P xs = [x]"
proof -
  have "filter P xs = filter (\<lambda>y. y = x) xs" using assms(3) by (rule filter_cong [OF refl])
  then show ?thesis using filter_eq_singleton [OF assms(2,1)] by simp
qed

text \<open>The rows of a well-formed table: each under its own key.\<close>

definition tb_ok :: "('row \<Rightarrow> int) \<Rightarrow> 'row table \<Rightarrow> bool" where
  "tb_ok row_id t \<longleftrightarrow> gomap_ok (tb_rows t) \<and>
     (\<forall>i x. (i, x) \<in> set (tb_rows t) \<longrightarrow> row_id x = i \<and> i \<le> tb_seq t)"

lemma tb_okD: "tb_ok row_id t \<Longrightarrow> go_get (tb_rows t) i = Some x \<Longrightarrow> row_id x = i \<and> i \<le> tb_seq t"
  by (simp add: tb_ok_def go_get_Some_iff)

lemma tb_get_unique:
  assumes "tb_ok row_id t" and "tb_faults t = []" and "tb_get P t = (r, t')"
    and "go_get (tb_rows t) i = Some x" "P x"
    and "\<And>j y. go_get (tb_rows t) j = Some y \<Longrightarrow> P y \<Longrightarrow> j = i"
  shows "r = Inr x"
proof -
  let ?xs = "map snd (sort_key fst (tb_rows t))"
  have ok: "gomap_ok (tb_rows t)" using assms(1) by (simp add: tb_ok_def)
  have mem: "y \<in> set ?xs \<longleftrightarrow> (\<exists>j. go_get (tb_rows t) j = Some y)" for y
    by (force simp: go_get_Some_iff [OF ok])
  have "distinct ?xs"
  proof -
    have "inj_on snd (set (sort_key fst (tb_rows t)))"
      using assms(1) by (auto simp: inj_on_def tb_ok_def) metis+
    then show ?thesis using ok by (simp add: distinct_map)
  qed
  moreover have "x \<in> set ?xs" using assms(4) mem [of x] by blast
  moreover have "P y \<longleftrightarrow> y = x" if y: "y \<in> set ?xs" for y
  proof
    assume "P y"
    obtain j where j: "go_get (tb_rows t) j = Some y" using y mem [of y] by blast
    then have "j = i" using \<open>P y\<close> by (rule assms(6))
    with j assms(4) show "y = x" by simp
  qed (use assms(5) in simp)
  ultimately have "filter P ?xs = [x]" by (intro filter_unique)
  then show ?thesis using assms(2,3) by (simp add: tb_get_def tb_select_def tb_stmt_def)
qed

lemma tb_get_missing:
  assumes "tb_ok row_id t" and "tb_faults t = []" and "tb_get P t = (r, t')"
    and "\<And>j y. go_get (tb_rows t) j = Some y \<Longrightarrow> \<not> P y"
  shows "r = Inl ErrNoRows"
proof -
  have "gomap_ok (tb_rows t)" using assms(1) by (simp add: tb_ok_def)
  then have "filter P (map snd (sort_key fst (tb_rows t))) = []"
    using assms(4) by (auto simp: filter_empty_conv go_get_Some_iff)
  then show ?thesis using assms(2,3) by (simp add: tb_get_def tb_select_def tb_stmt_def)
qed

lemma tb_select_frame:
  "tb_select P t = (r, t') \<Longrightarrow> tb_rows t' = tb_rows t \<and> tb_seq t' = tb_seq t \<and> (tb_faults t = [] \<longrightarrow> tb_faults t' = [])"
  unfolding tb_select_def by (erule tb_stmt_cases) auto

lemma tb_get_frame:
  "tb_get P t = (r, t') \<Longrightarrow> tb_rows t' = tb_rows t \<and> tb_seq t' = tb_seq t \<and> (tb_faults t = [] \<longrightarrow> tb_faults t' = [])"
  unfolding tb_get_def using tb_select_frame [of P t] by (auto split: prod.splits sum.splits list.splits)

lemma tb_get_mem: "tb_get P t = (Inr x, t') \<Longrightarrow> (\<exists>i. (i, x) \<in> set (tb_rows t)) \<and> P x"
proof -
  assume g: "tb_get P t = (Inr x, t')"
  then obtain xs where sel: "tb_select P t = (Inr (x # xs), t')"
    by (auto simp: tb_get_def split: prod.splits sum.splits list.splits)
  then have "x # xs = filter P (map snd (sort_key fst (tb_rows t)))"
    unfolding tb_select_def by (cases rule: tb_stmt_cases) auto
  then have "x \<in> set (filter P (map snd (sort_key fst (tb_rows t))))" by (metis list.set_intros(1))
  then show "(\<exists>i. (i, x) \<in> set (tb_rows t)) \<and> P x" by auto
qed

lemma tb_ok_cong: "tb_rows t' = tb_rows t \<Longrightarrow> tb_seq t' = tb_seq t \<Longrightarrow> tb_ok row_id t' = tb_ok row_id t"
  by (simp add: tb_ok_def)

lemma tb_update_rows:
  assumes "tb_update P f t = (err, t')"
  shows "tb_seq t' = tb_seq t \<and> (case err of
      Some _ \<Rightarrow> tb_rows t' = tb_rows t \<and> tb_faults t \<noteq> []
    | None \<Rightarrow> tb_rows t' = map (\<lambda>(i, x). (i, if P x then f x else x)) (tb_rows t) \<and>
        (tb_faults t = [] \<longrightarrow> tb_faults t' = []))"
proof -
  obtain r t1 where st: "tb_stmt (\<lambda>rows. ((), map (\<lambda>(i, x). (i, if P x then f x else x)) rows)) t = (r, t1)"
    by (cases "tb_stmt (\<lambda>rows. ((), map (\<lambda>(i, x). (i, if P x then f x else x)) rows)) t")
  from st show ?thesis
    by (cases rule: tb_stmt_cases) (use assms st in \<open>auto simp: tb_update_def\<close>)
qed

lemma tb_update_get:
  assumes "tb_update P f t = (None, t')"
  shows "go_get (tb_rows t') i = map_option (\<lambda>x. if P x then f x else x) (go_get (tb_rows t) i)"
  using tb_update_rows [OF assms] by (simp add: map_of_map_values)

lemma tb_update_ok:
  assumes "tb_update P f t = (err, t')" and "tb_ok row_id t" and "\<And>x. row_id (f x) = row_id x"
  shows "tb_ok row_id t'"
proof (cases err)
  case None
  then have rows: "tb_rows t' = map (\<lambda>(i, x). (i, if P x then f x else x)) (tb_rows t)" "tb_seq t' = tb_seq t"
    using tb_update_rows [OF assms(1)] by simp_all
  then have "map fst (tb_rows t') = map fst (tb_rows t)" by (auto simp: comp_def split_beta)
  then have "gomap_ok (tb_rows t')" using assms(2) by (simp only: tb_ok_def)
  with rows assms(2,3) show ?thesis by (auto simp: tb_ok_def)
next
  case (Some e)
  with tb_update_rows [OF assms(1)] assms(2) show ?thesis by (simp add: tb_ok_def)
qed

lemma tb_delete_rows:
  assumes "tb_delete i t = (err, t')"
  shows "tb_seq t' = tb_seq t \<and> (case err of
      Some _ \<Rightarrow> tb_rows t' = tb_rows t \<and> tb_faults t \<noteq> []
    | None \<Rightarrow> tb_rows t' = go_del i (tb_rows t) \<and> (tb_faults t = [] \<longrightarrow> tb_faults t' = []))"
proof -
  obtain r t1 where st: "tb_stmt (\<lambda>rows. ((), go_del i rows)) t = (r, t1)"
    by (cases "tb_stmt (\<lambda>rows. ((), go_del i rows)) t")
  from st show ?thesis
    by (cases rule: tb_stmt_cases) (use assms st in \<open>auto simp: tb_delete_def\<close>)
qed

lemma tb_delete_ok: "tb_delete i t = (err, t') \<Longrightarrow> tb_ok row_id t \<Longrightarrow> tb_ok row_id t'"
  using tb_delete_rows [of i t err t'] by (cases err) (auto simp: tb_ok_def go_del_mem)

lemma tb_insert_error:
  "tb_insert check unique mk t = (Inl e, t') \<Longrightarrow>
   tb_rows t' = tb_rows t \<and> tb_seq t \<le> tb_seq t' \<and> (tb_faults t = [] \<longrightarrow> tb_faults t' = [])"
  by (cases "tb_faults t")
    (auto simp: tb_insert_def Let_def split: option.splits if_splits prod.splits)

lemma tb_insert_row:
  "tb_insert check unique mk t = (Inr row, t') \<Longrightarrow>
   row = mk (tb_seq t + 1) \<and> tb_seq t' = tb_seq t + 1 \<and> tb_seq t < 2 ^ 63 - 1 \<and> check row = None \<and>
   tb_rows t' = go_put (tb_seq t + 1) row (tb_rows t) \<and> (tb_faults t = [] \<longrightarrow> tb_faults t' = []) \<and>
   (\<forall>i x. (i, x) \<in> set (tb_rows t) \<longrightarrow> \<not> unique x row)"
  by (cases "tb_faults t")
    (auto simp: tb_insert_def Let_def list_ex_iff split: option.splits if_splits prod.splits)

lemma tb_insert_ok:
  assumes "tb_insert check unique mk t = (r, t')" and "tb_ok row_id t" and "\<And>i. row_id (mk i) = i"
  shows "tb_ok row_id t'"
proof (cases r)
  case (Inl e)
  with tb_insert_error [of check unique mk t e t'] assms show ?thesis by (fastforce simp: tb_ok_def)
next
  case (Inr row)
  with tb_insert_row [of check unique mk t row t'] assms show ?thesis
    by (fastforce simp: tb_ok_def go_put_mem split: if_splits)
qed

lemma tb_insert_fresh: "tb_ok row_id t \<Longrightarrow> go_get (tb_rows t) (tb_seq t + 1) = None"
  using tb_okD [of row_id t "tb_seq t + 1"] by (cases "go_get (tb_rows t) (tb_seq t + 1)") auto

lemma wrap_result_simps [simp]:
  "wrap_result f args (Inl e, t) = (Inl (Wrapf f args e), t)" "wrap_result f args (Inr x, t) = (Inr x, t)"
  "snd (wrap_result f args z) = snd z"
  by (simp_all add: wrap_result_def split: prod.splits sum.splits)

lemma wrap_error_simps [simp]:
  "wrap_error f args z = (None, t) \<longleftrightarrow> z = (None, t)"
  "wrap_error f args z = (Some e, t) \<longleftrightarrow> (\<exists>e0. z = (Some e0, t) \<and> e = Wrapf f args e0)"
  by (cases z; auto simp: wrap_error_def)+

lemma paginate_snd [simp]: "snd (paginate l off z) = snd z"
  by (simp add: paginate_def split: prod.splits sum.splits)

section \<open>Tables with unique columns\<close>

text \<open>\<open>uniq x y\<close> says that two rows collide on a \<open>UNIQUE\<close> column.\<close>

definition tb_uniq :: "('row \<Rightarrow> int) \<Rightarrow> ('row \<Rightarrow> 'row \<Rightarrow> bool) \<Rightarrow> 'row table \<Rightarrow> bool" where
  "tb_uniq row_id uniq t \<longleftrightarrow> tb_ok row_id t \<and>
     (\<forall>i x j y. go_get (tb_rows t) i = Some x \<longrightarrow> go_get (tb_rows t) j = Some y \<longrightarrow> uniq x y \<longrightarrow> i = j)"

lemma tb_uniqD:
  assumes "tb_uniq row_id uniq t"
  shows "tb_ok row_id t"
    and "go_get (tb_rows t) i = Some x \<Longrightarrow> go_get (tb_rows t) j = Some y \<Longrightarrow> uniq x y \<Longrightarrow> i = j"
  using assms unfolding tb_uniq_def by blast+

lemma tb_uniq_empty: "tb_uniq row_id uniq (tb_empty\<lparr>tb_faults := fs\<rparr>)"
  by (simp add: tb_uniq_def tb_ok_def tb_empty_def)

lemma tb_uniq_same:
  "tb_rows t' = tb_rows t \<Longrightarrow> tb_ok row_id t' \<Longrightarrow> tb_uniq row_id uniq t \<Longrightarrow> tb_uniq row_id uniq t'"
  by (simp add: tb_uniq_def)

lemma tb_uniq_select: "tb_uniq row_id uniq t \<Longrightarrow> tb_uniq row_id uniq (snd (tb_select P t))"
  using tb_select_frame [of P t] by (metis tb_uniq_same tb_uniqD(1) prod.collapse tb_ok_cong)

lemma tb_uniq_get: "tb_uniq row_id uniq t \<Longrightarrow> tb_uniq row_id uniq (snd (tb_get P t))"
  using tb_get_frame [of P t] by (metis tb_uniq_same tb_uniqD(1) prod.collapse tb_ok_cong)

lemma tb_uniq_insert_error:
  assumes "tb_uniq row_id uniq t" "tb_insert check uniq mk t = (Inl e, t')" "\<And>i. row_id (mk i) = i"
  shows "tb_uniq row_id uniq t' \<and> tb_rows t' = tb_rows t"
  using tb_insert_error [OF assms(2)] tb_insert_ok [OF assms(2) tb_uniqD(1) [OF assms(1)] assms(3)] assms(1)
  by (auto intro: tb_uniq_same)

lemma tb_uniq_insert:
  assumes ok: "tb_uniq row_id uniq t" and ins: "tb_insert check uniq mk t = (Inr row, t')"
    and mk: "\<And>i. row_id (mk i) = i" and sym: "\<And>x y. uniq x y = uniq y x"
  shows "tb_uniq row_id uniq t' \<and> row = mk (row_id row) \<and> row_id row = tb_seq t + 1 \<and>
    go_get (tb_rows t) (row_id row) = None \<and> go_get (tb_rows t') = (go_get (tb_rows t))(row_id row \<mapsto> row) \<and>
    (tb_faults t = [] \<longrightarrow> tb_faults t' = [])"
proof -
  note R = tb_insert_row [OF ins]
  have row: "row = mk (tb_seq t + 1)" "row_id row = tb_seq t + 1" using R mk by simp_all
  have rows: "go_get (tb_rows t') = (go_get (tb_rows t))(row_id row \<mapsto> row)" using R row by (simp add: fun_upd_def)
  have other: "\<not> uniq x row" if "go_get (tb_rows t) j = Some x" for j x
    using R go_get_in_set [OF that] by blast
  have "tb_uniq row_id uniq t'"
    unfolding tb_uniq_def
  proof (intro conjI allI impI)
    show "tb_ok row_id t'" using ins tb_uniqD(1) [OF ok] mk by (rule tb_insert_ok)
    fix i x j y
    assume "go_get (tb_rows t') i = Some x" "go_get (tb_rows t') j = Some y" "uniq x y"
    then show "i = j"
      using tb_uniqD(2) [OF ok, of i x j y] other [of i x] other [of j y] sym [of x y]
      by (auto simp: rows split: if_splits)
  qed
  then show ?thesis using row rows R tb_insert_fresh [OF tb_uniqD(1) [OF ok]] by simp
qed

lemma tb_uniq_update:
  assumes ok: "tb_uniq row_id uniq t" and u: "tb_update P f t = (err, t')"
    and keep: "\<And>x. row_id (f x) = row_id x" "\<And>x y. uniq (f x) y = uniq x y" "\<And>x y. uniq x (f y) = uniq x y"
  shows "tb_uniq row_id uniq t'"
proof (cases err)
  case (Some e)
  then have "tb_rows t' = tb_rows t" using tb_update_rows [OF u] by simp
  then show ?thesis by (rule tb_uniq_same [OF _ tb_update_ok [OF u tb_uniqD(1) [OF ok] keep(1)] ok])
next
  case None
  have "tb_ok row_id t'" using tb_update_ok [OF u tb_uniqD(1) [OF ok]] keep(1) by simp
  moreover have "i = j" if h: "go_get (tb_rows t') i = Some x" "go_get (tb_rows t') j = Some y" "uniq x y" for i x j y
  proof -
    have get: "\<exists>z0. go_get (tb_rows t) k = Some z0 \<and> z = (if P z0 then f z0 else z0)"
      if "go_get (tb_rows t') k = Some z" for k z
      using tb_update_get [OF u [unfolded None], of k] that by (cases "go_get (tb_rows t) k") simp_all
    obtain x0 y0 where "go_get (tb_rows t) i = Some x0" "go_get (tb_rows t) j = Some y0"
      "x = (if P x0 then f x0 else x0)" "y = (if P y0 then f y0 else y0)"
      using get [OF h(1)] get [OF h(2)] by blast
    with h(3) keep(2,3) show ?thesis by (intro tb_uniqD(2) [OF ok, of i x0 j y0]) (auto split: if_splits)
  qed
  ultimately show ?thesis by (auto simp: tb_uniq_def)
qed

lemma tb_uniq_delete:
  assumes ok: "tb_uniq row_id uniq t" and d: "tb_delete i t = (err, t')"
  shows "tb_uniq row_id uniq t' \<and> go_get (tb_rows t') = (if err = None then (go_get (tb_rows t))(i := None) else go_get (tb_rows t)) \<and>
    (err = None \<longrightarrow> tb_faults t = [] \<longrightarrow> tb_faults t' = [])"
proof (cases err)
  case None
  then have rows: "go_get (tb_rows t') = (go_get (tb_rows t))(i := None)" using tb_delete_rows [OF d] by (simp add: fun_upd_def)
  have "tb_uniq row_id uniq t'"
    unfolding tb_uniq_def using tb_delete_ok [OF d tb_uniqD(1) [OF ok]] tb_uniqD(2) [OF ok] by (simp add: rows)
  then show ?thesis using None rows tb_delete_rows [OF d] by simp
next
  case (Some e)
  then have "tb_rows t' = tb_rows t" using tb_delete_rows [OF d] by simp
  then show ?thesis using tb_delete_ok [OF d tb_uniqD(1) [OF ok]] ok Some by (auto intro: tb_uniq_same)
qed

text \<open>A row found by a column that no other row shares.\<close>

lemma tb_delete_found_rows:
  fixes t :: "'row table"
  assumes ok: "tb_uniq row_id uniq t" and d: "tb_delete_found notFound i t = (err, t')"
  shows "tb_uniq row_id uniq t' \<and> (case err of
      None \<Rightarrow> go_get (tb_rows t) i \<noteq> None \<and> go_get (tb_rows t') = (go_get (tb_rows t))(i := None) \<and> (tb_faults t = [] \<longrightarrow> tb_faults t' = [])
    | Some _ \<Rightarrow> go_get (tb_rows t') = go_get (tb_rows t))"
proof -
  let ?stmt = "\<lambda>rows :: (int, 'row) gomap. (length (filter (\<lambda>(j, _). j = i) rows), go_del i rows)"
  obtain r t1 where st: "tb_stmt ?stmt t = (r, t1)" by (cases "tb_stmt ?stmt t")
  then have t1: "t1 = t'" using d by (auto simp: tb_delete_found_def split: prod.splits sum.splits)
  from st show ?thesis
  proof (cases rule: tb_stmt_cases)
    case (fault e)
    have rows: "tb_rows t' = tb_rows t" "tb_seq t' = tb_seq t" using fault t1 by simp_all
    have "tb_ok row_id t'" using tb_uniqD(1) [OF ok] tb_ok_cong [OF rows, of row_id] by blast
    from tb_uniq_same [OF rows(1) this ok] have "tb_uniq row_id uniq t'" .
    then show ?thesis using fault d st t1 by (auto simp: tb_delete_found_def)
  next
    case (ran n rows)
    have rows: "tb_rows t' = go_del i (tb_rows t)" "n = length (filter (\<lambda>(j, _). j = i) (tb_rows t))"
      using ran t1 by auto
    have zero: "n = 0 \<longleftrightarrow> go_get (tb_rows t) i = None"
      unfolding rows(2) by (auto simp: filter_empty_conv map_of_eq_None_iff) (metis fst_conv imageI)
    have seq: "tb_seq t' = tb_seq t" using ran(4) t1 by simp
    have "tb_ok row_id t'"
      using tb_uniqD(1) [OF ok] unfolding tb_ok_def rows(1) seq by (auto simp: go_del_mem)
    then have "tb_uniq row_id uniq t'" using ok rows(1) by (auto simp: tb_uniq_def split: if_splits)
    moreover have "err = (if n = 0 then Some notFound else None)" using d st ran t1 by (simp add: tb_delete_found_def)
    moreover have "go_get (tb_rows t') = (go_get (tb_rows t))(i := None)" using rows(1) by (simp add: fun_upd_def)
    ultimately show ?thesis using zero ran(5) t1 by (auto simp: fun_upd_def fun_eq_iff)
  qed
qed

lemma tb_get_by:
  assumes ok: "tb_uniq row_id uniq t" and "tb_faults t = []" and x: "go_get (tb_rows t) i = Some x" "P x"
    and one: "\<And>j y. go_get (tb_rows t) j = Some y \<Longrightarrow> P y \<Longrightarrow> j = i"
  shows "fst (tb_get P t) = Inr x"
  by (rule tb_get_unique [where t' = "snd (tb_get P t)" and P = P, OF tb_uniqD(1) [OF ok] assms(2) _ x one]) simp_all

lemma tb_get_none:
  assumes "tb_uniq row_id uniq t" and "tb_faults t = []" and "\<And>j y. go_get (tb_rows t) j = Some y \<Longrightarrow> \<not> P y"
  shows "fst (tb_get P t) = Inl ErrNoRows"
  by (rule tb_get_missing [where t' = "snd (tb_get P t)" and P = P, OF tb_uniqD(1) [OF assms(1)] assms(2) _ assms(3)]) simp_all

section \<open>Indexed stores\<close>

text \<open>
  The three maps of an in-memory repository: the rows by identifier and two indexes, by natural
  key and by session identifier. Both indexes point exactly at the stored rows.
\<close>

definition index_ok :: "('a \<Rightarrow> int) \<Rightarrow> ('a \<Rightarrow> string) \<Rightarrow> ('a \<Rightarrow> string) \<Rightarrow> (int, 'a) gomap \<Rightarrow> (string, int) gomap \<Rightarrow>
    (string, int) gomap \<Rightarrow> int \<Rightarrow> bool" where
  "index_ok rid rkey rses store byKey bySession seq \<longleftrightarrow> gomap_ok store \<and> 0 \<le> seq \<and> seq < 2 ^ 63 \<and>
     (\<forall>i x. go_get store i = Some x \<longrightarrow>
        rid x = i \<and> i \<le> seq \<and> go_get byKey (rkey x) = Some i \<and> go_get bySession (rses x) = Some i) \<and>
     (\<forall>k i. go_get byKey k = Some i \<longrightarrow> (\<exists>x. go_get store i = Some x \<and> rkey x = k)) \<and>
     (\<forall>q i. go_get bySession q = Some i \<longrightarrow> (\<exists>x. go_get store i = Some x \<and> rses x = q))"

lemma index_okI:
  assumes "gomap_ok store" "0 \<le> seq" "seq < 2 ^ 63"
    and "\<And>i x. go_get store i = Some x \<Longrightarrow>
        rid x = i \<and> i \<le> seq \<and> go_get byKey (rkey x) = Some i \<and> go_get bySession (rses x) = Some i"
    and "\<And>k i. go_get byKey k = Some i \<Longrightarrow> \<exists>x. go_get store i = Some x \<and> rkey x = k"
    and "\<And>q i. go_get bySession q = Some i \<Longrightarrow> \<exists>x. go_get store i = Some x \<and> rses x = q"
  shows "index_ok rid rkey rses store byKey bySession seq"
  unfolding index_ok_def using assms by simp

lemma index_ok_parts:
  assumes "index_ok rid rkey rses store byKey bySession seq"
  shows "gomap_ok store" "0 \<le> seq" "seq < 2 ^ 63"
    and "go_get store i = Some x \<Longrightarrow> rid x = i"
    and "go_get store i = Some x \<Longrightarrow> i \<le> seq"
    and "go_get store i = Some x \<Longrightarrow> go_get byKey (rkey x) = Some i"
    and "go_get store i = Some x \<Longrightarrow> go_get bySession (rses x) = Some i"
    and "go_get byKey k = Some i \<Longrightarrow> \<exists>x. go_get store i = Some x \<and> rkey x = k"
    and "go_get bySession q = Some i \<Longrightarrow> \<exists>x. go_get store i = Some x \<and> rses x = q"
  using assms unfolding index_ok_def by blast+

lemma index_ok_empty: "index_ok rid rkey rses [] [] [] 0"
  by (simp add: index_ok_def)

lemma index_ok_fresh: "index_ok rid rkey rses store byKey bySession seq \<Longrightarrow> go_get store (seq + 1) = None"
  using index_ok_parts(5) [of rid rkey rses store byKey bySession seq "seq + 1"]
  by (cases "go_get store (seq + 1)") auto

lemma index_ok_seq: "index_ok rid rkey rses store byKey bySession seq \<Longrightarrow> seq < 2 ^ 63 - 1 \<Longrightarrow> wrap64 (seq + 1) = seq + 1"
  by (intro wrap64_id) (simp_all add: index_ok_def)

lemma index_ok_insert:
  assumes ok: "index_ok rid rkey rses store byKey bySession seq" and room: "seq < 2 ^ 63 - 1"
    and key: "go_get byKey (rkey x) = None" and rid: "rid x = seq + 1"
    and new: "\<And>i y. go_get store i = Some y \<Longrightarrow> rses y \<noteq> rses x"
  shows "index_ok rid rkey rses (go_put (seq + 1) x store) (go_put (rkey x) (seq + 1) byKey)
    (go_put (rses x) (seq + 1) bySession) (seq + 1)"
proof (rule index_okI, goal_cases)
  note P = index_ok_parts [OF ok]
  {
    case (4 i y)
    show ?case
    proof (cases "i = seq + 1")
      case False
      with 4 have y: "go_get store i = Some y" by simp
      have "rkey y \<noteq> rkey x" "rses y \<noteq> rses x" using P(6) [OF y] key new [OF y] by auto
      with P(4-7) [OF y] show ?thesis by simp
    qed (use 4 rid in auto)
  next
    case (5 k i)
    then show ?case using P(8) [of k i] index_ok_fresh [OF ok] by (auto split: if_splits)
  next
    case (6 q i)
    then show ?case using P(9) [of q i] index_ok_fresh [OF ok] by (auto split: if_splits)
  }
qed (use index_ok_parts(1-3) [OF ok] room in simp_all)

lemma index_ok_delete:
  assumes ok: "index_ok rid rkey rses store byKey bySession seq" and x: "go_get store i = Some x"
  shows "index_ok rid rkey rses (go_del i store) (go_del (rkey x) byKey) (go_del (rses x) bySession) seq"
proof (rule index_okI, goal_cases)
  note P = index_ok_parts [OF ok]
  {
    case (4 j y)
    then have y: "go_get store j = Some y" "j \<noteq> i" by (simp_all split: if_splits)
    have "rkey y \<noteq> rkey x" "rses y \<noteq> rses x" using P(6,7) [OF y(1)] P(6,7) [OF x] y(2) by auto
    then show ?case using P(4-7) [OF y(1)] y(2) by simp
  next
    case (5 k j)
    then have k: "go_get byKey k = Some j" "k \<noteq> rkey x" by (simp_all split: if_splits)
    then show ?case using P(8) [OF k(1)] x by auto
  next
    case (6 q j)
    then have q: "go_get bySession q = Some j" "q \<noteq> rses x" by (simp_all split: if_splits)
    then show ?case using P(9) [OF q(1)] x by auto
  }
qed (use index_ok_parts(1-3) [OF ok] in simp_all)

text \<open>An update that keeps identifier, key and session keeps the indexes right.\<close>

lemma index_ok_store:
  assumes ok: "index_ok rid rkey rses store byKey bySession seq" and x: "go_get store i = Some x"
    and keep: "rid x' = rid x" "rkey x' = rkey x" "rses x' = rses x"
  shows "index_ok rid rkey rses (go_put i x' store) byKey bySession seq"
proof (rule index_okI, goal_cases)
  note P = index_ok_parts [OF ok]
  {
    case (4 j y)
    then show ?case using P(4-7) [OF x] P(4-7) [of j y] keep by (auto split: if_splits)
  next
    case (5 k j)
    then show ?case using P(8) [of k j] x keep by auto
  next
    case (6 q j)
    then show ?case using P(9) [of q j] x keep by auto
  }
qed (use index_ok_parts(1-3) [OF ok] in simp_all)

section \<open>The contract of a repository\<close>

text \<open>
  \<open>view\<close> is the stored rows by identifier, \<open>ok\<close> the representation invariant, \<open>quiet\<close> says that no
  statement to come fails in the driver. \<open>row_key\<close> is the unique natural key (phone or stored
  token) and \<open>row_session\<close> the session identifier. \<open>blank\<close> rows are those the services create,
  with no profile and no worker, and \<open>room\<close> says that an identifier is left. The laws are the
  ones the services rely on; a row created with a fresh session identifier is returned as stored.
\<close>

locale repository =
  fixes ok :: "'r \<Rightarrow> bool" and quiet :: "'r \<Rightarrow> bool" and view :: "'r \<Rightarrow> int \<Rightarrow> 'a option"
    and room :: "'r \<Rightarrow> bool" and blank :: "'a \<Rightarrow> bool"
    and row_id :: "'a \<Rightarrow> int" and row_key :: "'a \<Rightarrow> string" and row_session :: "'a \<Rightarrow> string"
    and create :: "'a \<Rightarrow> 'r \<Rightarrow> (error + 'a) \<times> 'r"
    and get_by_id :: "int \<Rightarrow> 'r \<Rightarrow> (error + 'a) \<times> 'r"
    and get_by_session :: "string \<Rightarrow> 'r \<Rightarrow> (error + 'a) \<times> 'r"
    and delete :: "int \<Rightarrow> 'r \<Rightarrow> error option \<times> 'r"
    and update_worker :: "string \<Rightarrow> string \<Rightarrow> 'r \<Rightarrow> error option \<times> 'r"
    and row_worker :: "'a \<Rightarrow> string option"
  assumes ok_id: "ok r \<Longrightarrow> view r i = Some x \<Longrightarrow> row_id x = i"
    and ok_key: "ok r \<Longrightarrow> view r i = Some x \<Longrightarrow> view r j = Some y \<Longrightarrow> row_key x = row_key y \<Longrightarrow> i = j"
    and ok_session: "ok r \<Longrightarrow> view r i = Some x \<Longrightarrow> view r j = Some y \<Longrightarrow> row_session x = row_session y \<Longrightarrow> i = j"
    and create_row: "ok r \<Longrightarrow> room r \<Longrightarrow> blank a \<Longrightarrow> (\<And>i x. view r i = Some x \<Longrightarrow> row_session x \<noteq> row_session a) \<Longrightarrow>
      create a r = (Inr a', r') \<Longrightarrow>
      ok r' \<and> (quiet r \<longrightarrow> quiet r') \<and> view r (row_id a') = None \<and> view r' = (view r)(row_id a' \<mapsto> a') \<and>
      row_key a' = row_key a \<and> row_session a' = row_session a"
    and create_error: "ok r \<Longrightarrow> create a r = (Inl e, r') \<Longrightarrow> ok r' \<and> view r' = view r"
    and id_found: "ok r \<Longrightarrow> quiet r \<Longrightarrow> view r i = Some x \<Longrightarrow> fst (get_by_id i r) = Inr x"
    and id_missing: "ok r \<Longrightarrow> quiet r \<Longrightarrow> view r i = None \<Longrightarrow>
      \<exists>e. fst (get_by_id i r) = Inl e \<and> errors_Is e ErrNoRows"
    and session_found: "ok r \<Longrightarrow> quiet r \<Longrightarrow> view r i = Some x \<Longrightarrow> fst (get_by_session (row_session x) r) = Inr x"
    and get_frame: "ok r \<Longrightarrow> ok (snd (get_by_id i r)) \<and> view (snd (get_by_id i r)) = view r \<and>
      ok (snd (get_by_session s r)) \<and> view (snd (get_by_session s r)) = view r"
    and delete_row: "ok r \<Longrightarrow> delete i r = (None, r') \<Longrightarrow>
      ok r' \<and> (quiet r \<longrightarrow> quiet r') \<and> view r' = (view r)(i := None)"
    and delete_error: "ok r \<Longrightarrow> delete i r = (Some e, r') \<Longrightarrow> ok r' \<and> view r' = view r"
    and worker_row: "ok r \<Longrightarrow> view r i = Some x \<Longrightarrow> update_worker (row_session x) w r = (None, r') \<Longrightarrow>
      ok r' \<and> (quiet r \<longrightarrow> quiet r') \<and> (\<exists>x'. view r' = (view r)(i \<mapsto> x') \<and> row_worker x' = Some w \<and>
        row_key x' = row_key x \<and> row_session x' = row_session x)"
    and worker_error: "ok r \<Longrightarrow> update_worker s w r = (Some e, r') \<Longrightarrow> ok r' \<and> view r' = view r"
begin

lemma created_is_found:
  assumes "ok r" "room r" "blank a" "quiet r" "\<And>i x. view r i = Some x \<Longrightarrow> row_session x \<noteq> row_session a"
    and "create a r = (Inr a', r')"
  shows "fst (get_by_id (row_id a') r') = Inr a' \<and> fst (get_by_session (row_session a) r') = Inr a'"
proof -
  have r': "ok r'" "quiet r'" "view r' (row_id a') = Some a'" "row_session a' = row_session a"
    using create_row [OF assms(1-3) _ assms(6)] assms(4,5) by auto
  show ?thesis using id_found [OF r'(1-3)] session_found [OF r'(1-3)] r'(4) by simp
qed

lemma duplicate_refused:
  assumes "ok r" "room r" "blank a" "\<And>i x. view r i = Some x \<Longrightarrow> row_session x \<noteq> row_session a"
    and "view r i = Some x" "row_key x = row_key a"
  shows "\<exists>e. fst (create a r) = Inl e"
proof (cases "fst (create a r)")
  case (Inr a')
  then have c: "create a r = (Inr a', snd (create a r))" by (metis prod.collapse)
  let ?r = "snd (create a r)"
  have new: "ok ?r" "view r (row_id a') = None" "view ?r = (view r)(row_id a' \<mapsto> a')" "row_key a' = row_key a"
    using create_row [OF assms(1-3) _ c] assms(4) by auto
  have "i \<noteq> row_id a'" using new(2) assms(5) by auto
  then have "view ?r i = Some x" "view ?r (row_id a') = Some a'" using new(3) assms(5) by simp_all
  from ok_key [OF new(1) this] \<open>i \<noteq> row_id a'\<close> new(4) assms(6) show ?thesis by simp
qed simp

lemma deleted_is_missing:
  assumes "ok r" "quiet r" "delete i r = (None, r')"
  shows "\<exists>e. fst (get_by_id i r') = Inl e \<and> errors_Is e ErrNoRows"
  using delete_row [OF assms(1,3)] assms(2) by (intro id_missing) simp_all

lemma deletion_leaves_others:
  assumes "ok r" "quiet r" "delete i r = (None, r')" "view r j = Some x" "j \<noteq> i"
  shows "fst (get_by_id j r') = Inr x"
  using delete_row [OF assms(1,3)] assms(2,4,5) by (intro id_found) simp_all

lemma assigned_is_found:
  assumes "ok r" "quiet r" "view r i = Some x" "update_worker (row_session x) w r = (None, r')"
  shows "\<exists>x'. fst (get_by_session (row_session x) r') = Inr x' \<and> row_worker x' = Some w \<and> row_key x' = row_key x"
proof -
  obtain x' where x': "ok r'" "quiet r'" "view r' = (view r)(i \<mapsto> x')" "row_worker x' = Some w" "row_key x' = row_key x"
    "row_session x' = row_session x" using worker_row [OF assms(1,3,4)] assms(2) by blast
  then have "fst (get_by_session (row_session x') r') = Inr x'" by (intro session_found [of r' i]) simp_all
  with x' show ?thesis by auto
qed

end

section \<open>Pages\<close>

text \<open>Consecutive pages of one size, put together, are the head of the whole selection.\<close>

lemma concat_pages: "concat (map (\<lambda>k. take n (drop (k * n) xs)) [0..<p]) = take (p * n) xs"
proof (induction p)
  case (Suc p)
  have "take (p * n) xs @ take n (drop (p * n) xs) = take (p * n + n) xs" by (simp add: take_add)
  with Suc show ?case by (simp add: add.commute)
qed simp

end
