(* ===== verification/Go_Crypto.thy ===== *)
theory Go_Crypto
  imports Prelude
begin

text \<open>
  The parts of Go's standard library that the program uses on byte strings: \<open>encoding/hex\<close>,
  \<open>encoding/base64\<close>, \<open>crypto/sha256\<close>, \<open>crypto/hmac\<close>, and AES-256 in Galois/counter mode
  (\<open>crypto/aes\<close>, \<open>crypto/cipher\<close>). All definitions compute. What the components rely on is proved
  of them: the two encodings are inverted by their decoders, and opening a sealed message gives
  the message back.
\<close>

unbundle bit_operations_syntax

type_synonym byte = "8 word"
type_synonym bytes = "byte list"

section \<open>Strings and bytes\<close>

definition bytes_of :: "string \<Rightarrow> bytes" where
  "bytes_of s = map (\<lambda>c. of_nat (of_char c)) s"

definition string_of :: "bytes \<Rightarrow> string" where
  "string_of bs = map (\<lambda>b. char_of (unat b)) bs"

lemma string_of_bytes_of [simp]: "string_of (bytes_of s) = s"
  by (induction s) (simp_all add: string_of_def bytes_of_def unat_of_nat take_bit_nat_eq_self)

lemma bytes_of_string_of [simp]: "bytes_of (string_of bs) = bs"
proof (induction bs)
  case (Cons b bs)
  have "(of_char (char_of (unat b) :: char) :: nat) = unat b"
    using unsigned_less [where 'a = nat, of b] by (simp add: of_char_of)
  with Cons show ?case by (simp add: string_of_def bytes_of_def)
qed (simp add: string_of_def bytes_of_def)

lemma bytes_of_inj: "bytes_of s = bytes_of t \<longleftrightarrow> s = t"
  by (metis string_of_bytes_of)

lemma length_bytes_of [simp]: "length (bytes_of s) = length s"
  by (simp add: bytes_of_def)

section \<open>Hexadecimal\<close>

definition hex_digits :: string where
  "hex_digits = ''0123456789abcdef''"

definition hex_chr :: "nat \<Rightarrow> char" where
  "hex_chr n = hex_digits ! n"

definition hex_EncodeToString :: "bytes \<Rightarrow> string" where
  "hex_EncodeToString bs = concat (map (\<lambda>b. [hex_chr (unat b div 16), hex_chr (unat b mod 16)]) bs)"

definition hex_val :: "char \<Rightarrow> nat option" where
  "hex_val c =
     (let k = of_char c :: nat in
      if 48 \<le> k \<and> k \<le> 57 then Some (k - 48)
      else if 97 \<le> k \<and> k \<le> 102 then Some (k - 87)
      else if 65 \<le> k \<and> k \<le> 70 then Some (k - 55)
      else None)"

fun hex_DecodeString :: "string \<Rightarrow> error + bytes" where
  "hex_DecodeString [] = Inr []"
| "hex_DecodeString [c] =
     (case hex_val c of
        None \<Rightarrow> Inl (Errorf ''encoding/hex: invalid byte'' [[c]])
      | Some _ \<Rightarrow> Inl (Sentinel ''encoding/hex: odd length hex string''))"
| "hex_DecodeString (c # d # rest) =
     (case (hex_val c, hex_val d) of
        (None, _) \<Rightarrow> Inl (Errorf ''encoding/hex: invalid byte'' [[c]])
      | (_, None) \<Rightarrow> Inl (Errorf ''encoding/hex: invalid byte'' [[d]])
      | (Some x, Some y) \<Rightarrow>
          (case hex_DecodeString rest of
             Inl e \<Rightarrow> Inl e
           | Inr bs \<Rightarrow> Inr (of_nat (16 * x + y) # bs)))"

lemma hex_val_chr: "n < 16 \<Longrightarrow> hex_val (hex_chr n) = Some n"
proof -
  have "list_all (\<lambda>n. hex_val (hex_chr n) = Some n) [0..<16]"
    by (simp add: upt_rec hex_val_def hex_chr_def hex_digits_def)
  then show "n < 16 \<Longrightarrow> ?thesis" by (simp add: list_all_iff)
qed

lemma unat_byte [simp]: "unat (b :: byte) < 256"
  using unsigned_less [where 'a = nat, of b] by simp

lemma hex_roundtrip: "hex_DecodeString (hex_EncodeToString bs) = Inr bs"
proof (induction bs)
  case (Cons b bs)
  have "unat b div 16 < 16" using unat_byte [of b] by linarith
  then show ?case using Cons by (simp add: hex_EncodeToString_def hex_val_chr)
qed (simp add: hex_EncodeToString_def)

lemma hex_EncodeToString_inj: "hex_EncodeToString bs = hex_EncodeToString cs \<longleftrightarrow> bs = cs"
  by (metis hex_roundtrip sum.inject(2))

lemma length_hex [simp]: "length (hex_EncodeToString bs) = 2 * length bs"
  by (induction bs) (simp_all add: hex_EncodeToString_def)

section \<open>Base64\<close>

definition b64_alphabet :: string where
  "b64_alphabet = ''ABCDEFGHIJKLMNOPQRSTUVWXYZabcdefghijklmnopqrstuvwxyz0123456789+/''"

definition b64_chr :: "nat \<Rightarrow> char" where
  "b64_chr n = b64_alphabet ! n"

definition b64_val :: "char \<Rightarrow> nat option" where
  "b64_val c =
     (let k = of_char c :: nat in
      if 65 \<le> k \<and> k \<le> 90 then Some (k - 65)
      else if 97 \<le> k \<and> k \<le> 122 then Some (k - 71)
      else if 48 \<le> k \<and> k \<le> 57 then Some (k + 4)
      else if k = 43 then Some 62
      else if k = 47 then Some 63
      else None)"

abbreviation b64_pad :: char where
  "b64_pad \<equiv> CHR ''=''"

fun b64_encode_nats :: "nat list \<Rightarrow> string" where
  "b64_encode_nats [] = []"
| "b64_encode_nats [a] = [b64_chr (a div 4), b64_chr (a mod 4 * 16), b64_pad, b64_pad]"
| "b64_encode_nats [a, b] =
     [b64_chr (a div 4), b64_chr (a mod 4 * 16 + b div 16), b64_chr (b mod 16 * 4), b64_pad]"
| "b64_encode_nats (a # b # c # rest) =
     b64_chr (a div 4) # b64_chr (a mod 4 * 16 + b div 16) # b64_chr (b mod 16 * 4 + c div 64) #
     b64_chr (c mod 64) # b64_encode_nats rest"

definition b64_EncodeToString :: "bytes \<Rightarrow> string" where
  "b64_EncodeToString bs = b64_encode_nats (map unat bs)"

text \<open>
  The decoder: line feeds and carriage returns are skipped, padding may only end the input, and
  the unused bits of the last group are not checked.
\<close>

fun b64_decode_quads :: "string \<Rightarrow> nat list option" where
  "b64_decode_quads [] = Some []"
| "b64_decode_quads (p # q # r # s # rest) =
     (case (b64_val p, b64_val q) of
        (Some w, Some x) \<Rightarrow>
          (if r = b64_pad then (if s = b64_pad \<and> rest = [] then Some [w * 4 + x div 16] else None)
           else
             (case b64_val r of
                None \<Rightarrow> None
              | Some y \<Rightarrow>
                  (if s = b64_pad
                   then (if rest = [] then Some [w * 4 + x div 16, x mod 16 * 16 + y div 4] else None)
                   else
                     (case b64_val s of
                        None \<Rightarrow> None
                      | Some z \<Rightarrow>
                          map_option (\<lambda>bs. (w * 4 + x div 16) # (x mod 16 * 16 + y div 4) # (y mod 4 * 64 + z) # bs)
                            (b64_decode_quads rest)))))
      | _ \<Rightarrow> None)"
| "b64_decode_quads _ = None"

definition b64_DecodeString :: "string \<Rightarrow> error + bytes" where
  "b64_DecodeString s =
     (case b64_decode_quads (filter (\<lambda>c. c \<noteq> CHR 0x0A \<and> c \<noteq> CHR 0x0D) s) of
        None \<Rightarrow> Inl (Errorf ''illegal base64 data at input byte'' [])
      | Some ns \<Rightarrow> Inr (map of_nat ns))"

lemma b64_chr_facts:
  assumes "n < 64"
  shows "b64_val (b64_chr n) = Some n" and "b64_chr n \<noteq> b64_pad" and "b64_chr n \<noteq> CHR 0x0A" and "b64_chr n \<noteq> CHR 0x0D"
proof -
  have "list_all (\<lambda>n. b64_val (b64_chr n) = Some n \<and> b64_chr n \<noteq> b64_pad \<and> b64_chr n \<noteq> CHR 0x0A \<and>
      b64_chr n \<noteq> CHR 0x0D) [0..<64]"
    by (simp add: upt_rec b64_val_def b64_chr_def b64_alphabet_def)
  then show "b64_val (b64_chr n) = Some n" and "b64_chr n \<noteq> b64_pad" and "b64_chr n \<noteq> CHR 0x0A" and "b64_chr n \<noteq> CHR 0x0D"
    using assms by (simp_all add: list_all_iff)
qed

lemma b64_groups:
  fixes a b c :: nat
  assumes "a < 256" "b < 256" "c < 256"
  shows "a div 4 < 64" "a mod 4 * 16 < 64" "a mod 4 * 16 + b div 16 < 64" "b mod 16 * 4 < 64"
    "b mod 16 * 4 + c div 64 < 64" "c mod 64 < 64"
    "a div 4 * 4 + (a mod 4 * 16 + b div 16) div 16 = a" "a div 4 * 4 + a mod 4 * 16 div 16 = a"
    "(a mod 4 * 16 + b div 16) mod 16 * 16 + (b mod 16 * 4 + c div 64) div 4 = b"
    "(a mod 4 * 16 + b div 16) mod 16 * 16 + b mod 16 * 4 div 4 = b"
    "(b mod 16 * 4 + c div 64) mod 4 * 64 + c mod 64 = c"
proof -
  define p q u v x y where d: "p = a div 4" "q = a mod 4" "u = b div 16" "v = b mod 16" "x = c div 64" "y = c mod 64"
  have b: "q < 4" "u < 16" "v < 16" "x < 4" "y < 64" "p < 64" using assms by (simp_all add: d less_mult_imp_div_less)
  have eq: "a = p * 4 + q" "b = u * 16 + v" "c = x * 64 + y" by (simp_all add: d)
  show "a div 4 < 64" "a mod 4 * 16 < 64" "a mod 4 * 16 + b div 16 < 64" "b mod 16 * 4 < 64"
    "b mod 16 * 4 + c div 64 < 64" "c mod 64 < 64"
    "a div 4 * 4 + (a mod 4 * 16 + b div 16) div 16 = a" "a div 4 * 4 + a mod 4 * 16 div 16 = a"
    "(a mod 4 * 16 + b div 16) mod 16 * 16 + (b mod 16 * 4 + c div 64) div 4 = b"
    "(a mod 4 * 16 + b div 16) mod 16 * 16 + b mod 16 * 4 div 4 = b"
    "(b mod 16 * 4 + c div 64) mod 4 * 64 + c mod 64 = c"
    unfolding d [symmetric] using b eq by simp_all
qed

lemma b64_decode_encode: "list_all (\<lambda>n. n < 256) ns \<Longrightarrow> b64_decode_quads (b64_encode_nats ns) = Some ns"
proof (induction ns rule: b64_encode_nats.induct)
  case (2 a)
  then show ?case using b64_groups [of a 0 0] by (simp add: b64_chr_facts)
next
  case (3 a b)
  then show ?case using b64_groups [of a b 0] by (simp add: b64_chr_facts)
next
  case (4 a b c rest)
  then show ?case using b64_groups [of a b c] by (simp add: b64_chr_facts)
qed simp

lemma b64_encode_no_newline:
  "list_all (\<lambda>n. n < 256) ns \<Longrightarrow>
   filter (\<lambda>c. c \<noteq> CHR 0x0A \<and> c \<noteq> CHR 0x0D) (b64_encode_nats ns) = b64_encode_nats ns"
proof (induction ns rule: b64_encode_nats.induct)
  case (2 a)
  then show ?case using b64_groups [of a 0 0] by (simp add: b64_chr_facts)
next
  case (3 a b)
  then show ?case using b64_groups [of a b 0] by (simp add: b64_chr_facts)
next
  case (4 a b c rest)
  then show ?case using b64_groups [of a b c] by (simp add: b64_chr_facts)
qed simp

lemma b64_roundtrip: "b64_DecodeString (b64_EncodeToString bs) = Inr bs"
proof -
  have "list_all (\<lambda>n. n < 256) (map unat bs)" by (simp add: list_all_iff)
  then show ?thesis
    by (simp add: b64_DecodeString_def b64_EncodeToString_def b64_encode_no_newline b64_decode_encode comp_def)
qed

section \<open>SHA-256\<close>

text \<open>
  The constants of the standard are the first 32 bits of the fractional parts of the cube roots of
  the first 64 primes, and of the square roots of the first eight for the initial state. \<open>int_root\<close>
  finds the integer part of a root bit by bit.
\<close>

fun int_root :: "nat \<Rightarrow> nat \<Rightarrow> nat \<Rightarrow> nat \<Rightarrow> nat" where
  "int_root 0 e n acc = acc"
| "int_root (Suc b) e n acc = int_root b e n (if (acc + 2 ^ b) ^ e \<le> n then acc + 2 ^ b else acc)"

definition sha_primes :: "nat list" where
  "sha_primes = filter (\<lambda>p. list_all (\<lambda>d. p mod d \<noteq> 0) [2..<p]) [2..<312]"

definition sha_K :: "32 word list" where
  "sha_K = map (\<lambda>p. of_nat (int_root 36 3 (p * 2 ^ 96) 0)) sha_primes"

definition sha_H0 :: "32 word list" where
  "sha_H0 = map (\<lambda>p. of_nat (int_root 36 2 (p * 2 ^ 64) 0)) (take 8 sha_primes)"

definition word32_of :: "bytes \<Rightarrow> 32 word" where
  "word32_of bs = foldl (\<lambda>w b. push_bit 8 w OR ucast b) 0 bs"

definition bytes_of_word32 :: "32 word \<Rightarrow> bytes" where
  "bytes_of_word32 w = map (\<lambda>k. ucast (drop_bit k w)) [24, 16, 8, 0]"

fun chunks :: "nat \<Rightarrow> nat \<Rightarrow> 'a list \<Rightarrow> 'a list list" where
  "chunks 0 n xs = []"
| "chunks (Suc k) n xs = (if xs = [] then [] else take n xs # chunks k n (drop n xs))"

definition be64 :: "nat \<Rightarrow> bytes" where
  "be64 n = map (\<lambda>k. of_nat (n div 2 ^ (8 * k))) [7, 6, 5, 4, 3, 2, 1, 0]"

definition sha_pad :: "bytes \<Rightarrow> bytes" where
  "sha_pad msg = msg @ [0x80] @ replicate ((119 - length msg mod 64) mod 64) 0 @ be64 (8 * length msg)"

text \<open>The message schedule, extended one word at a time, latest word first.\<close>

fun sha_extend :: "nat \<Rightarrow> 32 word list \<Rightarrow> 32 word list" where
  "sha_extend 0 ws = ws"
| "sha_extend (Suc k) ws =
     (let w15 = ws ! 14; w2 = ws ! 1;
          s0 = word_rotr 7 w15 XOR word_rotr 18 w15 XOR drop_bit 3 w15;
          s1 = word_rotr 17 w2 XOR word_rotr 19 w2 XOR drop_bit 10 w2
      in sha_extend k ((ws ! 15 + s0 + ws ! 6 + s1) # ws))"

definition sha_round :: "32 word \<times> 32 word \<Rightarrow> 32 word list \<Rightarrow> 32 word list" where
  "sha_round kw st =
     (case (kw, st) of
        ((k, w), [a, b, c, d, e, f, g, h]) \<Rightarrow>
          (let S1 = word_rotr 6 e XOR word_rotr 11 e XOR word_rotr 25 e;
               ch = (e AND f) XOR (NOT e AND g);
               t1 = h + S1 + ch + k + w;
               S0 = word_rotr 2 a XOR word_rotr 13 a XOR word_rotr 22 a;
               maj = (a AND b) XOR (a AND c) XOR (b AND c)
           in [t1 + S0 + maj, a, b, c, d + t1, e, f, g])
      | _ \<Rightarrow> st)"

definition sha_block :: "bytes \<Rightarrow> 32 word list \<Rightarrow> 32 word list" where
  "sha_block blk st =
     (let ws = rev (sha_extend 48 (rev (map word32_of (chunks 16 4 blk))))
      in map2 (+) st (fold sha_round (zip sha_K ws) st))"

definition sha256_Sum256 :: "bytes \<Rightarrow> bytes" where
  "sha256_Sum256 msg =
     (let p = sha_pad msg
      in concat (map bytes_of_word32 (fold sha_block (chunks (length p) 64 p) sha_H0)))"

text \<open>\<open>hmac.New(sha256.New, key)\<close> applied to a message.\<close>

definition hmac_sha256 :: "bytes \<Rightarrow> bytes \<Rightarrow> bytes" where
  "hmac_sha256 key msg =
     (let k = (if 64 < length key then sha256_Sum256 key else key);
          k0 = k @ replicate (64 - length k) 0;
          ipad = map (\<lambda>b. b XOR 0x36) k0; opad = map (\<lambda>b. b XOR 0x5c) k0
      in sha256_Sum256 (opad @ sha256_Sum256 (ipad @ msg)))"

section \<open>AES-256\<close>

definition xtime :: "byte \<Rightarrow> byte" where
  "xtime b = push_bit 1 b XOR (if bit b 7 then 0x1b else 0)"

fun gf_mul_bits :: "nat \<Rightarrow> byte \<Rightarrow> byte \<Rightarrow> byte" where
  "gf_mul_bits 0 a b = 0"
| "gf_mul_bits (Suc k) a b = (if bit b 0 then a else 0) XOR gf_mul_bits k (xtime a) (drop_bit 1 b)"

definition gf_mul :: "byte \<Rightarrow> byte \<Rightarrow> byte" where
  "gf_mul = gf_mul_bits 8"

fun gf_pow :: "byte \<Rightarrow> nat \<Rightarrow> byte" where
  "gf_pow a 0 = 1"
| "gf_pow a (Suc n) = gf_mul a (gf_pow a n)"

text \<open>The substitution box: the inverse in the field (the 254th power) and the affine map.\<close>

definition sbox :: "byte \<Rightarrow> byte" where
  "sbox b =
     (let x = gf_pow b 254
      in x XOR word_rotl 1 x XOR word_rotl 2 x XOR word_rotl 3 x XOR word_rotl 4 x XOR 0x63)"

text \<open>The key schedule for a key of 8 words: 60 words, latest first.\<close>

fun aes_expand :: "nat \<Rightarrow> nat \<Rightarrow> byte \<Rightarrow> bytes list \<Rightarrow> bytes list" where
  "aes_expand 0 i rc ws = ws"
| "aes_expand (Suc k) i rc ws =
     (let prev = hd ws;
          t = (if i mod 8 = 0 then map2 (XOR) (map sbox (rotate1 prev)) [rc, 0, 0, 0]
               else if i mod 8 = 4 then map sbox prev else prev);
          rc' = (if i mod 8 = 0 then xtime rc else rc)
      in aes_expand k (Suc i) rc' (map2 (XOR) (ws ! 7) t # ws))"

definition aes_round_keys :: "bytes \<Rightarrow> bytes list" where
  "aes_round_keys key =
     (let ws = rev (aes_expand 52 8 1 (rev (chunks 8 4 key))) in map concat (chunks 15 4 ws))"

definition shift_rows :: "bytes \<Rightarrow> bytes" where
  "shift_rows s = map (\<lambda>k. s ! ((k + 4 * (k mod 4)) mod 16)) [0..<16]"

definition mix_column :: "bytes \<Rightarrow> bytes" where
  "mix_column c =
     map (\<lambda>k. xtime (c ! k) XOR (xtime (c ! ((k + 1) mod 4)) XOR c ! ((k + 1) mod 4)) XOR
           c ! ((k + 2) mod 4) XOR c ! ((k + 3) mod 4)) [0..<4]"

definition mix_columns :: "bytes \<Rightarrow> bytes" where
  "mix_columns s = concat (map mix_column (chunks 4 4 s))"

definition aes_encrypt :: "bytes \<Rightarrow> bytes \<Rightarrow> bytes" where
  "aes_encrypt key blk =
     (let rks = aes_round_keys key;
          s0 = map2 (XOR) blk (hd rks);
          s13 = fold (\<lambda>rk s. map2 (XOR) (mix_columns (shift_rows (map sbox s))) rk) (butlast (tl rks)) s0
      in map2 (XOR) (shift_rows (map sbox s13)) (last rks))"

section \<open>Galois/counter mode\<close>

definition word128_of :: "bytes \<Rightarrow> 128 word" where
  "word128_of bs = foldl (\<lambda>w b. push_bit 8 w OR ucast b) 0 (bs @ replicate (16 - length bs) 0)"

definition bytes_of_word128 :: "128 word \<Rightarrow> bytes" where
  "bytes_of_word128 w = map (\<lambda>k. ucast (drop_bit (120 - 8 * k) w)) [0..<16]"

text \<open>Multiplication in the field of \<open>2 ^ 128\<close> elements, bit 127 first.\<close>

fun ghash_mul_bits :: "nat \<Rightarrow> 128 word \<Rightarrow> 128 word \<Rightarrow> 128 word \<Rightarrow> 128 word" where
  "ghash_mul_bits 0 x v z = z"
| "ghash_mul_bits (Suc k) x v z =
     ghash_mul_bits k x (drop_bit 1 v XOR (if bit v 0 then push_bit 120 0xe1 else 0)) (if bit x k then z XOR v else z)"

definition ghash_mul :: "128 word \<Rightarrow> 128 word \<Rightarrow> 128 word" where
  "ghash_mul x y = ghash_mul_bits 128 x y 0"

definition ghash :: "128 word \<Rightarrow> bytes \<Rightarrow> 128 word" where
  "ghash h data = fold (\<lambda>blk y. ghash_mul (y XOR word128_of blk) h) (chunks (length data) 16 data) 0"

definition be32 :: "nat \<Rightarrow> bytes" where
  "be32 n = map (\<lambda>k. of_nat (n div 2 ^ (8 * k))) [3, 2, 1, 0]"

text \<open>Counter mode over a block function, from the second counter value of a 12-byte nonce.\<close>

definition gcm_keystream :: "(bytes \<Rightarrow> bytes) \<Rightarrow> bytes \<Rightarrow> nat \<Rightarrow> bytes" where
  "gcm_keystream E nonce n = take n (concat (map (\<lambda>k. E (nonce @ be32 (k + 2))) [0..<(n + 15) div 16]))"

definition gcm_ctr :: "(bytes \<Rightarrow> bytes) \<Rightarrow> bytes \<Rightarrow> bytes \<Rightarrow> bytes" where
  "gcm_ctr E nonce data =
     (let ks = gcm_keystream E nonce (length data)
      in map (\<lambda>k. data ! k XOR (if k < length ks then ks ! k else 0)) [0..<length data])"

definition zero_pad16 :: "bytes \<Rightarrow> bytes" where
  "zero_pad16 bs = bs @ replicate ((16 - length bs mod 16) mod 16) 0"

text \<open>The tag of a ciphertext without additional data.\<close>

definition gcm_tag :: "(bytes \<Rightarrow> bytes) \<Rightarrow> bytes \<Rightarrow> bytes \<Rightarrow> bytes" where
  "gcm_tag E nonce ct =
     (let h = word128_of (E (replicate 16 0));
          s = ghash h (zero_pad16 ct @ be64 0 @ be64 (8 * length ct))
      in bytes_of_word128 (s XOR word128_of (E (nonce @ be32 1))))"

definition gcm_NonceSize :: nat where
  "gcm_NonceSize = 12"

text \<open>\<open>Seal\<close> without destination prefix and \<open>Open\<close>.\<close>

definition gcm_Seal :: "(bytes \<Rightarrow> bytes) \<Rightarrow> bytes \<Rightarrow> bytes \<Rightarrow> bytes" where
  "gcm_Seal E nonce plaintext = (let ct = gcm_ctr E nonce plaintext in ct @ gcm_tag E nonce ct)"

definition errOpen :: error where
  "errOpen = Sentinel ''cipher: message authentication failed''"

definition gcm_Open :: "(bytes \<Rightarrow> bytes) \<Rightarrow> bytes \<Rightarrow> bytes \<Rightarrow> error + bytes" where
  "gcm_Open E nonce sealed =
     (if length sealed < 16 then Inl errOpen
      else
        (let ct = take (length sealed - 16) sealed; tag = drop (length sealed - 16) sealed in
         if tag = gcm_tag E nonce ct then Inr (gcm_ctr E nonce ct) else Inl errOpen))"

lemma length_gcm_ctr [simp]: "length (gcm_ctr E nonce data) = length data"
  by (simp add: gcm_ctr_def Let_def)

lemma length_gcm_tag [simp]: "length (gcm_tag E nonce ct) = 16"
  by (simp add: gcm_tag_def bytes_of_word128_def Let_def)

lemma gcm_ctr_involution: "gcm_ctr E nonce (gcm_ctr E nonce data) = data"
  by (rule nth_equalityI) (simp_all add: gcm_ctr_def Let_def xor.assoc)

lemma gcm_open_seal: "gcm_Open E nonce (gcm_Seal E nonce plaintext) = Inr plaintext"
  by (simp add: gcm_Open_def gcm_Seal_def Let_def gcm_ctr_involution)

lemma length_gcm_Seal: "length (gcm_Seal E nonce plaintext) = length plaintext + 16"
  by (simp add: gcm_Seal_def Let_def)

text \<open>A message that opens is the ciphertext of what it opens to: nothing but sealed messages opens.\<close>

lemma gcm_seal_open: "gcm_Open E nonce sealed = Inr plaintext \<Longrightarrow> sealed = gcm_Seal E nonce plaintext"
  by (auto simp: gcm_Open_def gcm_Seal_def Let_def gcm_ctr_involution split: if_splits)
    (metis append_take_drop_id)

end
