(* ===== verification/Auth.thy ===== *)
theory Auth
  imports Repository Go_Crypto
begin

text \<open>
  API keys, \<open>internal/auth\<close>: the stored record (hash only), both repositories, and the service
  that issues, validates and revokes keys. Keys are 32 random bytes in hexadecimal; the stored
  hash is SHA-256 of the text of the key.
\<close>

section \<open>Model\<close>

record APIKey =
  key_ID :: int
  key_Name :: string
  key_KeyPrefix :: string
  key_KeyHash :: string
  key_CreatedAt :: int

definition ErrNotFound :: error where
  "ErrNotFound = Sentinel ''api key not found''"

record 'r AuthRepository =
  kr_Create :: "string \<Rightarrow> string \<Rightarrow> string \<Rightarrow> 'r \<Rightarrow> (error + APIKey) \<times> 'r"
  kr_GetByHash :: "string \<Rightarrow> 'r \<Rightarrow> (error + APIKey) \<times> 'r"
  kr_List :: "'r \<Rightarrow> (error + APIKey list) \<times> 'r"
  kr_Delete :: "int \<Rightarrow> 'r \<Rightarrow> error option \<times> 'r"

section \<open>The in-memory repository\<close>

record AuthMemory =
  km_keys :: "(int, APIKey) gomap"
  km_seq :: int

definition km_New :: AuthMemory where
  "km_New = \<lparr>km_keys = [], km_seq = 0\<rparr>"

definition km_Create :: "string \<Rightarrow> string \<Rightarrow> string \<Rightarrow> AuthMemory \<Rightarrow> (error + APIKey) \<times> AuthMemory" where
  "km_Create name keyPrefix keyHash r =
     (let i = wrap64 (km_seq r + 1);
          k = \<lparr>key_ID = i, key_Name = name, key_KeyPrefix = keyPrefix, key_KeyHash = keyHash, key_CreatedAt = 0\<rparr>
      in (Inr k, r\<lparr>km_seq := i, km_keys := go_put i k (km_keys r)\<rparr>))"

text \<open>The first match in the iteration order \<open>ks\<close> of the map.\<close>

definition km_GetByHash :: "nat list \<Rightarrow> string \<Rightarrow> AuthMemory \<Rightarrow> (error + APIKey) \<times> AuthMemory" where
  "km_GetByHash ks keyHash r =
     (case find (\<lambda>k. key_KeyHash k = keyHash) (arrange ks (map snd (km_keys r))) of
        Some k \<Rightarrow> Inr k
      | None \<Rightarrow> Inl ErrNotFound, r)"

definition km_List :: "nat list \<Rightarrow> AuthMemory \<Rightarrow> (error + APIKey list) \<times> AuthMemory" where
  "km_List ks r = (Inr (arrange ks (map snd (km_keys r))), r)"

definition km_Delete :: "int \<Rightarrow> AuthMemory \<Rightarrow> error option \<times> AuthMemory" where
  "km_Delete i r =
     (case go_get (km_keys r) i of
        None \<Rightarrow> (Some ErrNotFound, r)
      | Some _ \<Rightarrow> (None, r\<lparr>km_keys := go_del i (km_keys r)\<rparr>))"

definition auth_memory :: "nat list \<Rightarrow> AuthMemory AuthRepository" where
  "auth_memory ks =
     \<lparr>kr_Create = km_Create, kr_GetByHash = km_GetByHash ks, kr_List = km_List ks, kr_Delete = km_Delete\<rparr>"

section \<open>The PostgreSQL repository\<close>

definition kp_row :: "int \<Rightarrow> string \<Rightarrow> string \<Rightarrow> string \<Rightarrow> int \<Rightarrow> APIKey" where
  "kp_row now name keyPrefix keyHash i =
     \<lparr>key_ID = i, key_Name = name, key_KeyPrefix = keyPrefix, key_KeyHash = keyHash, key_CreatedAt = now\<rparr>"

definition key_unique :: "APIKey \<Rightarrow> APIKey \<Rightarrow> bool" where
  "key_unique x y \<longleftrightarrow> key_KeyHash x = key_KeyHash y"

definition kp_Create :: "(APIKey \<Rightarrow> error option) \<Rightarrow> int \<Rightarrow> string \<Rightarrow> string \<Rightarrow> string \<Rightarrow> APIKey table \<Rightarrow>
    (error + APIKey) \<times> APIKey table" where
  "kp_Create check now name keyPrefix keyHash t =
     tb_insert check key_unique (kp_row now name keyPrefix keyHash) t"

definition kp_GetByHash :: "string \<Rightarrow> APIKey table \<Rightarrow> (error + APIKey) \<times> APIKey table" where
  "kp_GetByHash keyHash t =
     (case tb_get (\<lambda>k. key_KeyHash k = keyHash) t of
        (Inl e, t') \<Rightarrow> (Inl (if errors_Is e ErrNoRows then ErrNotFound else e), t')
      | (Inr k, t') \<Rightarrow> (Inr k, t'))"

definition kp_List :: "APIKey table \<Rightarrow> (error + APIKey list) \<times> APIKey table" where
  "kp_List t = tb_select (\<lambda>_. True) t"

definition kp_Delete :: "int \<Rightarrow> APIKey table \<Rightarrow> error option \<times> APIKey table" where
  "kp_Delete i t = tb_delete_found ErrNotFound i t"

definition auth_postgres :: "(APIKey \<Rightarrow> error option) \<Rightarrow> int \<Rightarrow> APIKey table AuthRepository" where
  "auth_postgres check now =
     \<lparr>kr_Create = kp_Create check now, kr_GetByHash = kp_GetByHash, kr_List = kp_List, kr_Delete = kp_Delete\<rparr>"

section \<open>The service\<close>

text \<open>\<open>rnd\<close> is what reading 32 bytes from the random source gives.\<close>

definition generateKey :: "error + bytes \<Rightarrow> error + string" where
  "generateKey rnd = (case rnd of Inl err \<Rightarrow> Inl err | Inr b \<Rightarrow> Inr (hex_EncodeToString b))"

definition hashKey :: "string \<Rightarrow> string" where
  "hashKey key = hex_EncodeToString (sha256_Sum256 (bytes_of key))"

text \<open>Slicing the first eight bytes of a shorter key would panic.\<close>

definition ks_Create ::
  "'r AuthRepository \<Rightarrow> error + bytes \<Rightarrow> string \<Rightarrow> 'r \<Rightarrow> (error + APIKey \<times> string) \<times> 'r" where
  "ks_Create R rnd name r =
     (case generateKey rnd of
        Inl err \<Rightarrow> (Inl err, r)
      | Inr raw \<Rightarrow>
          (if length raw < 8 then (Inl (Panic ''slice bounds out of range''), r)
           else
             (case kr_Create R name (take 8 raw) (hashKey raw) r of
                (Inl err, r') \<Rightarrow> (Inl err, r')
              | (Inr k, r') \<Rightarrow> (Inr (k, raw), r'))))"

definition ks_Validate :: "'r AuthRepository \<Rightarrow> string \<Rightarrow> string \<Rightarrow> 'r \<Rightarrow> bool \<times> 'r" where
  "ks_Validate R masterKey key r =
     (if masterKey \<noteq> [] \<and> key = masterKey then (True, r)
      else
        (case kr_GetByHash R (hashKey key) r of
           (Inl err, r') \<Rightarrow> (False, r')
         | (Inr k, r') \<Rightarrow> (True, r')))"

definition ks_List :: "'r AuthRepository \<Rightarrow> 'r \<Rightarrow> (error + APIKey list) \<times> 'r" where
  "ks_List R = kr_List R"

definition ks_Delete :: "'r AuthRepository \<Rightarrow> int \<Rightarrow> 'r \<Rightarrow> error option \<times> 'r" where
  "ks_Delete R i = kr_Delete R i"

section \<open>The contract of a key store\<close>

text \<open>
  \<open>view\<close> is the stored keys; the laws say what the service needs: a created key is stored under a
  new identifier with the given hash, a look-up returns a stored key with that hash and finds one
  if there is one and nothing fails, and a deletion removes exactly the key.
\<close>

locale key_store =
  fixes ok :: "'r \<Rightarrow> bool" and quiet :: "'r \<Rightarrow> bool" and room :: "'r \<Rightarrow> bool" and view :: "'r \<Rightarrow> int \<Rightarrow> APIKey option"
    and R :: "'r AuthRepository"
  assumes create_key: "ok r \<Longrightarrow> room r \<Longrightarrow> kr_Create R name pre h r = (Inr k, r') \<Longrightarrow>
      ok r' \<and> (quiet r \<longrightarrow> quiet r') \<and> view r (key_ID k) = None \<and> view r' = (view r)(key_ID k \<mapsto> k) \<and>
      key_Name k = name \<and> key_KeyPrefix k = pre \<and> key_KeyHash k = h"
    and create_fails: "ok r \<Longrightarrow> kr_Create R name pre h r = (Inl e, r') \<Longrightarrow> ok r' \<and> view r' = view r"
    and hash_sound: "ok r \<Longrightarrow> kr_GetByHash R h r = (Inr k, r') \<Longrightarrow> (\<exists>i. view r i = Some k) \<and> key_KeyHash k = h"
    and hash_complete: "ok r \<Longrightarrow> quiet r \<Longrightarrow> view r i = Some k \<Longrightarrow> \<exists>k'. fst (kr_GetByHash R (key_KeyHash k) r) = Inr k'"
    and hash_frame: "ok r \<Longrightarrow> ok (snd (kr_GetByHash R h r)) \<and> view (snd (kr_GetByHash R h r)) = view r"
    and delete_key: "ok r \<Longrightarrow> kr_Delete R i r = (None, r') \<Longrightarrow>
      ok r' \<and> (quiet r \<longrightarrow> quiet r') \<and> view r i \<noteq> None \<and> view r' = (view r)(i := None)"
    and delete_fails: "ok r \<Longrightarrow> kr_Delete R i r = (Some e, r') \<Longrightarrow> ok r' \<and> view r' = view r"
begin

text \<open>Validation never accepts more than the master key and the stored hashes, whatever fails.\<close>

lemma validate_sound:
  assumes "ok r" "fst (ks_Validate R master key r)"
  shows "master \<noteq> [] \<and> key = master \<or> (\<exists>i k. view r i = Some k \<and> key_KeyHash k = hashKey key)"
proof (cases "master \<noteq> [] \<and> key = master")
  case False
  then obtain k r' where "kr_GetByHash R (hashKey key) r = (Inr k, r')"
    using assms(2) by (auto simp: ks_Validate_def split: prod.splits sum.splits)
  with hash_sound [OF assms(1)] show ?thesis by blast
qed simp

lemma validate_complete:
  assumes "ok r" "quiet r" "view r i = Some k" "key_KeyHash k = hashKey key"
  shows "fst (ks_Validate R master key r)"
  using hash_complete [OF assms(1-3)] assms(4) by (auto simp: ks_Validate_def split: prod.splits sum.splits)

lemma created_validates:
  assumes "ok r" "quiet r" "room r" "ks_Create R rnd name r = (Inr (k, raw), r')"
  shows "fst (ks_Validate R master raw r')"
proof -
  have c: "kr_Create R name (take 8 raw) (hashKey raw) r = (Inr k, r')"
    using assms(4) by (auto simp: ks_Create_def split: prod.splits sum.splits if_splits)
  have r': "ok r'" "quiet r'" "view r' (key_ID k) = Some k" "key_KeyHash k = hashKey raw"
    using create_key [OF assms(1,3) c] assms(2) by auto
  show ?thesis using validate_complete [OF r'] .
qed

text \<open>A deleted key is refused unless it is the master key or another stored key has its hash.\<close>

lemma deleted_refused:
  assumes "ok r" "kr_Delete R i r = (None, r')" "\<not> (master \<noteq> [] \<and> key = master)"
    and "\<And>j k'. view r j = Some k' \<Longrightarrow> key_KeyHash k' = hashKey key \<Longrightarrow> j = i"
  shows "\<not> fst (ks_Validate R master key r')"
proof
  assume "fst (ks_Validate R master key r')"
  moreover have r': "ok r'" "view r' = (view r)(i := None)" using delete_key [OF assms(1,2)] by simp_all
  ultimately obtain j k' where "view r' j = Some k'" "key_KeyHash k' = hashKey key"
    using validate_sound [of r' master key] assms(3) by blast
  with r'(2) assms(4) show False by (auto split: if_splits)
qed

end

section \<open>Both repositories meet the contract\<close>

definition km_ok :: "AuthMemory \<Rightarrow> bool" where
  "km_ok r \<longleftrightarrow> gomap_ok (km_keys r) \<and> 0 \<le> km_seq r \<and> km_seq r < 2 ^ 63 \<and>
     (\<forall>i k. go_get (km_keys r) i = Some k \<longrightarrow> key_ID k = i \<and> i \<le> km_seq r)"

definition km_room :: "AuthMemory \<Rightarrow> bool" where
  "km_room r \<longleftrightarrow> km_seq r < 2 ^ 63 - 1"

abbreviation km_view :: "AuthMemory \<Rightarrow> int \<Rightarrow> APIKey option" where
  "km_view r \<equiv> go_get (km_keys r)"

lemma find_elem:
  "find P xs = Some x \<Longrightarrow> x \<in> set xs \<and> P x"
  by (induction xs) (auto split: if_splits)

lemma find_arrange:
  "gomap_ok m \<Longrightarrow> find P (arrange ks (map snd m)) = Some k \<Longrightarrow> (\<exists>i. go_get m i = Some k) \<and> P k"
  using find_elem [of P "arrange ks (map snd m)" k] by (force simp: go_get_Some_iff)

lemma find_arrange_None:
  "gomap_ok m \<Longrightarrow> go_get m i = Some k \<Longrightarrow> P k \<Longrightarrow> find P (arrange ks (map snd m)) \<noteq> None"
proof
  assume m: "go_get m i = Some k" and k: "P k" and "find P (arrange ks (map snd m)) = None"
  then have "\<not> (\<exists>x. x \<in> set (arrange ks (map snd m)) \<and> P x)" by (simp add: find_None_iff)
  moreover have "k \<in> snd ` set m" using go_get_in_set [OF m] by force
  ultimately show False using k by auto
qed

interpretation auth_mem: key_store km_ok "\<lambda>_. True" km_room "\<lambda>r. km_view r" "auth_memory ks"
proof (unfold_locales, goal_cases)
  case (1 r name pre h k r')
  have seq: "wrap64 (km_seq r + 1) = km_seq r + 1"
    using 1(1,2) by (intro wrap64_id) (simp_all add: km_ok_def km_room_def)
  have none: "km_view r (km_seq r + 1) = None"
  proof (rule ccontr)
    assume "km_view r (km_seq r + 1) \<noteq> None"
    then obtain x where "km_view r (km_seq r + 1) = Some x" by blast
    moreover have "\<And>i k. km_view r i = Some k \<Longrightarrow> i \<le> km_seq r" using 1(1) unfolding km_ok_def by blast
    ultimately show False by fastforce
  qed
  have k: "k = \<lparr>key_ID = km_seq r + 1, key_Name = name, key_KeyPrefix = pre, key_KeyHash = h, key_CreatedAt = 0\<rparr>"
    "r' = r\<lparr>km_seq := km_seq r + 1, km_keys := go_put (km_seq r + 1) k (km_keys r)\<rparr>"
    using 1(3) seq by (auto simp: auth_memory_def km_Create_def Let_def)
  have "km_ok r'" using 1(1,2) k by (fastforce simp: km_ok_def km_room_def)
  then show ?case using k none by (simp add: fun_upd_def)
next
  case (3 r h k r')
  then show ?case using find_arrange [of "km_keys r" "\<lambda>k. key_KeyHash k = h" ks k]
    by (auto simp: auth_memory_def km_GetByHash_def km_ok_def split: option.splits)
next
  case (4 r i k)
  then show ?case using find_arrange_None [of "km_keys r" i k "\<lambda>k'. key_KeyHash k' = key_KeyHash k" ks]
    by (auto simp: auth_memory_def km_GetByHash_def km_ok_def)
next
  case (6 r i r')
  then obtain k where k: "km_view r i = Some k" and r': "r' = r\<lparr>km_keys := go_del i (km_keys r)\<rparr>"
    by (auto simp: auth_memory_def km_Delete_def split: option.splits)
  have "km_ok r'" using 6(1) r' by (auto simp: km_ok_def split: if_splits)
  then show ?case using k r' by (auto simp: fun_upd_def)
qed (auto simp: auth_memory_def km_Create_def km_GetByHash_def km_Delete_def Let_def split: option.splits)

abbreviation kp_ok :: "APIKey table \<Rightarrow> bool" where
  "kp_ok \<equiv> tb_uniq key_ID key_unique"

abbreviation kp_view :: "APIKey table \<Rightarrow> int \<Rightarrow> APIKey option" where
  "kp_view t \<equiv> go_get (tb_rows t)"

lemma kp_row_id [simp]: "key_ID (kp_row now name pre h i) = i"
  by (simp add: kp_row_def)

lemma key_unique_sym: "key_unique x y = key_unique y x"
  by (auto simp: key_unique_def)

interpretation auth_pg: key_store kp_ok "\<lambda>t. tb_faults t = []" "\<lambda>_. True" "\<lambda>t. kp_view t" "auth_postgres check now"
proof (unfold_locales, goal_cases)
  case (1 r name pre h k r')
  then have ins: "tb_insert check key_unique (kp_row now name pre h) r = (Inr k, r')"
    by (simp add: auth_postgres_def kp_Create_def)
  note R = tb_uniq_insert [OF 1(1) ins kp_row_id key_unique_sym]
  then obtain i where "k = kp_row now name pre h i" by blast
  then have "key_Name k = name" "key_KeyPrefix k = pre" "key_KeyHash k = h" by (simp_all add: kp_row_def)
  with R show ?case by blast
next
  case (2 r name pre h e r')
  then have "tb_insert check key_unique (kp_row now name pre h) r = (Inl e, r')"
    by (simp add: auth_postgres_def kp_Create_def)
  from tb_uniq_insert_error [OF 2(1) this kp_row_id] show ?case by simp
next
  case (3 r h k r')
  then have g: "tb_get (\<lambda>k. key_KeyHash k = h) r = (Inr k, r')"
    by (auto simp: auth_postgres_def kp_GetByHash_def split: prod.splits sum.splits)
  have "gomap_ok (tb_rows r)" using tb_uniqD(1) [OF 3(1)] by (simp add: tb_ok_def)
  with tb_get_mem [OF g] show ?case by (auto simp: go_get_Some_iff)
next
  case (4 r i k)
  have "fst (tb_get (\<lambda>x. key_KeyHash x = key_KeyHash k) r) = Inr k"
    by (rule tb_get_by [OF 4(1,2,3)]) (use tb_uniqD(2) [OF 4(1) _ 4(3)] in \<open>auto simp: key_unique_def\<close>)
  then show ?case by (auto simp: auth_postgres_def kp_GetByHash_def split: prod.splits sum.splits)
next
  case (5 r h)
  have "snd (kr_GetByHash (auth_postgres check now) h r) = snd (tb_get (\<lambda>k. key_KeyHash k = h) r)"
    by (simp add: auth_postgres_def kp_GetByHash_def split: prod.splits sum.splits)
  moreover have "tb_rows (snd (tb_get P r)) = tb_rows r" for P using tb_get_frame [of P r] by (metis prod.collapse)
  ultimately show ?case using tb_uniq_get [OF 5] by simp
next
  case (6 r i r')
  then show ?case using tb_delete_found_rows [OF 6(1), of ErrNotFound i None r']
    by (auto simp: auth_postgres_def kp_Delete_def fun_upd_def)
next
  case (7 r i e r')
  then show ?case using tb_delete_found_rows [OF 7(1), of ErrNotFound i "Some e" r']
    by (simp add: auth_postgres_def kp_Delete_def)
qed

section \<open>Histories of the key service\<close>

text \<open>
  Any sequence of requests to the service over the database, with any statement failing;
  \<open>issued\<close> records the keys handed out and not revoked since, by identifier.
\<close>

inductive key_history :: "(APIKey \<Rightarrow> error option) \<Rightarrow> APIKey table \<Rightarrow> (int \<Rightarrow> string option) \<Rightarrow> bool"
  for check where
  start: "key_history check (tb_empty\<lparr>tb_faults := fs\<rparr>) Map.empty"
| issue: "key_history check t issued \<Longrightarrow>
    ks_Create (auth_postgres check now) rnd name t = (Inr (k, raw), t') \<Longrightarrow>
    key_history check t' (issued(key_ID k \<mapsto> raw))"
| issue_fails: "key_history check t issued \<Longrightarrow>
    ks_Create (auth_postgres check now) rnd name t = (Inl e, t') \<Longrightarrow> key_history check t' issued"
| revoke: "key_history check t issued \<Longrightarrow> ks_Delete (auth_postgres check now) i t = (None, t') \<Longrightarrow>
    key_history check t' (issued(i := None))"
| revoke_fails: "key_history check t issued \<Longrightarrow> ks_Delete (auth_postgres check now) i t = (Some e, t') \<Longrightarrow>
    key_history check t' issued"
| validate: "key_history check t issued \<Longrightarrow> ks_Validate (auth_postgres check now) master key t = (b, t') \<Longrightarrow>
    key_history check t' issued"
| list: "key_history check t issued \<Longrightarrow> ks_List (auth_postgres check now) t = (r, t') \<Longrightarrow>
    key_history check t' issued"

lemma ks_Create_success:
  assumes "ks_Create R rnd name r = (Inr (k, raw), r')"
  obtains b where "rnd = Inr b" "raw = hex_EncodeToString b" "8 \<le> length raw"
    "kr_Create R name (take 8 raw) (hashKey raw) r = (Inr k, r')"
  using assms by (auto simp: ks_Create_def generateKey_def split: prod.splits sum.splits if_splits)

lemma ks_Create_error:
  assumes "ks_Create R rnd name r = (Inl e, r')"
  shows "r' = r \<or> (\<exists>raw. kr_Create R name (take 8 raw) (hashKey raw) r = (Inl e, r'))"
  using assms by (auto simp: ks_Create_def split: prod.splits sum.splits if_splits)

lemma ks_Validate_state:
  assumes "ks_Validate R master key r = (b, r')"
  shows "r' = r \<or> r' = snd (kr_GetByHash R (hashKey key) r)"
  using assms by (auto simp: ks_Validate_def split: prod.splits sum.splits if_splits)

lemma kp_List_frame:
  assumes "kp_ok t"
  shows "kp_ok (snd (kp_List t)) \<and> kp_view (snd (kp_List t)) = kp_view t"
  using tb_uniq_select [OF assms] tb_select_frame [of "\<lambda>_. True" t] unfolding kp_List_def
  by (metis prod.collapse)

definition stored_as :: "(int \<Rightarrow> APIKey option) \<Rightarrow> (int \<Rightarrow> string option) \<Rightarrow> bool" where
  "stored_as v issued \<longleftrightarrow> (\<forall>i. map_option key_KeyHash (v i) = map_option hashKey (issued i))"

lemma key_history_stored: "key_history check t issued \<Longrightarrow> kp_ok t \<and> stored_as (kp_view t) issued"
proof (induction rule: key_history.induct)
  case (start fs)
  show ?case using tb_uniq_empty by (auto simp: stored_as_def tb_empty_def)
next
  case (issue t issued now rnd name k raw t')
  then obtain "kr_Create (auth_postgres check now) name (take 8 raw) (hashKey raw) t = (Inr k, t')"
    by (auto elim: ks_Create_success)
  from auth_pg.create_key [OF _ TrueI this] issue.IH show ?case by (auto simp: stored_as_def)
next
  case (issue_fails t issued now rnd name e t')
  from ks_Create_error [OF issue_fails.hyps(2)] auth_pg.create_fails [of t check now name] issue_fails.IH
  show ?case by metis
next
  case (revoke t issued now i t')
  from auth_pg.delete_key [of t check now i t'] revoke.IH revoke.hyps(2) show ?case
    by (auto simp: ks_Delete_def stored_as_def)
next
  case (revoke_fails t issued now i e t')
  from auth_pg.delete_fails [of t check now i e t'] revoke_fails.IH revoke_fails.hyps(2) show ?case
    by (simp add: ks_Delete_def)
next
  case (validate t issued now master key b t')
  from ks_Validate_state [OF validate.hyps(2)] auth_pg.hash_frame [of t check now "hashKey key"] validate.IH
  show ?case by metis
next
  case (list t issued now r t')
  then have "t' = snd (kp_List t)" by (simp add: ks_List_def auth_postgres_def)
  with kp_List_frame [of t] list.IH show ?case by metis
qed

lemma stored_as_iff:
  assumes "stored_as v issued"
  shows "(\<exists>i k. v i = Some k \<and> key_KeyHash k = h) \<longleftrightarrow> (\<exists>i raw. issued i = Some raw \<and> hashKey raw = h)"
proof -
  have e: "map_option key_KeyHash (v i) = map_option hashKey (issued i)" for i
    using assms by (simp add: stored_as_def)
  have "(\<exists>k. v i = Some k \<and> key_KeyHash k = h) \<longleftrightarrow> (\<exists>raw. issued i = Some raw \<and> hashKey raw = h)" for i
    using e [of i] by (cases "v i"; cases "issued i") auto
  then show ?thesis by simp
qed

lemma validate_issued:
  assumes "key_history check t issued"
  shows "fst (ks_Validate (auth_postgres check now) master key t) \<Longrightarrow>
      master \<noteq> [] \<and> key = master \<or> (\<exists>i raw. issued i = Some raw \<and> hashKey raw = hashKey key)"
    and "tb_faults t = [] \<Longrightarrow> fst (ks_Validate (auth_postgres check now) master key t) \<longleftrightarrow>
      master \<noteq> [] \<and> key = master \<or> (\<exists>i raw. issued i = Some raw \<and> hashKey raw = hashKey key)"
proof -
  have ok: "kp_ok t" and st: "stored_as (kp_view t) issued" using key_history_stored [OF assms] by simp_all
  show sound: "master \<noteq> [] \<and> key = master \<or> (\<exists>i raw. issued i = Some raw \<and> hashKey raw = hashKey key)"
    if "fst (ks_Validate (auth_postgres check now) master key t)"
    using auth_pg.validate_sound [OF ok that] stored_as_iff [OF st] by blast
  show "fst (ks_Validate (auth_postgres check now) master key t) \<longleftrightarrow>
      master \<noteq> [] \<and> key = master \<or> (\<exists>i raw. issued i = Some raw \<and> hashKey raw = hashKey key)"
    if quiet: "tb_faults t = []"
  proof
    assume "master \<noteq> [] \<and> key = master \<or> (\<exists>i raw. issued i = Some raw \<and> hashKey raw = hashKey key)"
    then show "fst (ks_Validate (auth_postgres check now) master key t)"
    proof
      assume "\<exists>i raw. issued i = Some raw \<and> hashKey raw = hashKey key"
      then obtain i k where "kp_view t i = Some k" "key_KeyHash k = hashKey key"
        using stored_as_iff [OF st, of "hashKey key"] by blast
      from auth_pg.validate_complete [OF ok quiet this] show ?thesis .
    qed (simp add: ks_Validate_def)
  qed (rule sound)
qed

lemma key_life:
  assumes "key_history check t issued" and "length b = 32"
    and "ks_Create (auth_postgres check now) (Inr b) name t = (Inr (k, raw), t1)"
  shows "length raw = 64" and "hex_DecodeString raw = Inr b"
    and "key_KeyPrefix k = take 8 raw" and "key_Name k = name"
    and "tb_faults t = [] \<Longrightarrow> fst (ks_Validate (auth_postgres check now') master raw t1)"
    and "ks_Delete (auth_postgres check now') (key_ID k) t1 = (None, t2) \<Longrightarrow> raw \<noteq> master \<Longrightarrow>
      \<not> fst (ks_Validate (auth_postgres check now'') master raw t2)"
proof -
  have ok: "kp_ok t" using key_history_stored [OF assms(1)] by simp
  obtain raw: "raw = hex_EncodeToString b"
    and c: "kr_Create (auth_postgres check now) name (take 8 raw) (hashKey raw) t = (Inr k, t1)"
    using ks_Create_success [OF assms(3)] by blast
  note C = auth_pg.create_key [OF ok TrueI c]
  show "length raw = 64" using raw assms(2) by (simp add: length_hex)
  show "hex_DecodeString raw = Inr b" using raw by (simp add: hex_roundtrip)
  show "key_KeyPrefix k = take 8 raw" "key_Name k = name" using C by simp_all
  show "fst (ks_Validate (auth_postgres check now') master raw t1)" if "tb_faults t = []"
    using auth_pg.validate_complete [of t1 "key_ID k" k raw] C that by simp
  show "\<not> fst (ks_Validate (auth_postgres check now'') master raw t2)"
    if del: "ks_Delete (auth_postgres check now') (key_ID k) t1 = (None, t2)" and master: "raw \<noteq> master"
  proof -
    have "kp_ok t1" "kp_view t1 (key_ID k) = Some k" "key_KeyHash k = hashKey raw" using C by simp_all
    then have only: "j = key_ID k" if "kp_view t1 j = Some k'" "key_KeyHash k' = hashKey raw" for j k'
      using tb_uniqD(2) [of key_ID key_unique t1 j k' "key_ID k" k] that by (simp add: key_unique_def)
    have d: "kr_Delete (auth_postgres check now'') (key_ID k) t1 = (None, t2)"
      using del by (simp add: ks_Delete_def auth_postgres_def)
    show ?thesis by (rule auth_pg.deleted_refused [OF \<open>kp_ok t1\<close> d _ only]) (use master in auto)
  qed
qed

definition ex_keys :: "APIKey table" where
  "ex_keys = snd (ks_Create (auth_postgres (\<lambda>_. None) 7) (Inr (replicate 32 1)) ''ci'' tb_empty)"

definition ex_raw :: string where
  "ex_raw = hex_EncodeToString (replicate 32 1)"

definition ex_key :: APIKey where
  "ex_key = kp_row 7 ''ci'' (take 8 ex_raw) (hashKey ex_raw) 1"

lemma ex_Create:
  "ks_Create (auth_postgres (\<lambda>_. None) 7) (Inr (replicate 32 1)) ''ci'' tb_empty = (Inr (ex_key, ex_raw), ex_keys)"
  by (simp add: ex_keys_def ex_key_def ex_raw_def ks_Create_def generateKey_def auth_postgres_def kp_Create_def
      tb_insert_def tb_empty_def Let_def)

lemma ex_history_start: "key_history (\<lambda>_. None) tb_empty Map.empty"
  using key_history.start [of "\<lambda>_. None" "[]"] by (simp add: tb_empty_def)

text \<open>
  C7: Whatever keys were issued and revoked and whatever database statements failed,
  \<open>Validate\<close> accepts a key only if it is the configured master key or has the hash of a key that was issued
  and not revoked since; when no statement fails it accepts exactly those.
\<close>

theorem Validate_exact:
  assumes "key_history check t issued"
  shows "(fst (ks_Validate (auth_postgres check now) master key t) \<longrightarrow>
      master \<noteq> [] \<and> key = master \<or> (\<exists>i raw. issued i = Some raw \<and> hashKey raw = hashKey key)) \<and>
    (tb_faults t = [] \<longrightarrow> fst (ks_Validate (auth_postgres check now) master key t) =
      (master \<noteq> [] \<and> key = master \<or> (\<exists>i raw. issued i = Some raw \<and> hashKey raw = hashKey key)))"
  using validate_issued [OF assms, of now master key] by simp

theorem Validate_exact_witness:
  "fst (ks_Validate (auth_postgres (\<lambda>_. None) 8) [] ex_raw ex_keys) \<and>
   \<not> fst (ks_Validate (auth_postgres (\<lambda>_. None) 8) [] ''notakey'' tb_empty)"
proof -
  have "key_history (\<lambda>_. None) ex_keys [key_ID ex_key \<mapsto> ex_raw]"
    using key_history.issue [OF ex_history_start ex_Create] .
  moreover have "tb_faults ex_keys = []"
    by (simp add: ex_keys_def ks_Create_def generateKey_def auth_postgres_def kp_Create_def tb_insert_def tb_empty_def Let_def)
  ultimately have "fst (ks_Validate (auth_postgres (\<lambda>_. None) 8) [] ex_raw ex_keys)"
    using Validate_exact [of "\<lambda>_. None" ex_keys "[key_ID ex_key \<mapsto> ex_raw]" 8 "[]" ex_raw] by auto
  moreover have "\<not> fst (ks_Validate (auth_postgres (\<lambda>_. None) 8) [] ''notakey'' tb_empty)"
    using Validate_exact [OF ex_history_start, of 8 "[]" "''notakey''"] by auto
  ultimately show ?thesis by simp
qed

text \<open>
  C38: The life of a key. A created key is 64 hexadecimal digits of the 32 random bytes, its
  record shows the first eight and the name; it validates while no statement fails, and from its
  revocation on it is refused, unless it happens to be the master key.
\<close>

theorem key_lifecycle:
  assumes "key_history check t issued" and "length b = 32"
    and "ks_Create (auth_postgres check now) (Inr b) name t = (Inr (k, raw), t1)"
  shows "length raw = 64 \<and> hex_DecodeString raw = Inr b \<and> key_KeyPrefix k = take 8 raw \<and> key_Name k = name \<and>
    (tb_faults t = [] \<longrightarrow> fst (ks_Validate (auth_postgres check now1) master raw t1)) \<and>
    (\<forall>t2. ks_Delete (auth_postgres check now1) (key_ID k) t1 = (None, t2) \<and> raw \<noteq> master \<longrightarrow>
      \<not> fst (ks_Validate (auth_postgres check now2) master raw t2))"
  using key_life [OF assms] by blast

theorem key_lifecycle_witness:
  "fst (ks_Validate (auth_postgres (\<lambda>_. None) 8) [] ex_raw ex_keys) \<and> length ex_raw = 64 \<and>
   (\<exists>t2. ks_Delete (auth_postgres (\<lambda>_. None) 8) 1 ex_keys = (None, t2) \<and>
     \<not> fst (ks_Validate (auth_postgres (\<lambda>_. None) 9) [] ex_raw t2))"
proof -
  have del: "\<exists>t2. ks_Delete (auth_postgres (\<lambda>_. None) 8) (key_ID ex_key) ex_keys = (None, t2)"
    by (simp add: ex_key_def ex_keys_def ks_Delete_def kp_Delete_def tb_delete_found_def tb_stmt_def ks_Create_def generateKey_def
        auth_postgres_def kp_Create_def tb_insert_def tb_empty_def Let_def)
  have "length ex_raw = 64" "key_ID ex_key = 1" by (simp_all add: ex_raw_def ex_key_def)
  moreover have "tb_faults (tb_empty :: APIKey table) = []" by (simp add: tb_empty_def)
  ultimately show ?thesis
    using key_lifecycle [OF ex_history_start _ ex_Create, of 8 "[]" 9, unfolded length_replicate, OF refl] del
    by (metis length_0_conv zero_neq_numeral)
qed

end
