(* ===== verification/Session_Pool.thy ===== *)
theory Session_Pool
  imports Prelude
begin

text \<open>
  The session pool of a node: \<open>internal/session/session.go\<close> and \<open>internal/session/pool.go\<close>.
  Entries are allocated in a heap, because \<open>runLoop\<close> compares entry pointers: a session may be
  removed and added again under the same identifier while the event loop of the first one is
  still running. The hook of the pool is modelled by the sequence of calls it receives.
\<close>

section \<open>Sessions\<close>

datatype sess_type = TypeAccount | TypeBot

datatype status =
    StatusPending
  | StatusAuthorizing
  | StatusReady
  | StatusDisconnected
  | StatusError

text \<open>Both types are enumerated, so that sums over all labels of a metric make sense.\<close>

lemma UNIV_sess_type: "UNIV = {TypeAccount, TypeBot}"
  by (auto intro: sess_type.exhaust)

instantiation sess_type :: enum
begin

definition enum_sess_type :: "sess_type list" where
  "enum_sess_type = [TypeAccount, TypeBot]"

definition enum_all_sess_type :: "(sess_type \<Rightarrow> bool) \<Rightarrow> bool" where
  "enum_all_sess_type P \<longleftrightarrow> P TypeAccount \<and> P TypeBot"

definition enum_ex_sess_type :: "(sess_type \<Rightarrow> bool) \<Rightarrow> bool" where
  "enum_ex_sess_type P \<longleftrightarrow> P TypeAccount \<or> P TypeBot"

instance
  by standard (simp_all only: enum_sess_type_def enum_all_sess_type_def enum_ex_sess_type_def UNIV_sess_type, simp_all)

end

lemma UNIV_status: "UNIV = {StatusPending, StatusAuthorizing, StatusReady, StatusDisconnected, StatusError}"
  by (auto intro: status.exhaust)

instantiation status :: enum
begin

definition enum_status :: "status list" where
  "enum_status = [StatusPending, StatusAuthorizing, StatusReady, StatusDisconnected, StatusError]"

definition enum_all_status :: "(status \<Rightarrow> bool) \<Rightarrow> bool" where
  "enum_all_status P \<longleftrightarrow> list_all P [StatusPending, StatusAuthorizing, StatusReady, StatusDisconnected, StatusError]"

definition enum_ex_status :: "(status \<Rightarrow> bool) \<Rightarrow> bool" where
  "enum_ex_status P \<longleftrightarrow> list_ex P [StatusPending, StatusAuthorizing, StatusReady, StatusDisconnected, StatusError]"

instance
  by standard (simp_all only: enum_status_def enum_all_status_def enum_ex_status_def UNIV_status, simp_all)

end

record session =
  sess_ID :: string
  sess_Type :: sess_type
  sess_Status :: status
  sess_CreatedAt :: int
  sess_UpdatedAt :: int
  sess_cancelled :: bool

text \<open>\<open>now i\<close> is the \<open>i\<close>-th reading of the clock made by the operation.\<close>

definition newSession :: "(nat \<Rightarrow> int) \<Rightarrow> string \<Rightarrow> sess_type \<Rightarrow> session" where
  "newSession now sid t =
     \<lparr>sess_ID = sid, sess_Type = t, sess_Status = StatusPending,
      sess_CreatedAt = now 0, sess_UpdatedAt = now 1, sess_cancelled = False\<rparr>"

definition setStatus :: "int \<Rightarrow> status \<Rightarrow> session \<Rightarrow> session" where
  "setStatus t st s = s\<lparr>sess_Status := st, sess_UpdatedAt := t\<rparr>"

section \<open>The interfaces of the pool\<close>

text \<open>The calls a \<open>Hook\<close> receives.\<close>

datatype hook_call =
    OnAdded sess_type
  | OnRemoved sess_type status
  | OnStatusChanged sess_type status status
  | OnError sess_type

text \<open>
  \<open>TDClient\<close>: the method table of an interface value whose state is \<open>'c\<close>. A method that
  returns an error gives it as an option.
\<close>

record 'c TDClient =
  c_ID :: "'c \<Rightarrow> string"
  c_Close :: "'c \<Rightarrow> 'c"
  c_SendCode :: "string \<Rightarrow> 'c \<Rightarrow> error option \<times> 'c"
  c_SendPassword :: "string \<Rightarrow> 'c \<Rightarrow> error option \<times> 'c"
  c_AuthState :: "'c \<Rightarrow> string"

type_synonym 'c ClientFactory = "string \<Rightarrow> string \<Rightarrow> string \<Rightarrow> error + 'c"

record 'c entry =
  e_session :: session
  e_client :: 'c

text \<open>
  The pool. \<open>sessions\<close> maps identifiers to entry pointers, \<open>heap\<close> holds the entries,
  \<open>loops\<close> the entries whose \<open>runLoop\<close> goroutine has not returned, \<open>hook_set\<close> says whether a
  hook was passed to \<open>NewPool\<close>, and \<open>hook_calls\<close> are the calls it has received, oldest first.
  \<open>'h\<close> names update handlers.
\<close>

record ('c, 'h) pool =
  sessions :: "(string, nat) gomap"
  heap :: "nat \<rightharpoonup> 'c entry"
  next_ref :: nat
  loops :: "nat list"
  onUpdate :: "'h option"
  hook_set :: bool
  hook_calls :: "hook_call list"

definition NewPool :: "'h option \<Rightarrow> bool \<Rightarrow> ('c, 'h) pool" where
  "NewPool h hook =
     \<lparr>sessions = [], heap = Map.empty, next_ref = 0, loops = [], onUpdate = h,
      hook_set = hook, hook_calls = []\<rparr>"

definition Pool_notify :: "hook_call list \<Rightarrow> ('c, 'h) pool \<Rightarrow> ('c, 'h) pool" where
  "Pool_notify cs p = (if hook_set p then p\<lparr>hook_calls := hook_calls p @ cs\<rparr> else p)"

section \<open>Operations\<close>

definition Pool_add ::
  "'c ClientFactory \<Rightarrow> (nat \<Rightarrow> int) \<Rightarrow> string \<Rightarrow> string \<Rightarrow> string \<Rightarrow> sess_type \<Rightarrow>
   ('c, 'h) pool \<Rightarrow> error option \<times> ('c, 'h) pool" where
  "Pool_add factory now sid phone token t p =
     (case go_get (sessions p) sid of
        Some _ \<Rightarrow> (Some (Errorf ''session %q already exists'' [sid]), p)
      | None \<Rightarrow>
          (let sess = setStatus (now 2) StatusAuthorizing (newSession now sid t) in
           case factory sid phone token of
             Inl err \<Rightarrow>
               (Some (Wrapf ''init tdlib for session %q: %w'' [sid] err), Pool_notify [OnError t] p)
           | Inr c \<Rightarrow>
               (let old = sess_Status sess;
                    sess' = setStatus (now 3) StatusReady sess;
                    p1 = Pool_notify [OnAdded t, OnStatusChanged t old StatusReady] p;
                    r = next_ref p1
                in (None,
                    p1\<lparr>heap := (heap p1)(r \<mapsto> \<lparr>e_session = sess', e_client = c\<rparr>),
                       next_ref := Suc r,
                       sessions := go_put sid r (sessions p1),
                       loops := r # loops p1\<rparr>))))"

definition Pool_Add ::
  "'c ClientFactory \<Rightarrow> (nat \<Rightarrow> int) \<Rightarrow> string \<Rightarrow> string \<Rightarrow>
   ('c, 'h) pool \<Rightarrow> error option \<times> ('c, 'h) pool" where
  "Pool_Add factory now sid phone = Pool_add factory now sid phone [] TypeAccount"

definition Pool_AddBot ::
  "'c ClientFactory \<Rightarrow> (nat \<Rightarrow> int) \<Rightarrow> string \<Rightarrow> string \<Rightarrow>
   ('c, 'h) pool \<Rightarrow> error option \<times> ('c, 'h) pool" where
  "Pool_AddBot factory now sid token = Pool_add factory now sid [] token TypeBot"

text \<open>
  A pointer held by the pool always points to an entry (\<open>pool_ok\<close> below); a dangling one would be
  a nil dereference, which is a panic.
\<close>

definition Pool_Remove ::
  "'c TDClient \<Rightarrow> string \<Rightarrow> ('c, 'h) pool \<Rightarrow> error option \<times> ('c, 'h) pool" where
  "Pool_Remove ifc sid p =
     (case go_get (sessions p) sid of
        None \<Rightarrow> (Some (Errorf ''session %q not found'' [sid]), p)
      | Some r \<Rightarrow>
          (case heap p r of
             None \<Rightarrow> (Some (Panic ''nil entry''), p)
           | Some e \<Rightarrow>
               (let finalStatus = sess_Status (e_session e);
                    sessType = sess_Type (e_session e);
                    e' = e\<lparr>e_session := (e_session e)\<lparr>sess_cancelled := True\<rparr>,
                           e_client := c_Close ifc (e_client e)\<rparr>;
                    p1 = p\<lparr>heap := (heap p)(r \<mapsto> e'), sessions := go_del sid (sessions p)\<rparr>
                in (None, Pool_notify [OnRemoved sessType finalStatus] p1))))"

definition Pool_Get :: "string \<Rightarrow> ('c, 'h) pool \<Rightarrow> session option" where
  "Pool_Get sid p =
     (case go_get (sessions p) sid of
        None \<Rightarrow> None
      | Some r \<Rightarrow> map_option e_session (heap p r))"

text \<open>\<open>List\<close> ranges over the map: the snapshots of all sessions, in the map's order.\<close>

definition Pool_List :: "('c, 'h) pool \<Rightarrow> session list" where
  "Pool_List p = List.map_filter (\<lambda>(sid, r). map_option e_session (heap p r)) (sessions p)"

definition Pool_Len :: "('c, 'h) pool \<Rightarrow> nat" where
  "Pool_Len p = length (sessions p)"

text \<open>The three calls that reach the client of a session; the pool lock is not held while they run.\<close>

definition Pool_with_client ::
  "string \<Rightarrow> ('c \<Rightarrow> 'a \<times> 'c) \<Rightarrow> ('c, 'h) pool \<Rightarrow> (error + 'a) \<times> ('c, 'h) pool" where
  "Pool_with_client sid f p =
     (case go_get (sessions p) sid of
        None \<Rightarrow> (Inl (Errorf ''session %q not found'' [sid]), p)
      | Some r \<Rightarrow>
          (case heap p r of
             None \<Rightarrow> (Inl (Panic ''nil entry''), p)
           | Some e \<Rightarrow>
               (let (a, c') = f (e_client e)
                in (Inr a, p\<lparr>heap := (heap p)(r \<mapsto> e\<lparr>e_client := c'\<rparr>)\<rparr>))))"

definition Pool_SendAuthCode ::
  "'c TDClient \<Rightarrow> string \<Rightarrow> string \<Rightarrow> ('c, 'h) pool \<Rightarrow> error option \<times> ('c, 'h) pool" where
  "Pool_SendAuthCode ifc sid code p =
     (case Pool_with_client sid (c_SendCode ifc code) p of
        (Inl e, p') \<Rightarrow> (Some e, p')
      | (Inr e, p') \<Rightarrow> (e, p'))"

definition Pool_SendPassword ::
  "'c TDClient \<Rightarrow> string \<Rightarrow> string \<Rightarrow> ('c, 'h) pool \<Rightarrow> error option \<times> ('c, 'h) pool" where
  "Pool_SendPassword ifc sid password p =
     (case Pool_with_client sid (c_SendPassword ifc password) p of
        (Inl e, p') \<Rightarrow> (Some e, p')
      | (Inr e, p') \<Rightarrow> (e, p'))"

definition Pool_GetAuthState :: "'c TDClient \<Rightarrow> string \<Rightarrow> ('c, 'h) pool \<Rightarrow> error + string" where
  "Pool_GetAuthState ifc sid p = fst (Pool_with_client sid (\<lambda>c. (c_AuthState ifc c, c)) p)"

definition Pool_SetUpdateHandler :: "'h option \<Rightarrow> ('c, 'h) pool \<Rightarrow> ('c, 'h) pool" where
  "Pool_SetUpdateHandler h p = p\<lparr>onUpdate := h\<rparr>"

text \<open>
  The event loop of entry \<open>r\<close>. \<open>runLoop_update\<close> is the callback it passes to
  \<open>RunEventLoop\<close>: the handler call an update \<open>u\<close> causes, if any. \<open>runLoop_exit\<close> is what
  follows the return of \<open>RunEventLoop\<close>.
\<close>

definition Pool_runLoop_update :: "nat \<Rightarrow> 'u \<Rightarrow> ('c, 'h) pool \<Rightarrow> ('h \<times> string \<times> 'u) option" where
  "Pool_runLoop_update r u p =
     (case (onUpdate p, heap p r) of
        (Some h, Some e) \<Rightarrow> Some (h, sess_ID (e_session e), u)
      | _ \<Rightarrow> None)"

definition Pool_runLoop_exit :: "int \<Rightarrow> nat \<Rightarrow> ('c, 'h) pool \<Rightarrow> ('c, 'h) pool" where
  "Pool_runLoop_exit now r p =
     (let p1 = p\<lparr>loops := remove1 r (loops p)\<rparr> in
      case heap p r of
        None \<Rightarrow> p1
      | Some e \<Rightarrow>
          (if go_get (sessions p) (sess_ID (e_session e)) = Some r
           then (let old = sess_Status (e_session e);
                     e' = e\<lparr>e_session := setStatus now StatusDisconnected (e_session e)\<rparr>
                 in Pool_notify [OnStatusChanged (sess_Type (e_session e)) old StatusDisconnected]
                      (p1\<lparr>heap := (heap p1)(r \<mapsto> e')\<rparr>))
           else p1))"

section \<open>Steps of a pool\<close>

text \<open>
  Everything that can happen to a pool shared by several goroutines. Operations that hold the
  pool lock are single steps. \<open>client_moves\<close> covers what happens to a client outside the lock:
  the tail of \<open>SendAuthCode\<close> and \<open>SendPassword\<close> after the lock is released, and the
  client's own goroutines; it may hit an entry that has been removed in the meantime.
\<close>

inductive pool_step :: "'c TDClient \<Rightarrow> ('c, 'h) pool \<Rightarrow> ('c, 'h) pool \<Rightarrow> bool" for ifc where
  adds: "pool_step ifc p (snd (Pool_add factory now sid phone token t p))"
| removes: "pool_step ifc p (snd (Pool_Remove ifc sid p))"
| client_moves: "heap p r = Some e \<Longrightarrow>
    pool_step ifc p (p\<lparr>heap := (heap p)(r \<mapsto> e\<lparr>e_client := c\<rparr>)\<rparr>)"
| sets_handler: "pool_step ifc p (Pool_SetUpdateHandler h p)"
| loop_exits: "r \<in> set (loops p) \<Longrightarrow> pool_step ifc p (Pool_runLoop_exit now r p)"

inductive pool_reach :: "'c TDClient \<Rightarrow> bool \<Rightarrow> ('c, 'h) pool \<Rightarrow> bool" for ifc hk where
  start: "pool_reach ifc hk (NewPool h hk)"
| step: "pool_reach ifc hk p \<Longrightarrow> pool_step ifc p p' \<Longrightarrow> pool_reach ifc hk p'"

lemma pool_step_SendAuthCode:
  "Pool_SendAuthCode ifc sid code p = (err, p') \<Longrightarrow> p' = p \<or> pool_step ifc p p'"
  by (auto simp: Pool_SendAuthCode_def Pool_with_client_def split: option.splits prod.splits sum.splits
      intro: pool_step.client_moves)

lemma pool_step_SendPassword:
  "Pool_SendPassword ifc sid password p = (err, p') \<Longrightarrow> p' = p \<or> pool_step ifc p p'"
  by (auto simp: Pool_SendPassword_def Pool_with_client_def split: option.splits prod.splits sum.splits
      intro: pool_step.client_moves)

section \<open>The invariant\<close>

text \<open>
  A registered entry exists, carries its key as identifier and is not cancelled; it is ready
  while its event loop runs and disconnected once the loop has returned. An entry that is not
  registered is cancelled.
\<close>

definition entry_ok :: "nat list \<Rightarrow> string \<Rightarrow> nat \<Rightarrow> session \<Rightarrow> bool" where
  "entry_ok ls sid r s \<longleftrightarrow>
     sess_ID s = sid \<and> \<not> sess_cancelled s \<and>
     sess_Status s = (if r \<in> set ls then StatusReady else StatusDisconnected)"

definition pool_ok :: "('c, 'h) pool \<Rightarrow> bool" where
  "pool_ok p \<longleftrightarrow>
     gomap_ok (sessions p) \<and> distinct (loops p) \<and> set (loops p) \<subseteq> dom (heap p) \<and>
     (\<forall>r \<in> dom (heap p). r < next_ref p) \<and>
     (\<forall>sid r. (sid, r) \<in> set (sessions p) \<longrightarrow>
        (\<exists>e. heap p r = Some e \<and> entry_ok (loops p) sid r (e_session e))) \<and>
     (\<forall>r e. heap p r = Some e \<longrightarrow>
        (sess_ID (e_session e), r) \<in> set (sessions p) \<or> sess_cancelled (e_session e))"

lemma notify_simps [simp]:
  "sessions (Pool_notify cs p) = sessions p" "heap (Pool_notify cs p) = heap p"
  "next_ref (Pool_notify cs p) = next_ref p" "loops (Pool_notify cs p) = loops p"
  "onUpdate (Pool_notify cs p) = onUpdate p" "hook_set (Pool_notify cs p) = hook_set p"
  "hook_calls (Pool_notify cs p) = (if hook_set p then hook_calls p @ cs else hook_calls p)"
  by (simp_all add: Pool_notify_def)

lemma pool_ok_notify [simp]: "pool_ok (Pool_notify cs p) \<longleftrightarrow> pool_ok p"
  by (simp add: pool_ok_def)

lemma pool_okD:
  assumes "pool_ok p" and "(sid, r) \<in> set (sessions p)"
  obtains e where "heap p r = Some e" and "entry_ok (loops p) sid r (e_session e)"
  using assms unfolding pool_ok_def by blast

lemma pool_ok_getD:
  assumes "pool_ok p" and "go_get (sessions p) sid = Some r"
  obtains e where "heap p r = Some e" and "entry_ok (loops p) sid r (e_session e)"
  using assms pool_okD go_get_in_set by metis

lemma pool_ok_NewPool: "pool_ok (NewPool h hk)"
  by (simp add: pool_ok_def NewPool_def)

text \<open>The two outcomes of \<open>add\<close> that matter for the state: nothing registered, or one new entry.\<close>

definition added_session :: "(nat \<Rightarrow> int) \<Rightarrow> string \<Rightarrow> sess_type \<Rightarrow> session" where
  "added_session now sid t =
     \<lparr>sess_ID = sid, sess_Type = t, sess_Status = StatusReady,
      sess_CreatedAt = now 0, sess_UpdatedAt = now 3, sess_cancelled = False\<rparr>"

lemma Pool_add_exists:
  "go_get (sessions p) sid = Some r \<Longrightarrow>
   Pool_add factory now sid phone token t p = (Some (Errorf ''session %q already exists'' [sid]), p)"
  by (simp add: Pool_add_def)

lemma Pool_add_fails:
  "go_get (sessions p) sid = None \<Longrightarrow> factory sid phone token = Inl err \<Longrightarrow>
   Pool_add factory now sid phone token t p =
     (Some (Wrapf ''init tdlib for session %q: %w'' [sid] err), Pool_notify [OnError t] p)"
  by (simp add: Pool_add_def)

lemma Pool_add_succeeds:
  "go_get (sessions p) sid = None \<Longrightarrow> factory sid phone token = Inr c \<Longrightarrow>
   Pool_add factory now sid phone token t p =
     (None, (Pool_notify [OnAdded t, OnStatusChanged t StatusAuthorizing StatusReady] p)
        \<lparr>heap := (heap p)(next_ref p \<mapsto> \<lparr>e_session = added_session now sid t, e_client = c\<rparr>),
         next_ref := Suc (next_ref p),
         sessions := go_put sid (next_ref p) (sessions p),
         loops := next_ref p # loops p\<rparr>)"
  by (simp add: Pool_add_def added_session_def setStatus_def newSession_def Let_def)

lemma pool_ok_fresh: "pool_ok p \<Longrightarrow> heap p (next_ref p) = None"
  unfolding pool_ok_def by (metis domIff less_irrefl)

lemma pool_ok_fresh_ref: "pool_ok p \<Longrightarrow> (sid, next_ref p) \<notin> set (sessions p)"
  by (metis option.simps(3) pool_okD pool_ok_fresh)

lemma pool_ok_register:
  assumes ok: "pool_ok p" and new: "go_get (sessions p) sid = None"
    and e: "sess_ID (e_session e) = sid" "sess_Status (e_session e) = StatusReady"
      "\<not> sess_cancelled (e_session e)"
    and p': "heap p' = (heap p)(next_ref p \<mapsto> e)" "next_ref p' = Suc (next_ref p)"
      "sessions p' = sessions p @ [(sid, next_ref p)]" "loops p' = next_ref p # loops p"
  shows "pool_ok p'"
proof -
  have fresh: "heap p (next_ref p) = None" "\<And>s. (s, next_ref p) \<notin> set (sessions p)"
    using ok pool_ok_fresh pool_ok_fresh_ref by blast+
  then have "next_ref p \<notin> set (loops p)" using ok unfolding pool_ok_def by (metis domIff subset_eq)
  moreover have "sid \<notin> fst ` set (sessions p)" using new by (simp add: map_of_eq_None_iff)
  ultimately show ?thesis using ok fresh e unfolding pool_ok_def p'
    by (auto simp: entry_ok_def less_Suc_eq)
qed

lemma pool_ok_add:
  assumes ok: "pool_ok p"
  shows "pool_ok (snd (Pool_add factory now sid phone token t p))"
proof (cases "go_get (sessions p) sid")
  case new: None
  show ?thesis
  proof (cases "factory sid phone token")
    case (Inr c)
    show ?thesis
      by (rule pool_ok_register [OF ok new,
            where e = "\<lparr>e_session = added_session now sid t, e_client = c\<rparr>"])
        (simp_all add: Pool_add_succeeds new Inr added_session_def go_put_new)
  qed (simp add: Pool_add_fails new ok)
qed (simp add: Pool_add_exists ok)

lemma pool_ok_inj:
  "pool_ok p \<Longrightarrow> (a, r) \<in> set (sessions p) \<Longrightarrow> (b, r) \<in> set (sessions p) \<Longrightarrow> a = b"
  by (metis entry_ok_def option.inject pool_okD)

lemma pool_okI:
  assumes "gomap_ok (sessions p)" "distinct (loops p)" "set (loops p) \<subseteq> dom (heap p)"
    and "\<And>r. r \<in> dom (heap p) \<Longrightarrow> r < next_ref p"
    and "\<And>sid r. (sid, r) \<in> set (sessions p) \<Longrightarrow>
      \<exists>e. heap p r = Some e \<and> entry_ok (loops p) sid r (e_session e)"
    and "\<And>r e. heap p r = Some e \<Longrightarrow>
      (sess_ID (e_session e), r) \<in> set (sessions p) \<or> sess_cancelled (e_session e)"
  shows "pool_ok p"
  using assms unfolding pool_ok_def by blast

lemma pool_ok_parts:
  assumes "pool_ok p"
  shows "gomap_ok (sessions p)" "distinct (loops p)" "set (loops p) \<subseteq> dom (heap p)"
    and "r \<in> dom (heap p) \<Longrightarrow> r < next_ref p"
    and "heap p r = Some e \<Longrightarrow>
      (sess_ID (e_session e), r) \<in> set (sessions p) \<or> sess_cancelled (e_session e)"
  using assms unfolding pool_ok_def by blast+

lemma pool_ok_unregister:
  assumes ok: "pool_ok p" and mem: "(sid, r) \<in> set (sessions p)"
    and p': "heap p' = (heap p)(r \<mapsto> e)" "next_ref p' = next_ref p"
      "sessions p' = go_del sid (sessions p)" "loops p' = loops p"
    and e: "sess_cancelled (e_session e)"
  shows "pool_ok p'"
proof (rule pool_okI, unfold p')
  have r: "r \<in> dom (heap p)" using ok mem by (metis domI pool_okD)
  then show "q \<in> dom ((heap p)(r \<mapsto> e)) \<Longrightarrow> q < next_ref p" for q
    using pool_ok_parts(4) [OF ok] by auto
  show "gomap_ok (go_del sid (sessions p))" "distinct (loops p)"
    "set (loops p) \<subseteq> dom ((heap p)(r \<mapsto> e))"
    using pool_ok_parts [OF ok] by auto
  fix a q
  show "\<exists>f. ((heap p)(r \<mapsto> e)) q = Some f \<and> entry_ok (loops p) a q (e_session f)"
    if "(a, q) \<in> set (go_del sid (sessions p))"
  proof -
    from that have aq: "(a, q) \<in> set (sessions p)" "a \<noteq> sid" by (auto simp: go_del_filter)
    with ok mem have "q \<noteq> r" using pool_ok_inj by blast
    with ok aq show ?thesis by (metis fun_upd_other pool_okD)
  qed
next
  fix q f
  assume f: "((heap p)(r \<mapsto> e)) q = Some f"
  show "(sess_ID (e_session f), q) \<in> set (go_del sid (sessions p)) \<or> sess_cancelled (e_session f)"
  proof (cases "q = r")
    case False
    with mem have "(sid, q) \<notin> set (sessions p)"
      using pool_ok_parts(1) [OF ok] by (metis go_get_Some_iff option.inject)
    with False f show ?thesis using pool_ok_parts(5) [OF ok, of q f] by (auto simp: go_del_filter)
  qed (use f e in simp)
qed

lemma pool_ok_Remove:
  assumes ok: "pool_ok p"
  shows "pool_ok (snd (Pool_Remove ifc sid p))"
proof (cases "go_get (sessions p) sid")
  case None
  with ok show ?thesis by (simp add: Pool_Remove_def)
next
  case (Some r)
  from ok Some obtain e where e: "heap p r = Some e" by (rule pool_ok_getD)
  show ?thesis
    by (rule pool_ok_unregister [OF ok go_get_in_set [OF Some],
          where e = "e\<lparr>e_session := (e_session e)\<lparr>sess_cancelled := True\<rparr>,
                       e_client := c_Close ifc (e_client e)\<rparr>"])
      (simp_all add: Pool_Remove_def Some e Let_def)
qed

lemma pool_ok_client:
  "pool_ok p \<Longrightarrow> heap p r = Some e \<Longrightarrow>
   pool_ok (p\<lparr>heap := (heap p)(r \<mapsto> e\<lparr>e_client := c\<rparr>)\<rparr>)"
  unfolding pool_ok_def by (auto; fastforce)

lemma pool_ok_handler: "pool_ok p \<Longrightarrow> pool_ok (Pool_SetUpdateHandler h p)"
  by (simp add: pool_ok_def Pool_SetUpdateHandler_def)

lemma pool_ok_registered:
  assumes "pool_ok p" and "heap p r = Some e"
  shows "go_get (sessions p) (sess_ID (e_session e)) = Some r \<longleftrightarrow> (\<exists>a. (a, r) \<in> set (sessions p))"
  using assms by (metis entry_ok_def go_get_Some_iff option.inject pool_okD pool_ok_parts(1))

lemma pool_ok_exit_orphan:
  assumes ok: "pool_ok p" and r: "\<And>a. (a, r) \<notin> set (sessions p)"
  shows "pool_ok (p\<lparr>loops := remove1 r (loops p)\<rparr>)"
proof (rule pool_okI, simp_all)
  show "set (remove1 r (loops p)) \<subseteq> dom (heap p)"
    using pool_ok_parts(3) [OF ok] set_remove1_subset by fastforce
  fix a q
  assume "(a, q) \<in> set (sessions p)"
  then show "\<exists>e. heap p q = Some e \<and> entry_ok (remove1 r (loops p)) a q (e_session e)"
    using ok r by (metis entry_ok_def in_set_remove1 pool_okD)
qed (use pool_ok_parts [OF ok] in auto)

lemma pool_ok_exit_registered:
  assumes ok: "pool_ok p" and mem: "(sid, r) \<in> set (sessions p)"
    and e: "heap p r = Some e" and p': "heap p' = (heap p)(r \<mapsto> e')" "next_ref p' = next_ref p"
      "sessions p' = sessions p" "loops p' = remove1 r (loops p)"
    and e': "e_session e' = setStatus t StatusDisconnected (e_session e)"
  shows "pool_ok p'"
proof (rule pool_okI, unfold p')
  show "set (remove1 r (loops p)) \<subseteq> dom ((heap p)(r \<mapsto> e'))"
    using pool_ok_parts(3) [OF ok] set_remove1_subset by fastforce
  have *: "entry_ok (loops p) sid r (e_session e)" using ok mem e by (metis option.inject pool_okD)
  fix a q
  assume "(a, q) \<in> set (sessions p)"
  then show "\<exists>f. ((heap p)(r \<mapsto> e')) q = Some f \<and> entry_ok (remove1 r (loops p)) a q (e_session f)"
  proof (cases "q = r")
    case True
    with \<open>(a, q) \<in> set (sessions p)\<close> have "a = sid" using ok mem pool_ok_inj by blast
    with True * show ?thesis using pool_ok_parts(2) [OF ok] by (simp add: e' setStatus_def entry_ok_def)
  next
    case False
    with \<open>(a, q) \<in> set (sessions p)\<close> ok show ?thesis
      by (metis entry_ok_def fun_upd_other in_set_remove1 pool_okD)
  qed
qed (use pool_ok_parts [OF ok] e e' in \<open>auto simp: setStatus_def split: if_splits\<close>)

lemma pool_ok_exit:
  assumes ok: "pool_ok p" and r: "r \<in> set (loops p)"
  shows "pool_ok (Pool_runLoop_exit now r p)"
proof -
  from ok r obtain e where e: "heap p r = Some e" unfolding pool_ok_def by blast
  show ?thesis
  proof (cases "go_get (sessions p) (sess_ID (e_session e)) = Some r")
    case True
    show ?thesis
      by (rule pool_ok_exit_registered [OF ok go_get_in_set [OF True] e,
            where e' = "e\<lparr>e_session := setStatus now StatusDisconnected (e_session e)\<rparr>"])
        (simp_all add: Pool_runLoop_exit_def e True Let_def)
  next
    case False
    then have "(a, r) \<notin> set (sessions p)" for a using pool_ok_registered [OF ok e] by blast
    with False show ?thesis by (simp add: Pool_runLoop_exit_def e Let_def pool_ok_exit_orphan ok)
  qed
qed

lemma pool_ok_step: "pool_step ifc p p' \<Longrightarrow> pool_ok p \<Longrightarrow> pool_ok p'"
  by (induction rule: pool_step.induct)
    (simp_all add: pool_ok_add pool_ok_Remove pool_ok_client pool_ok_handler pool_ok_exit)

lemma pool_reach_ok: "pool_reach ifc hk p \<Longrightarrow> pool_ok p"
  by (induction rule: pool_reach.induct) (auto intro: pool_ok_NewPool pool_ok_step)

section \<open>What the reads return\<close>

lemma Pool_List_ok:
  assumes "pool_ok p"
  shows "Pool_List p = map (\<lambda>(sid, r). e_session (the (heap p r))) (sessions p)"
  unfolding Pool_List_def
proof (rule map_filter_all_Some)
  fix x
  assume "x \<in> set (sessions p)"
  moreover obtain sid r where "x = (sid, r)" by (cases x)
  ultimately show "(case x of (sid, r) \<Rightarrow> map_option e_session (heap p r)) =
      Some (case x of (sid, r) \<Rightarrow> e_session (the (heap p r)))"
    using assms by (auto elim: pool_okD)
qed

lemma length_Pool_List: "pool_ok p \<Longrightarrow> length (Pool_List p) = Pool_Len p"
  by (simp add: Pool_List_ok Pool_Len_def)

lemma Pool_Get_iff_List:
  assumes ok: "pool_ok p"
  shows "Pool_Get sid p = Some s \<longleftrightarrow> s \<in> set (Pool_List p) \<and> sess_ID s = sid"
proof -
  have "(\<exists>r. (sid, r) \<in> set (sessions p) \<and> s = e_session (the (heap p r))) \<longleftrightarrow>
    (\<exists>a r. (a, r) \<in> set (sessions p) \<and> s = e_session (the (heap p r))) \<and> sess_ID s = sid"
    using ok by (metis entry_ok_def option.sel pool_okD)
  moreover have "Pool_Get sid p = Some s \<longleftrightarrow>
    (\<exists>r. (sid, r) \<in> set (sessions p) \<and> s = e_session (the (heap p r)))"
    using ok unfolding Pool_Get_def
    by (auto simp: go_get_Some_iff [OF pool_ok_parts(1) [OF ok], symmetric]
        split: option.splits elim: pool_ok_getD [OF ok])
  ultimately show ?thesis using ok by (force simp: Pool_List_ok)
qed

lemma Pool_Get_added:
  assumes "pool_ok p" and "Pool_Get sid p = None" and "factory sid phone token = Inr c"
  shows "Pool_Get sid (snd (Pool_add factory now sid phone token t p)) = Some (added_session now sid t)"
proof -
  from assms(1,2) have new: "go_get (sessions p) sid = None"
    by (auto simp: Pool_Get_def split: option.splits elim: pool_ok_getD)
  then show ?thesis
    by (simp add: Pool_add_succeeds assms(3) Pool_Get_def)
qed

section \<open>Refinement of an abstract pool\<close>

text \<open>
  What clients of the pool rely on: a finite map from identifiers to a type and a status. A
  session appears ready, may become disconnected once, and disappears when it is removed.
\<close>

type_synonym pool_spec = "string \<rightharpoonup> sess_type \<times> status"

inductive pool_spec_step :: "pool_spec \<Rightarrow> pool_spec \<Rightarrow> bool" where
  spec_add: "v sid = None \<Longrightarrow> pool_spec_step v (v(sid \<mapsto> (t, StatusReady)))"
| spec_remove: "v sid = Some x \<Longrightarrow> pool_spec_step v (v(sid := None))"
| spec_disconnect: "v sid = Some (t, StatusReady) \<Longrightarrow>
    pool_spec_step v (v(sid \<mapsto> (t, StatusDisconnected)))"
| spec_idle: "pool_spec_step v v"

definition pool_view :: "('c, 'h) pool \<Rightarrow> pool_spec" where
  "pool_view p = (\<lambda>sid. map_option (\<lambda>s. (sess_Type s, sess_Status s)) (Pool_Get sid p))"

lemma pool_view_None: "pool_ok p \<Longrightarrow> pool_view p sid = None \<longleftrightarrow> go_get (sessions p) sid = None"
  by (auto simp: pool_view_def Pool_Get_def split: option.splits elim: pool_ok_getD)

lemma pool_view_add:
  assumes "pool_ok p" and "go_get (sessions p) sid = None" and "factory sid phone token = Inr c"
  shows "pool_view (snd (Pool_add factory now sid phone token t p)) =
    (pool_view p)(sid \<mapsto> (t, StatusReady))"
proof
  fix a
  have "go_get (sessions p) a \<noteq> Some (next_ref p)"
    using pool_ok_fresh_ref [OF assms(1)] go_get_in_set by metis
  then show "pool_view (snd (Pool_add factory now sid phone token t p)) a =
      ((pool_view p)(sid \<mapsto> (t, StatusReady))) a"
    by (auto simp: pool_view_def Pool_Get_def Pool_add_succeeds assms added_session_def
        split: option.splits)
qed

lemma pool_view_Remove:
  assumes ok: "pool_ok p" and r: "go_get (sessions p) sid = Some r"
  shows "pool_view (snd (Pool_Remove ifc sid p)) = (pool_view p)(sid := None)"
proof
  fix a
  from ok r obtain e where e: "heap p r = Some e" by (rule pool_ok_getD)
  have "a \<noteq> sid \<Longrightarrow> go_get (sessions p) a \<noteq> Some r"
    using pool_ok_inj [OF ok] go_get_in_set r by metis
  then show "pool_view (snd (Pool_Remove ifc sid p)) a = ((pool_view p)(sid := None)) a"
    by (auto simp: pool_view_def Pool_Get_def Pool_Remove_def r e Let_def split: option.splits)
qed

lemma pool_view_client:
  "heap p r = Some e \<Longrightarrow> pool_view (p\<lparr>heap := (heap p)(r \<mapsto> e\<lparr>e_client := c\<rparr>)\<rparr>) = pool_view p"
  by (auto simp: pool_view_def Pool_Get_def split: option.splits)

lemma pool_view_exit_registered:
  assumes ok: "pool_ok p" and e: "heap p r = Some e"
    and r: "go_get (sessions p) (sess_ID (e_session e)) = Some r"
  shows "pool_view (Pool_runLoop_exit now r p) =
    (pool_view p)(sess_ID (e_session e) \<mapsto> (sess_Type (e_session e), StatusDisconnected))"
proof
  fix a
  have "a \<noteq> sess_ID (e_session e) \<Longrightarrow> go_get (sessions p) a \<noteq> Some r"
    using pool_ok_inj [OF ok] go_get_in_set r by metis
  then show "pool_view (Pool_runLoop_exit now r p) a =
    ((pool_view p)(sess_ID (e_session e) \<mapsto> (sess_Type (e_session e), StatusDisconnected))) a"
    by (auto simp: pool_view_def Pool_Get_def Pool_runLoop_exit_def r e Let_def setStatus_def
        split: option.splits)
qed

lemma pool_exit_orphan:
  assumes "heap p r = Some e" and "go_get (sessions p) (sess_ID (e_session e)) \<noteq> Some r"
  shows "Pool_runLoop_exit now r p = p\<lparr>loops := remove1 r (loops p)\<rparr>"
  using assms by (simp add: Pool_runLoop_exit_def)

lemma pool_view_exit:
  assumes ok: "pool_ok p" and r: "r \<in> set (loops p)"
  shows "pool_spec_step (pool_view p) (pool_view (Pool_runLoop_exit now r p))"
proof -
  obtain e where e: "heap p r = Some e" using ok r pool_ok_parts(3) by blast
  show ?thesis
  proof (cases "go_get (sessions p) (sess_ID (e_session e)) = Some r")
    case True
    then have "entry_ok (loops p) (sess_ID (e_session e)) r (e_session e)"
      using ok e by (metis option.inject pool_ok_getD)
    then have "pool_view p (sess_ID (e_session e)) = Some (sess_Type (e_session e), StatusReady)"
      using True e r by (simp add: pool_view_def Pool_Get_def entry_ok_def)
    then show ?thesis unfolding pool_view_exit_registered [OF ok e True] by (rule spec_disconnect)
  next
    case False
    have "pool_view (p\<lparr>loops := ls\<rparr>) = pool_view p" for ls
      by (simp add: pool_view_def Pool_Get_def cong: option.case_cong)
    then show ?thesis by (simp add: pool_exit_orphan [OF e False] spec_idle)
  qed
qed

lemma pool_view_notify [simp]: "pool_view (Pool_notify cs p) = pool_view p"
  by (simp add: pool_view_def Pool_Get_def cong: option.case_cong)

lemma pool_step_refines:
  "pool_step ifc p p' \<Longrightarrow> pool_ok p \<Longrightarrow> pool_spec_step (pool_view p) (pool_view p')"
proof (induction rule: pool_step.induct)
  case (adds p factory now sid phone token t)
  then show ?case
    by (cases "go_get (sessions p) sid"; cases "factory sid phone token")
      (simp_all add: Pool_add_exists Pool_add_fails pool_view_add pool_view_None
        spec_add spec_idle del: fun_upd_apply)
next
  case (removes p sid)
  show ?case
  proof (cases "go_get (sessions p) sid")
    case None
    then show ?thesis by (simp add: Pool_Remove_def spec_idle)
  next
    case (Some r)
    with removes pool_view_None [OF removes] have "pool_view p sid \<noteq> None" by simp
    then show ?thesis unfolding pool_view_Remove [OF removes Some] by (blast intro: spec_remove)
  qed
next
  case (sets_handler p h)
  then show ?case by (simp add: Pool_SetUpdateHandler_def pool_view_def Pool_Get_def spec_idle cong: option.case_cong)
qed (simp_all add: pool_view_client spec_idle pool_view_exit)

section \<open>Counting sessions by type and status\<close>

definition session_count :: "('c, 'h) pool \<Rightarrow> sess_type \<Rightarrow> status \<Rightarrow> nat" where
  "session_count p t st = length (filter (\<lambda>s. sess_Type s = t \<and> sess_Status s = st) (Pool_List p))"

definition counted :: "('c, 'h) pool \<Rightarrow> sess_type \<Rightarrow> status \<Rightarrow> string \<times> nat \<Rightarrow> bool" where
  "counted p t st = (\<lambda>(sid, r). case heap p r of None \<Rightarrow> False
     | Some e \<Rightarrow> sess_Type (e_session e) = t \<and> sess_Status (e_session e) = st)"

lemma filter_map_filter:
  "length (filter P (List.map_filter f xs)) =
   go_count (\<lambda>x. case f x of None \<Rightarrow> False | Some y \<Rightarrow> P y) xs"
  by (induction xs) (auto simp: map_filter_simps split: option.splits)

lemma session_count_eq: "session_count p t st = go_count (counted p t st) (sessions p)"
  unfolding session_count_def Pool_List_def filter_map_filter
  by (rule go_count_cong) (auto simp: counted_def split: option.splits)

text \<open>The counts of all types and statuses add up to the number of sessions.\<close>

lemma length_by_key: "(\<Sum>k :: 'k :: finite \<in> UNIV. length (filter (\<lambda>x. f x = k) xs)) = length xs"
proof (induction xs)
  case (Cons x xs)
  have "(\<Sum>k :: 'k \<in> UNIV. length (filter (\<lambda>x. f x = k) (x # xs))) =
      (\<Sum>k \<in> UNIV. length (filter (\<lambda>x. f x = k) xs) + (if f x = k then 1 else 0))"
    by (rule sum.cong) auto
  with Cons show ?case by (simp add: sum.distrib)
qed simp

lemma session_count_total:
  assumes "pool_ok p"
  shows "(\<Sum>(t, st) \<in> UNIV. session_count p t st) = Pool_Len p"
  using length_by_key [of "\<lambda>s. (sess_Type s, sess_Status s)" "Pool_List p"]
  by (simp add: session_count_def length_Pool_List [OF assms] case_prod_beta prod_eq_iff)

lemma session_count_frame:
  assumes "sessions p' = sessions p"
    and "\<And>sid r. (sid, r) \<in> set (sessions p) \<Longrightarrow>
      map_option e_session (heap p' r) = map_option e_session (heap p r)"
  shows "session_count p' t st = session_count p t st"
  unfolding session_count_eq assms(1)
  by (rule go_count_cong)
    (use assms(2) in \<open>force simp: counted_def map_option_case split: option.splits\<close>)

lemma session_count_notify [simp]: "session_count (Pool_notify cs p) t st = session_count p t st"
  by (rule session_count_frame) simp_all

lemma session_count_NewPool [simp]: "session_count (NewPool h hk) t st = 0"
  by (simp add: session_count_eq NewPool_def)

lemma session_count_add:
  assumes ok: "pool_ok p" and new: "go_get (sessions p) sid = None" and c: "factory sid phone token = Inr c"
  shows "session_count (snd (Pool_add factory now sid phone token t p)) u st =
    session_count p u st + (if u = t \<and> st = StatusReady then 1 else 0)"
proof -
  let ?p = "snd (Pool_add factory now sid phone token t p)"
  have "go_count (counted ?p u st) (sessions p) = go_count (counted p u st) (sessions p)"
    by (rule go_count_cong)
      (use pool_ok_fresh_ref [OF ok] in \<open>auto simp: counted_def Pool_add_succeeds new c\<close>)
  then show ?thesis
    by (auto simp: session_count_eq Pool_add_succeeds new c go_count_put_new counted_def added_session_def)
qed

lemma session_count_Remove:
  assumes ok: "pool_ok p" and r: "go_get (sessions p) sid = Some r" and e: "heap p r = Some e"
  shows "session_count (snd (Pool_Remove ifc sid p)) u st +
      (if u = sess_Type (e_session e) \<and> st = sess_Status (e_session e) then 1 else 0) =
    session_count p u st"
proof -
  let ?p = "snd (Pool_Remove ifc sid p)"
  have "go_count (counted ?p u st) (sessions p) = go_count (counted p u st) (sessions p)"
    by (rule go_count_cong) (auto simp: counted_def Pool_Remove_def r e Let_def split: option.splits)
  moreover have "sessions ?p = go_del sid (sessions p)" "counted ?p u st (sid, r) \<longleftrightarrow>
      u = sess_Type (e_session e) \<and> st = sess_Status (e_session e)"
    by (auto simp: counted_def Pool_Remove_def r e Let_def)
  ultimately show ?thesis
    using go_count_del [OF pool_ok_parts(1) [OF ok] r, of "counted ?p u st"]
    by (simp add: session_count_eq)
qed

lemma session_count_exit:
  assumes ok: "pool_ok p" and e: "heap p r = Some e"
    and r: "go_get (sessions p) (sess_ID (e_session e)) = Some r"
  shows "session_count (Pool_runLoop_exit now r p) u st +
      (if u = sess_Type (e_session e) \<and> st = sess_Status (e_session e) then 1 else 0) =
    session_count p u st + (if u = sess_Type (e_session e) \<and> st = StatusDisconnected then 1 else 0)"
proof -
  let ?p = "Pool_runLoop_exit now r p" and ?k = "sess_ID (e_session e)"
  have "sessions ?p = sessions p"
    and "counted ?p u st (?k, r) \<longleftrightarrow> u = sess_Type (e_session e) \<and> st = StatusDisconnected"
    and "counted p u st (?k, r) \<longleftrightarrow> u = sess_Type (e_session e) \<and> st = sess_Status (e_session e)"
    by (auto simp: counted_def Pool_runLoop_exit_def r e Let_def setStatus_def)
  moreover have "counted p u st (a, q) = counted ?p u st (a, q)"
    if "(a, q) \<in> set (sessions p)" "a \<noteq> ?k" for a q
    using that pool_ok_inj [OF ok _ go_get_in_set [OF r]]
    by (auto simp: counted_def Pool_runLoop_exit_def r e Let_def)
  ultimately show ?thesis
    using go_count_change [OF pool_ok_parts(1) [OF ok] r, of "counted p u st" "counted ?p u st"]
    by (simp add: session_count_eq)
qed

lemma hook_set_step: "pool_step ifc p p' \<Longrightarrow> hook_set p' = hook_set p"
  by (induction rule: pool_step.induct)
    (auto simp: Pool_add_def Pool_Remove_def Pool_runLoop_exit_def Pool_SetUpdateHandler_def Let_def
      split: option.splits sum.splits)

lemma hook_set_reach: "pool_reach ifc hk p \<Longrightarrow> hook_set p = hk"
  by (induction rule: pool_reach.induct) (simp_all add: NewPool_def hook_set_step)

section \<open>Contract of a hook that keeps a gauge by type and status\<close>

text \<open>
  A hook with internal state \<open>'m\<close> that maintains a number per type and status. A session is
  announced as authorizing; a status change moves one unit; a removal takes one away.
\<close>

locale status_gauge =
  fixes apply_call :: "hook_call \<Rightarrow> 'm \<Rightarrow> 'm"
    and gauge :: "'m \<Rightarrow> sess_type \<Rightarrow> status \<Rightarrow> int"
  assumes gauge_added: "gauge (apply_call (OnAdded t) m) u st =
      gauge m u st + of_bool (u = t \<and> st = StatusAuthorizing)"
    and gauge_removed: "gauge (apply_call (OnRemoved t old) m) u st =
      gauge m u st - of_bool (u = t \<and> st = old)"
    and gauge_changed: "gauge (apply_call (OnStatusChanged t old new) m) u st =
      gauge m u st - of_bool (u = t \<and> st = old) + of_bool (u = t \<and> st = new)"
    and gauge_error: "gauge (apply_call (OnError t) m) u st = gauge m u st"
begin

text \<open>The amount by which the gauge is ahead of the pool; no step changes it.\<close>

definition ahead :: "'m \<Rightarrow> sess_type \<Rightarrow> status \<Rightarrow> ('c, 'h) pool \<Rightarrow> int" where
  "ahead m u st p = gauge (fold apply_call (hook_calls p) m) u st - int (session_count p u st)"

lemma ahead_frame:
  assumes "sessions p' = sessions p" "\<And>r. map_option e_session (heap p' r) = map_option e_session (heap p r)"
    and "hook_calls p' = hook_calls p"
  shows "ahead m u st p' = ahead m u st p"
  using session_count_frame [of p' p] assms by (simp add: ahead_def)

lemma ahead_Remove:
  assumes ok: "pool_ok p" and hk: "hook_set p"
  shows "ahead m u st (snd (Pool_Remove ifc sid p)) = ahead m u st p"
proof (cases "go_get (sessions p) sid")
  case None
  then show ?thesis by (simp add: Pool_Remove_def)
next
  case (Some r)
  from ok Some obtain e where e: "heap p r = Some e" by (rule pool_ok_getD)
  have "hook_calls (snd (Pool_Remove ifc sid p)) =
      hook_calls p @ [OnRemoved (sess_Type (e_session e)) (sess_Status (e_session e))]"
    by (simp add: Pool_Remove_def Some e hk Let_def)
  then show ?thesis using session_count_Remove [OF ok Some e, of ifc u st]
    by (auto simp: ahead_def gauge_removed split: if_splits)
qed

lemma ahead_exit:
  assumes ok: "pool_ok p" and hk: "hook_set p" and e: "heap p r = Some e"
  shows "ahead m u st (Pool_runLoop_exit now r p) = ahead m u st p"
proof (cases "go_get (sessions p) (sess_ID (e_session e)) = Some r")
  case True
  then have "hook_calls (Pool_runLoop_exit now r p) = hook_calls p @
      [OnStatusChanged (sess_Type (e_session e)) (sess_Status (e_session e)) StatusDisconnected]"
    by (simp add: Pool_runLoop_exit_def e hk Let_def)
  then show ?thesis using session_count_exit [OF ok e True, of now u st]
    by (auto simp: ahead_def gauge_changed split: if_splits)
next
  case False
  have "ahead m u st (p\<lparr>loops := ls\<rparr>) = ahead m u st p" for ls by (rule ahead_frame) simp_all
  then show ?thesis by (simp add: pool_exit_orphan [OF e False])
qed

lemma ahead_step:
  assumes "pool_step ifc p p'" and ok: "pool_ok p" and hk: "hook_set p"
  shows "ahead m u st p' = ahead m u st p"
  using assms(1)
proof cases
  case (adds factory now sid phone token t)
  then show ?thesis using ok hk
    by (cases "go_get (sessions p) sid"; cases "factory sid phone token")
      (simp_all add: ahead_def Pool_add_exists Pool_add_fails gauge_error session_count_add
        Pool_add_succeeds [THEN arg_cong [where f = "\<lambda>x. hook_calls (snd x)"]]
        gauge_added gauge_changed)
next
  case (client_moves r e c)
  then show ?thesis by (intro ahead_frame) auto
next
  case (sets_handler h)
  then show ?thesis by (intro ahead_frame) (auto simp: Pool_SetUpdateHandler_def)
next
  case (loop_exits r now)
  then obtain e where "heap p r = Some e" using ok pool_ok_parts(3) by blast
  then show ?thesis using loop_exits ahead_exit [OF ok hk] by simp
qed (simp add: ahead_Remove [OF ok hk])

lemma gauge_tracks_pool:
  "pool_reach ifc True p \<Longrightarrow>
   gauge (fold apply_call (hook_calls p) m) u st = gauge m u st + int (session_count p u st)"
proof (induction rule: pool_reach.induct)
  case (step p p')
  have "pool_ok p" and "hook_set p"
    using step.hyps(1) by (simp_all add: pool_reach_ok hook_set_reach)
  from ahead_step [OF step.hyps(2) this, of m u st] step.IH show ?case by (simp add: ahead_def)
qed (simp add: NewPool_def session_count_eq)

end

section \<open>Contract of a client\<close>

text \<open>
  What the pool relies on of the clients its factory makes: a client keeps the identifier it was
  created for, and a refused code or password leaves it as it was.
\<close>

definition clients_match :: "'c TDClient \<Rightarrow> ('c, 'h) pool \<Rightarrow> bool" where
  "clients_match ifc p \<longleftrightarrow>
     (\<forall>r e. heap p r = Some e \<longrightarrow> c_ID ifc (e_client e) = sess_ID (e_session e))"

lemma heap_client_same:
  "heap p r = Some e \<Longrightarrow> p\<lparr>heap := (heap p)(r \<mapsto> e)\<rparr> = p"
  by (cases p) (simp add: fun_upd_idem)

locale td_client =
  fixes ifc :: "'c TDClient" and factory :: "'c ClientFactory"
  assumes new_ID: "factory sid phone token = Inr c \<Longrightarrow> c_ID ifc c = sid"
    and close_ID: "c_ID ifc (c_Close ifc c) = c_ID ifc c"
    and code_ID: "c_ID ifc (snd (c_SendCode ifc code c)) = c_ID ifc c"
    and password_ID: "c_ID ifc (snd (c_SendPassword ifc password c)) = c_ID ifc c"
    and code_refused: "c_SendCode ifc code c = (Some err, c') \<Longrightarrow> c' = c"
    and password_refused: "c_SendPassword ifc password c = (Some err, c') \<Longrightarrow> c' = c"
begin

lemma clients_match_add:
  "clients_match ifc p \<Longrightarrow> clients_match ifc (snd (Pool_add factory now sid phone token t p))"
  by (auto simp: clients_match_def Pool_add_def Let_def new_ID newSession_def setStatus_def
      split: option.splits sum.splits)

lemma clients_match_Remove:
  "clients_match ifc p \<Longrightarrow> clients_match ifc (snd (Pool_Remove ifc sid p))"
  by (auto simp: clients_match_def Pool_Remove_def Let_def close_ID split: option.splits)

lemma clients_match_SendAuthCode:
  "clients_match ifc p \<Longrightarrow> clients_match ifc (snd (Pool_SendAuthCode ifc sid code p))"
  by (auto simp: clients_match_def Pool_SendAuthCode_def Pool_with_client_def
      split: option.splits prod.splits) (metis code_ID snd_conv)+

lemma clients_match_SendPassword:
  "clients_match ifc p \<Longrightarrow> clients_match ifc (snd (Pool_SendPassword ifc sid password p))"
  by (auto simp: clients_match_def Pool_SendPassword_def Pool_with_client_def
      split: option.splits prod.splits) (metis password_ID snd_conv)+

lemma clients_match_exit: "clients_match ifc p \<Longrightarrow> clients_match ifc (Pool_runLoop_exit now r p)"
  by (auto simp: clients_match_def Pool_runLoop_exit_def Let_def setStatus_def split: option.splits)

lemma SendAuthCode_refused:
  "Pool_SendAuthCode ifc sid code p = (Some err, p') \<Longrightarrow> p' = p"
  by (auto simp: Pool_SendAuthCode_def Pool_with_client_def heap_client_same
      split: option.splits prod.splits dest!: code_refused)

lemma SendPassword_refused:
  "Pool_SendPassword ifc sid password p = (Some err, p') \<Longrightarrow> p' = p"
  by (auto simp: Pool_SendPassword_def Pool_with_client_def heap_client_same
      split: option.splits prod.splits dest!: password_refused)

end

section \<open>The mock client of the package's tests\<close>

text \<open>\<open>internal/session/mock_client_test.go\<close>: a client that records whether it was closed.\<close>

record mockClient =
  mock_id :: string
  mock_closed :: bool

definition mock_iface :: "mockClient TDClient" where
  "mock_iface =
     \<lparr>c_ID = mock_id, c_Close = (\<lambda>c. c\<lparr>mock_closed := True\<rparr>),
      c_SendCode = (\<lambda>_ c. (None, c)), c_SendPassword = (\<lambda>_ c. (None, c)),
      c_AuthState = (\<lambda>_. ''ready'')\<rparr>"

definition mock_factory :: "mockClient ClientFactory" where
  "mock_factory sid phone token = Inr \<lparr>mock_id = sid, mock_closed = False\<rparr>"

interpretation mock: td_client mock_iface mock_factory
  by unfold_locales (auto simp: mock_iface_def mock_factory_def)

text \<open>A small run used by the witnesses: \<open>a\<close> is added, removed and added again.\<close>

abbreviation mock_add :: "string \<Rightarrow> (mockClient, unit) pool \<Rightarrow> (mockClient, unit) pool" where
  "mock_add sid p \<equiv> snd (Pool_add mock_factory (\<lambda>i. int i) sid ''+1'' [] TypeAccount p)"

abbreviation mock_remove :: "string \<Rightarrow> (mockClient, unit) pool \<Rightarrow> (mockClient, unit) pool" where
  "mock_remove sid p \<equiv> snd (Pool_Remove mock_iface sid p)"

definition mock_pool1 :: "(mockClient, unit) pool" where
  "mock_pool1 = mock_add ''a'' (NewPool None True)"

definition mock_pool3 :: "(mockClient, unit) pool" where
  "mock_pool3 = mock_add ''a'' (mock_remove ''a'' mock_pool1)"

lemma mock_pool1_reach: "pool_reach mock_iface True mock_pool1"
  unfolding mock_pool1_def by (intro pool_reach.step [OF _ pool_step.adds] pool_reach.start)

lemma mock_pool3_reach: "pool_reach mock_iface True mock_pool3"
  unfolding mock_pool3_def
  by (rule pool_reach.step [OF _ pool_step.adds], rule pool_reach.step [OF _ pool_step.removes])
    (rule mock_pool1_reach)

lemmas pool_eval = mock_pool1_def mock_pool3_def Pool_add_def Pool_Remove_def Pool_notify_def
  Pool_Get_def Pool_List_def Pool_Len_def NewPool_def newSession_def setStatus_def
  mock_factory_def mock_iface_def Pool_runLoop_exit_def session_count_def map_filter_simps

section \<open>Properties\<close>

text \<open>
  C3: in every reachable state of a pool, a session found under an identifier carries that
  identifier, has not been cancelled and is either ready or disconnected (never pending,
  authorizing or in error), it is ready exactly while its event loop runs, and every event loop
  that is still running belongs to a registered session or has had its context cancelled: no
  loop is leaked.
\<close>

theorem pool_lifecycle:
  assumes "pool_reach ifc hk p"
  shows "(Pool_Get sid p = Some s \<longrightarrow> sess_ID s = sid \<and> \<not> sess_cancelled s \<and>
      (\<exists>r. go_get (sessions p) sid = Some r \<and>
         sess_Status s = (if r \<in> set (loops p) then StatusReady else StatusDisconnected))) \<and>
    (r \<in> set (loops p) \<longrightarrow> (\<exists>e. heap p r = Some e \<and>
      (go_get (sessions p) (sess_ID (e_session e)) = Some r \<or> sess_cancelled (e_session e))))"
proof -
  from assms have ok: "pool_ok p" by (rule pool_reach_ok)
  have "sess_ID s = sid \<and> \<not> sess_cancelled s \<and> (\<exists>r. go_get (sessions p) sid = Some r \<and>
      sess_Status s = (if r \<in> set (loops p) then StatusReady else StatusDisconnected))"
    if "Pool_Get sid p = Some s"
    using that by (auto simp: Pool_Get_def entry_ok_def split: option.splits elim!: pool_ok_getD [OF ok])
  moreover have "\<exists>e. heap p r = Some e \<and>
      (go_get (sessions p) (sess_ID (e_session e)) = Some r \<or> sess_cancelled (e_session e))"
    if "r \<in> set (loops p)"
    using that pool_ok_parts(3,5) [OF ok] go_get_Some_iff [OF pool_ok_parts(1) [OF ok]] by blast
  ultimately show ?thesis by blast
qed

theorem pool_lifecycle_witness:
  "pool_reach mock_iface True mock_pool3 \<and> loops mock_pool3 = [1, 0] \<and>
   (\<exists>e. heap mock_pool3 0 = Some e \<and> (go_get (sessions mock_pool3) (sess_ID (e_session e)) = Some 0
      \<or> sess_cancelled (e_session e)))"
proof -
  have "loops mock_pool3 = [1, 0]" by (simp add: pool_eval)
  with pool_lifecycle [OF mock_pool3_reach, of _ _ 0] mock_pool3_reach show ?thesis by auto
qed

text \<open>
  C9: every step of a pool refines the abstract pool its clients rely on: the map from
  identifiers to type and status changes only by adding a ready session under a free
  identifier, by turning a ready session into a disconnected one, or by removing one.
\<close>

theorem pool_refines_spec:
  "pool_reach ifc hk p \<Longrightarrow> pool_step ifc p p' \<Longrightarrow> pool_spec_step (pool_view p) (pool_view p')"
  by (rule pool_step_refines [OF _ pool_reach_ok])

theorem pool_refines_spec_witness:
  "pool_spec_step (pool_view mock_pool1) (pool_view (mock_remove ''a'' mock_pool1)) \<and>
   pool_view mock_pool1 ''a'' = Some (TypeAccount, StatusReady) \<and>
   pool_view (mock_remove ''a'' mock_pool1) ''a'' = None"
proof -
  have "pool_view mock_pool1 ''a'' = Some (TypeAccount, StatusReady)"
    "pool_view (mock_remove ''a'' mock_pool1) ''a'' = None"
    by (simp_all add: pool_view_def pool_eval)
  with pool_refines_spec [OF mock_pool1_reach pool_step.removes] show ?thesis by blast
qed

text \<open>
  The event loop of a removed session may return late, even after the same identifier has
  been added again. Its return changes no session, no listing and notifies no hook: the pointer
  comparison in \<open>runLoop\<close> protects the new session.
\<close>

theorem stale_loop_exit_harmless:
  assumes "pool_reach ifc hk p" and "heap p r = Some e" and "sess_cancelled (e_session e)"
  shows "Pool_List (Pool_runLoop_exit now r p) = Pool_List p \<and>
    Pool_Get sid (Pool_runLoop_exit now r p) = Pool_Get sid p \<and>
    hook_calls (Pool_runLoop_exit now r p) = hook_calls p"
proof -
  have "go_get (sessions p) (sess_ID (e_session e)) \<noteq> Some r"
    using assms by (metis entry_ok_def option.inject pool_ok_getD pool_reach_ok)
  from pool_exit_orphan [OF assms(2) this] show ?thesis
    by (simp add: Pool_List_def Pool_Get_def cong: option.case_cong)
qed

theorem stale_loop_exit_harmless_witness:
  "map sess_Status (Pool_List mock_pool3) = [StatusReady] \<and>
   map sess_Status (Pool_List (Pool_runLoop_exit 9 0 mock_pool3)) = [StatusReady]"
proof -
  obtain e where "heap mock_pool3 0 = Some e" "sess_cancelled (e_session e)"
    by (simp add: pool_eval)
  from stale_loop_exit_harmless [OF mock_pool3_reach this, of 9]
  show ?thesis by (simp add: pool_eval)
qed

text \<open>
  \<open>add\<close> on every branch. An identifier in use is refused and nothing changes; a factory
  failure is wrapped and no session appears; otherwise the session is found ready under its
  identifier, every other lookup is unchanged and the pool has grown by one.
\<close>

theorem Pool_add_outcomes:
  assumes "pool_reach ifc hk p" and "Pool_add factory now sid phone token t p = (err, p')"
  shows "case Pool_Get sid p of
      Some _ \<Rightarrow> err = Some (Errorf ''session %q already exists'' [sid]) \<and> p' = p
    | None \<Rightarrow> (case factory sid phone token of
        Inl e \<Rightarrow> err = Some (Wrapf ''init tdlib for session %q: %w'' [sid] e) \<and>
          Pool_List p' = Pool_List p
      | Inr c \<Rightarrow> err = None \<and> Pool_Get sid p' = Some (added_session now sid t) \<and>
          (\<forall>a. a \<noteq> sid \<longrightarrow> Pool_Get a p' = Pool_Get a p) \<and> Pool_Len p' = Suc (Pool_Len p))"
proof -
  from assms(1) have ok: "pool_ok p" by (rule pool_reach_ok)
  have get: "Pool_Get sid p = None \<longleftrightarrow> go_get (sessions p) sid = None"
    using pool_view_None [OF ok] by (simp add: pool_view_def)
  have fresh: "go_get (sessions p) a \<noteq> Some (next_ref p)" for a
    using pool_ok_fresh_ref [OF ok] go_get_in_set by metis
  show ?thesis
  proof (cases "Pool_Get sid p")
    case new: None
    with get have "go_get (sessions p) sid = None" by simp
    with assms(2) new fresh show ?thesis
      by (cases "factory sid phone token")
        (auto simp: Pool_add_fails Pool_add_succeeds Pool_Get_def Pool_List_def Pool_Len_def
          length_go_put_new split: option.splits)
  next
    case (Some s)
    with get assms(2) show ?thesis by (auto simp: Pool_add_def split: option.splits)
  qed
qed

theorem Pool_add_outcomes_witness:
  "Pool_Get ''b'' (mock_add ''b'' mock_pool1) = Some (added_session int ''b'' TypeAccount) \<and>
   Pool_Len (mock_add ''b'' mock_pool1) = 2"
proof -
  have "Pool_Get ''b'' mock_pool1 = None" "Pool_Len mock_pool1 = 1" by (simp_all add: pool_eval)
  then show ?thesis
    using Pool_add_outcomes [OF mock_pool1_reach prod.collapse [symmetric],
        of mock_factory int "''b''" "''+1''" "[]" TypeAccount]
    by (simp add: mock_factory_def)
qed

text \<open>
  \<open>Remove\<close> on every branch. An unknown identifier is an error and nothing changes;
  otherwise the session is gone, every other lookup is unchanged, the pool has shrunk by one,
  and the removed entry has its context cancelled and its client closed. It never panics.
\<close>

theorem Pool_Remove_outcomes:
  assumes "pool_reach ifc hk p" and "Pool_Remove ifc sid p = (err, p')"
  shows "case go_get (sessions p) sid of
      None \<Rightarrow> err = Some (Errorf ''session %q not found'' [sid]) \<and> p' = p
    | Some r \<Rightarrow> err = None \<and> Pool_Get sid p' = None \<and>
        (\<forall>a. a \<noteq> sid \<longrightarrow> Pool_Get a p' = Pool_Get a p) \<and> Suc (Pool_Len p') = Pool_Len p \<and>
        (\<exists>e e'. heap p r = Some e \<and> heap p' r = Some e' \<and> sess_cancelled (e_session e') \<and>
          e_client e' = c_Close ifc (e_client e))"
proof (cases "go_get (sessions p) sid")
  case None
  with assms(2) show ?thesis by (simp add: Pool_Remove_def)
next
  case (Some r)
  from assms(1) have ok: "pool_ok p" by (rule pool_reach_ok)
  from ok Some obtain e where e: "heap p r = Some e" by (rule pool_ok_getD)
  have other: "a \<noteq> sid \<Longrightarrow> go_get (sessions p) a \<noteq> Some r" for a
    using pool_ok_inj [OF ok] go_get_in_set Some by metis
  have "Suc (length (go_del sid (sessions p))) = length (sessions p)"
    using Some pool_ok_parts(1) [OF ok] by (rule length_go_del [rotated])
  with assms(2) Some e other show ?thesis
    by (auto simp: Pool_Remove_def Let_def Pool_Get_def Pool_Len_def split: option.splits)
qed

theorem Pool_Remove_outcomes_witness:
  "Pool_Get ''a'' (mock_remove ''a'' mock_pool1) = None \<and>
   map_option (mock_closed \<circ> e_client) (heap (mock_remove ''a'' mock_pool1) 0) = Some True"
proof -
  have r: "go_get (sessions mock_pool1) ''a'' = Some 0" by (simp add: pool_eval)
  have p: "Pool_Remove mock_iface ''a'' mock_pool1 = (None, mock_remove ''a'' mock_pool1)"
    by (simp add: pool_eval)
  from Pool_Remove_outcomes [OF mock_pool1_reach p] show ?thesis
    by (auto simp: r mock_iface_def)
qed

end
