(* ===== verification/TDLib_Client.thy ===== *)
theory TDLib_Client
  imports Session_Pool
begin

text \<open>
  The TDLib wrapper \<open>internal/tdlib/client.go\<close> and the client factory of the worker
  (\<open>cmd/worker/main.go\<close>). TDLib itself (go-tdlib) is not part of the repository: \<open>'td\<close> is the
  type of its handles, the constructor of a bot client is a parameter, and what the library does
  to an account client (authorization state events, the return of \<open>NewClient\<close>, taking codes
  and passwords from its channels) are steps of the state machine of the last section.
\<close>

section \<open>Channels\<close>

text \<open>
  A buffered Go channel of strings. go-tdlib documents the channels of its client authorizer as
  buffered; their capacity is \<open>Suc cap\<close>. A non-blocking send (\<open>select\<close> with a \<open>default\<close>)
  succeeds when the buffer has room, takes the default when it is full, and panics when the
  channel is closed.
\<close>

record chan =
  ch_cap :: nat
  ch_buf :: "string list"
  ch_closed :: bool

definition fresh_chan :: "nat \<Rightarrow> chan" where
  "fresh_chan cap = \<lparr>ch_cap = Suc cap, ch_buf = [], ch_closed = False\<rparr>"

datatype send_result = Sent chan | Full | SendPanic

definition try_send :: "string \<Rightarrow> chan \<Rightarrow> send_result" where
  "try_send v ch =
     (if ch_closed ch then SendPanic
      else if length (ch_buf ch) < ch_cap ch then Sent (ch\<lparr>ch_buf := ch_buf ch @ [v]\<rparr>)
      else Full)"

definition chan_ok :: "chan \<Rightarrow> bool" where
  "chan_ok ch \<longleftrightarrow> length (ch_buf ch) \<le> ch_cap ch"

lemma try_send_Sent:
  "try_send v ch = Sent ch' \<longleftrightarrow> \<not> ch_closed ch \<and> length (ch_buf ch) < ch_cap ch \<and>
     ch' = ch\<lparr>ch_buf := ch_buf ch @ [v]\<rparr>"
  by (auto simp: try_send_def)

lemma try_send_ok: "try_send v ch = Sent ch' \<Longrightarrow> chan_ok ch'"
  by (auto simp: try_send_Sent chan_ok_def)

section \<open>Paths\<close>

text \<open>
  \<open>filepath.Join\<close> on Unix: empty elements are ignored, the rest are joined with slashes and the
  result is cleaned lexically (\<open>filepath.Clean\<close>): empty and \<open>.\<close> components disappear and
  \<open>..\<close> removes the component before it.
\<close>

fun split_slash :: "string \<Rightarrow> string \<Rightarrow> string list" where
  "split_slash acc [] = [rev acc]"
| "split_slash acc (c # cs) =
     (if c = CHR ''/'' then rev acc # split_slash [] cs else split_slash (c # acc) cs)"

fun clean_parts :: "bool \<Rightarrow> string list \<Rightarrow> string list \<Rightarrow> string list" where
  "clean_parts rooted out [] = rev out"
| "clean_parts rooted out (p # ps) =
     (if p = [] \<or> p = ''.'' then clean_parts rooted out ps
      else if p = ''..'' then
        (case out of
           q # qs \<Rightarrow> if q = ''..'' then clean_parts rooted (p # out) ps else clean_parts rooted qs ps
         | [] \<Rightarrow> if rooted then clean_parts rooted [] ps else clean_parts rooted [p] ps)
      else clean_parts rooted (p # out) ps)"

fun join_slash :: "string list \<Rightarrow> string" where
  "join_slash [] = []"
| "join_slash [p] = p"
| "join_slash (p # ps) = p @ CHR ''/'' # join_slash ps"

definition filepath_Clean :: "string \<Rightarrow> string" where
  "filepath_Clean path =
     (let rooted = (path \<noteq> [] \<and> hd path = CHR ''/'');
          body = join_slash (clean_parts rooted [] (split_slash [] path))
      in if rooted then CHR ''/'' # body else if body = [] then ''.'' else body)"

definition filepath_Join :: "string \<Rightarrow> string \<Rightarrow> string" where
  "filepath_Join a b =
     (let elems = filter (\<lambda>e. e \<noteq> []) [a, b]
      in if elems = [] then [] else filepath_Clean (join_slash elems))"

section \<open>Configuration and client\<close>

record SessionConfig =
  cfg_SessionID :: string
  cfg_PhoneNumber :: string
  cfg_BotToken :: string
  cfg_APIID :: int
  cfg_APIHash :: string
  cfg_DataDir :: string
  cfg_LogLevel :: int
  cfg_UseTestDC :: bool

datatype AuthState =
    AuthStateWaitPhone
  | AuthStateWaitCode
  | AuthStateWaitPassword
  | AuthStateReady
  | AuthStateError
  | AuthStateClosed

fun AuthState_string :: "AuthState \<Rightarrow> string" where
  "AuthState_string AuthStateWaitPhone = ''waiting_phone''"
| "AuthState_string AuthStateWaitCode = ''waiting_code''"
| "AuthState_string AuthStateWaitPassword = ''waiting_password''"
| "AuthState_string AuthStateReady = ''ready''"
| "AuthState_string AuthStateError = ''error''"
| "AuthState_string AuthStateClosed = ''closed''"

text \<open>The fields of \<open>SetTdlibParametersRequest\<close> the wrapper sets.\<close>

record TdlibParams =
  UseTestDc :: bool
  DatabaseDirectory :: string
  FilesDirectory :: string
  UseFileDatabase :: bool
  UseChatInfoDatabase :: bool
  UseMessageDatabase :: bool
  UseSecretChats :: bool
  ApiId :: int
  ApiHash :: string
  SystemLanguageCode :: string
  DeviceModel :: string
  ApplicationVersion :: string

definition buildParams :: "SessionConfig \<Rightarrow> string \<Rightarrow> TdlibParams" where
  "buildParams cfg filesDir =
     \<lparr>UseTestDc = cfg_UseTestDC cfg, DatabaseDirectory = filesDir, FilesDirectory = filesDir,
      UseFileDatabase = True, UseChatInfoDatabase = True, UseMessageDatabase = True,
      UseSecretChats = False, ApiId = cfg_APIID cfg, ApiHash = cfg_APIHash cfg,
      SystemLanguageCode = ''en'', DeviceModel = ''TGPlane'', ApplicationVersion = ''0.1.0''\<rparr>"

text \<open>
  The client. \<open>td_phoneCh\<close> is the phone channel of the authorizer; \<open>td_pending\<close> says that the
  goroutine running \<open>NewClient\<close> has not returned, \<open>td_monitoring\<close> that the one reading the state
  channel has not.
\<close>

record 'td Client =
  td_id :: string
  td_params :: TdlibParams
  td_tdlib :: "'td option"
  td_authState :: AuthState
  td_authErr :: "error option"
  td_codeCh :: "chan option"
  td_passwordCh :: "chan option"
  td_phoneCh :: "chan option"
  td_pending :: bool
  td_monitoring :: bool

section \<open>Construction\<close>

type_synonym 'td new_bot_client = "TdlibParams \<Rightarrow> string \<Rightarrow> int \<Rightarrow> error + 'td"

definition newBot :: "'td new_bot_client \<Rightarrow> SessionConfig \<Rightarrow> error + 'td Client" where
  "newBot newClient cfg =
     (let filesDir = filepath_Join (cfg_DataDir cfg) (cfg_SessionID cfg);
          params = buildParams cfg filesDir
      in case newClient params (cfg_BotToken cfg) (cfg_LogLevel cfg) of
           Inl err \<Rightarrow> Inl (Wrapf ''create bot client for session %s: %w'' [cfg_SessionID cfg] err)
         | Inr td \<Rightarrow>
             Inr \<lparr>td_id = cfg_SessionID cfg, td_params = params, td_tdlib = Some td,
                  td_authState = AuthStateReady, td_authErr = None, td_codeCh = None,
                  td_passwordCh = None, td_phoneCh = None, td_pending = False, td_monitoring = False\<rparr>)"

definition newAccount :: "nat \<Rightarrow> SessionConfig \<Rightarrow> error + 'td Client" where
  "newAccount cap cfg =
     (let filesDir = filepath_Join (cfg_DataDir cfg) (cfg_SessionID cfg);
          params = buildParams cfg filesDir
      in Inr \<lparr>td_id = cfg_SessionID cfg, td_params = params, td_tdlib = None,
              td_authState = AuthStateWaitPhone, td_authErr = None,
              td_codeCh = Some (fresh_chan cap), td_passwordCh = Some (fresh_chan cap),
              td_phoneCh = Some ((fresh_chan cap)\<lparr>ch_buf := [cfg_PhoneNumber cfg]\<rparr>),
              td_pending = True, td_monitoring = True\<rparr>)"

text \<open>
  The two goroutines that \<open>newAccount\<close> starts. The first ends with the return of \<open>NewClient\<close>, with an
  error or a handle; the second runs its switch for every state the library reports.
\<close>

definition authorize_goroutine :: "error + 'td \<Rightarrow> 'td Client \<Rightarrow> 'td Client" where
  "authorize_goroutine res c =
     (case res of
        Inl err \<Rightarrow> c\<lparr>td_authState := AuthStateError, td_authErr := Some err, td_pending := False\<rparr>
      | Inr tdlibClient \<Rightarrow> c\<lparr>td_tdlib := Some tdlibClient, td_authState := AuthStateReady, td_pending := False\<rparr>)"

datatype authorization_state =
    TypeAuthorizationStateWaitCode
  | TypeAuthorizationStateWaitPassword
  | TypeAuthorizationStateReady
  | OtherAuthorizationState string

fun monitor_state :: "authorization_state \<Rightarrow> 'td Client \<Rightarrow> 'td Client" where
  "monitor_state TypeAuthorizationStateWaitCode c = c\<lparr>td_authState := AuthStateWaitCode\<rparr>"
| "monitor_state TypeAuthorizationStateWaitPassword c = c\<lparr>td_authState := AuthStateWaitPassword\<rparr>"
| "monitor_state TypeAuthorizationStateReady c = c\<lparr>td_authState := AuthStateReady\<rparr>"
| "monitor_state (OtherAuthorizationState t) c = c"

definition td_New :: "'td new_bot_client \<Rightarrow> nat \<Rightarrow> SessionConfig \<Rightarrow> error + 'td Client" where
  "td_New newClient cap cfg =
     (if cfg_BotToken cfg \<noteq> [] then newBot newClient cfg else newAccount cap cfg)"

section \<open>Methods\<close>

definition td_AuthState :: "'td Client \<Rightarrow> string" where
  "td_AuthState c = AuthState_string (td_authState c)"

definition td_AuthError :: "'td Client \<Rightarrow> error option" where
  "td_AuthError c = td_authErr c"

definition td_SendCode :: "string \<Rightarrow> 'td Client \<Rightarrow> error option \<times> 'td Client" where
  "td_SendCode code c =
     (case td_codeCh c of
        None \<Rightarrow> (Some (Errorf ''not a user account session'' []), c)
      | Some ch \<Rightarrow>
          (if td_authState c \<noteq> AuthStateWaitCode
           then (Some (Errorf ''session not waiting for code (state: %s)'' [td_AuthState c]), c)
           else (case try_send code ch of
                   Sent ch' \<Rightarrow> (None, c\<lparr>td_codeCh := Some ch'\<rparr>)
                 | Full \<Rightarrow> (Some (Errorf ''code channel is full or closed'' []), c)
                 | SendPanic \<Rightarrow> (Some (Panic ''send on closed channel''), c))))"

definition td_SendPassword :: "string \<Rightarrow> 'td Client \<Rightarrow> error option \<times> 'td Client" where
  "td_SendPassword password c =
     (case td_passwordCh c of
        None \<Rightarrow> (Some (Errorf ''not a user account session'' []), c)
      | Some ch \<Rightarrow>
          (if td_authState c \<noteq> AuthStateWaitPassword
           then (Some (Errorf ''session not waiting for password (state: %s)'' [td_AuthState c]), c)
           else (case try_send password ch of
                   Sent ch' \<Rightarrow> (None, c\<lparr>td_passwordCh := Some ch'\<rparr>)
                 | Full \<Rightarrow> (Some (Errorf ''password channel is full or closed'' []), c)
                 | SendPanic \<Rightarrow> (Some (Panic ''send on closed channel''), c))))"

text \<open>\<open>Send\<close> and \<open>GetMe\<close>; \<open>getMe\<close> is the library call both make.\<close>

definition td_Send :: "('td \<Rightarrow> error + 'r) \<Rightarrow> 'req \<Rightarrow> 'td Client \<Rightarrow> error + 'r" where
  "td_Send getMe req c =
     (case td_tdlib c of
        None \<Rightarrow> Inl (Errorf ''client not yet authorized'' [])
      | Some cl \<Rightarrow> getMe cl)"

definition td_GetMe :: "('td \<Rightarrow> error + 'r) \<Rightarrow> 'td Client \<Rightarrow> error + 'r" where
  "td_GetMe getMe c =
     (case td_tdlib c of
        None \<Rightarrow> Inl (Errorf ''client not yet authorized'' [])
      | Some cl \<Rightarrow> getMe cl)"

definition td_Close :: "('td \<Rightarrow> 'td) \<Rightarrow> 'td Client \<Rightarrow> 'td Client" where
  "td_Close close c =
     (case td_tdlib c of
        None \<Rightarrow> c
      | Some cl \<Rightarrow> c\<lparr>td_tdlib := Some (close cl)\<rparr>)"

definition td_Listener :: "('td \<Rightarrow> 'l option) \<Rightarrow> 'td Client \<Rightarrow> 'l option" where
  "td_Listener getListener c =
     (case td_tdlib c of
        None \<Rightarrow> None
      | Some cl \<Rightarrow> getListener cl)"

text \<open>The client as the interface value the pool holds.\<close>

definition tdlib_iface :: "('td \<Rightarrow> 'td) \<Rightarrow> 'td Client TDClient" where
  "tdlib_iface close =
     \<lparr>c_ID = td_id, c_Close = td_Close close, c_SendCode = td_SendCode,
      c_SendPassword = td_SendPassword, c_AuthState = td_AuthState\<rparr>"

text \<open>The factory the worker passes to its pool, from the TDLib section of its configuration.\<close>

record TDLibConfig =
  APIID :: int
  APIHash :: string
  DataDir :: string
  LogLevel :: int
  UseTestDC :: bool

definition worker_factory ::
  "'td new_bot_client \<Rightarrow> nat \<Rightarrow> TDLibConfig \<Rightarrow> 'td Client ClientFactory" where
  "worker_factory newClient cap cfg sessID phone token =
     td_New newClient cap
       \<lparr>cfg_SessionID = sessID, cfg_PhoneNumber = phone, cfg_BotToken = token,
        cfg_APIID = APIID cfg, cfg_APIHash = APIHash cfg, cfg_DataDir = DataDir cfg,
        cfg_LogLevel = LogLevel cfg, cfg_UseTestDC = UseTestDC cfg\<rparr>"

interpretation tdlib: td_client "tdlib_iface close" "worker_factory newClient cap cfg"
  for close :: "'td \<Rightarrow> 'td" and newClient :: "'td new_bot_client" and cap cfg
  by unfold_locales
    (auto simp: tdlib_iface_def worker_factory_def td_New_def newBot_def newAccount_def Let_def
      td_Close_def td_SendCode_def td_SendPassword_def
      split: if_splits sum.splits option.splits send_result.splits)

section \<open>The event loop\<close>

text \<open>
  \<open>RunEventLoop\<close> first polls until the client is authorized. One round of the poll sees whether
  the TDLib handle is set and the authorization state, and then waits on the context or the
  timer; the last component says whether the context won. A list of rounds is what the loop has
  seen so far: when it is used up the loop is still polling.
\<close>

datatype wait_result = Polling | GaveUp | Authorized

fun wait_authorized :: "(bool \<times> AuthState \<times> bool) list \<Rightarrow> wait_result" where
  "wait_authorized [] = Polling"
| "wait_authorized ((has_handle, state, cancelled) # rounds) =
     (if has_handle then Authorized
      else if state = AuthStateError \<or> state = AuthStateClosed then GaveUp
      else if cancelled then GaveUp
      else wait_authorized rounds)"

text \<open>Then it forwards updates until the context is done or the listener is closed.\<close>

datatype 'u loop_event =
    CtxDone
  | is_update: ListenerUpdate (the_update: 'u)
  | ListenerClosed

fun forward_updates :: "'u loop_event list \<Rightarrow> 'u list \<times> bool" where
  "forward_updates [] = ([], False)"
| "forward_updates (CtxDone # evs) = ([], True)"
| "forward_updates (ListenerClosed # evs) = ([], True)"
| "forward_updates (ListenerUpdate u # evs) =
     (let (us, returned) = forward_updates evs in (u # us, returned))"

text \<open>The updates handed to the handler, and whether the loop has returned.\<close>

definition RunEventLoop ::
  "(bool \<times> AuthState \<times> bool) list \<Rightarrow> bool \<Rightarrow> 'u loop_event list \<Rightarrow> 'u list \<times> bool" where
  "RunEventLoop rounds has_listener evs =
     (case wait_authorized rounds of
        Polling \<Rightarrow> ([], False)
      | GaveUp \<Rightarrow> ([], True)
      | Authorized \<Rightarrow> if has_listener then forward_updates evs else ([], True))"

lemma forward_updates_eq:
  "forward_updates evs =
     (map the_update (takeWhile is_update evs), list_ex (\<lambda>e. \<not> is_update e) evs)"
  by (induction evs rule: forward_updates.induct) auto

section \<open>The authorization state machine\<close>

text \<open>
  What can happen to a client after its construction: its methods, the goroutines of \<open>newAccount\<close>,
  each as long as it runs, and the library, which takes codes and passwords from the channels and
  closes them. The two goroutines are not ordered by the code: a state that the library reported
  before \<open>NewClient\<close> returned may be read after it.
\<close>

inductive td_step :: "('td \<Rightarrow> 'td) \<Rightarrow> 'td Client \<Rightarrow> 'td Client \<Rightarrow> bool" for close where
  code_sent: "td_step close c (snd (td_SendCode code c))"
| password_sent: "td_step close c (snd (td_SendPassword password c))"
| client_closed: "td_step close c (td_Close close c)"
| new_client_returns: "td_pending c \<Longrightarrow> td_step close c (authorize_goroutine res c)"
| state_reported: "td_monitoring c \<Longrightarrow> td_step close c (monitor_state state c)"
| monitor_returns: "td_monitoring c \<Longrightarrow> td_codeCh c = Some ch \<Longrightarrow> ch_closed ch \<Longrightarrow> td_step close c (c\<lparr>td_monitoring := False\<rparr>)"
| code_taken: "td_codeCh c = Some ch \<Longrightarrow> ch_buf ch = v # vs \<Longrightarrow>
    td_step close c (c\<lparr>td_codeCh := Some (ch\<lparr>ch_buf := vs\<rparr>)\<rparr>)"
| password_taken: "td_passwordCh c = Some ch \<Longrightarrow> ch_buf ch = v # vs \<Longrightarrow>
    td_step close c (c\<lparr>td_passwordCh := Some (ch\<lparr>ch_buf := vs\<rparr>)\<rparr>)"
| channels_closed: "td_codeCh c = Some ch \<Longrightarrow> td_passwordCh c = Some ch' \<Longrightarrow>
    td_step close c (c\<lparr>td_codeCh := Some (ch\<lparr>ch_closed := True\<rparr>),
      td_passwordCh := Some (ch'\<lparr>ch_closed := True\<rparr>)\<rparr>)"

inductive td_reach :: "('td \<Rightarrow> 'td) \<Rightarrow> 'td new_bot_client \<Rightarrow> nat \<Rightarrow> SessionConfig \<Rightarrow> 'td Client \<Rightarrow> bool"
  for close newClient cap cfg where
  start: "td_New newClient cap cfg = Inr c \<Longrightarrow> td_reach close newClient cap cfg c"
| step: "td_reach close newClient cap cfg c \<Longrightarrow> td_step close c c' \<Longrightarrow>
    td_reach close newClient cap cfg c'"

text \<open>
  A bot has no channels, is ready and holds a handle; an account has both channels, within their
  capacity. A client that recorded an error holds no handle, and a handle is only there once
  \<open>NewClient\<close> has returned.
\<close>

definition td_ok :: "nat \<Rightarrow> SessionConfig \<Rightarrow> 'td Client \<Rightarrow> bool" where
  "td_ok cap cfg c \<longleftrightarrow>
     td_id c = cfg_SessionID cfg \<and>
     td_params c = buildParams cfg (filepath_Join (cfg_DataDir cfg) (cfg_SessionID cfg)) \<and>
     td_authState c \<noteq> AuthStateClosed \<and>
     (td_authErr c \<noteq> None \<longrightarrow> td_tdlib c = None \<and> \<not> td_pending c) \<and>
     (td_tdlib c \<noteq> None \<longrightarrow> \<not> td_pending c) \<and>
     (if cfg_BotToken cfg \<noteq> []
      then td_codeCh c = None \<and> td_passwordCh c = None \<and> td_tdlib c \<noteq> None \<and>
        td_authState c = AuthStateReady \<and> td_authErr c = None \<and> \<not> td_monitoring c \<and> \<not> td_pending c
      else (\<exists>ch. td_codeCh c = Some ch \<and> ch_cap ch = Suc cap \<and> chan_ok ch) \<and>
        (\<exists>ch. td_passwordCh c = Some ch \<and> ch_cap ch = Suc cap \<and> chan_ok ch))"

lemma td_ok_New: "td_New newClient cap cfg = Inr c \<Longrightarrow> td_ok cap cfg c"
  by (auto simp: td_New_def newBot_def newAccount_def td_ok_def Let_def fresh_chan_def chan_ok_def
      split: if_splits sum.splits)

lemma td_ok_SendCode: "td_ok cap cfg c \<Longrightarrow> td_ok cap cfg (snd (td_SendCode code c))"
  by (auto simp: td_ok_def td_SendCode_def split: option.splits send_result.splits if_splits
      simp: try_send_Sent chan_ok_def)

lemma td_ok_SendPassword: "td_ok cap cfg c \<Longrightarrow> td_ok cap cfg (snd (td_SendPassword password c))"
  by (auto simp: td_ok_def td_SendPassword_def split: option.splits send_result.splits if_splits
      simp: try_send_Sent chan_ok_def)

lemma td_ok_step: "td_step close c c' \<Longrightarrow> td_ok cap cfg c \<Longrightarrow> td_ok cap cfg c'"
proof (induction rule: td_step.induct)
  case (client_closed c)
  then show ?case by (auto simp: td_ok_def td_Close_def split: option.splits if_splits)
next
  case (new_client_returns c res)
  then show ?case by (auto simp: td_ok_def authorize_goroutine_def split: sum.splits if_splits)
next
  case (state_reported c state)
  then show ?case by (cases state) (auto simp: td_ok_def split: if_splits)
qed (auto simp: td_ok_SendCode td_ok_SendPassword, auto simp: td_ok_def chan_ok_def split: if_splits)

lemma td_reach_ok: "td_reach close newClient cap cfg c \<Longrightarrow> td_ok cap cfg c"
  by (induction rule: td_reach.induct) (auto intro: td_ok_New td_ok_step)

section \<open>Session directories\<close>

text \<open>A name that is one path component: what the UUIDs the services generate are.\<close>

definition plain_name :: "string \<Rightarrow> bool" where
  "plain_name s \<longleftrightarrow> s \<noteq> [] \<and> s \<noteq> ''.'' \<and> s \<noteq> ''..'' \<and> CHR ''/'' \<notin> set s"

text \<open>What \<open>filepath.Join\<close> puts before a plain name.\<close>

definition dir_prefix :: "string \<Rightarrow> string" where
  "dir_prefix d =
     (if d = [] then []
      else let rooted = (hd d = CHR ''/''); ps = clean_parts rooted [] (split_slash [] d);
               body = (if ps = [] then [] else join_slash ps @ ''/'')
           in if rooted then CHR ''/'' # body else body)"

lemma split_slash_plain: "CHR ''/'' \<notin> set s \<Longrightarrow> split_slash acc s = [rev acc @ s]"
  by (induction s arbitrary: acc) auto

lemma split_slash_append:
  "split_slash acc (d @ CHR ''/'' # s) = split_slash acc d @ split_slash [] s"
  by (induction d arbitrary: acc) auto

lemma clean_parts_snoc:
  "plain_name s \<Longrightarrow> clean_parts rooted out (ps @ [s]) = clean_parts rooted out ps @ [s]"
  by (induction rooted out ps rule: clean_parts.induct) (auto simp: plain_name_def split: list.splits)

lemma join_slash_snoc:
  "join_slash (ps @ [s]) = (if ps = [] then s else join_slash ps @ CHR ''/'' # s)"
  by (induction ps rule: join_slash.induct) auto

lemma filepath_Join_plain:
  assumes "plain_name s"
  shows "filepath_Join d s = dir_prefix d @ s"
proof (cases "d = []")
  case True
  from assms have "split_slash [] s = [s]" "hd s \<noteq> CHR ''/''"
    by (auto simp: plain_name_def split_slash_plain dest: hd_in_set)
  with True assms show ?thesis
    by (simp add: filepath_Join_def dir_prefix_def filepath_Clean_def plain_name_def)
next
  case False
  from assms have "split_slash [] (d @ CHR ''/'' # s) = split_slash [] d @ [s]"
    by (simp add: split_slash_append split_slash_plain plain_name_def)
  with False assms show ?thesis
    by (auto simp: filepath_Join_def dir_prefix_def filepath_Clean_def Let_def
        clean_parts_snoc join_slash_snoc plain_name_def)
qed

section \<open>Properties\<close>

text \<open>
  Submitting an authentication code succeeds exactly when the session is a user account
  that waits for a code and the library's channel is open and has room; the code is then queued
  behind the codes before it. On every refusal the client is unchanged and the error says which
  condition failed; a closed channel is a panic and not the error the message announces.
\<close>

theorem SendCode_outcomes:
  "td_SendCode code c =
     (case td_codeCh c of
        None \<Rightarrow> (Some (Errorf ''not a user account session'' []), c)
      | Some ch \<Rightarrow>
          (if td_authState c = AuthStateWaitCode \<and> \<not> ch_closed ch \<and> length (ch_buf ch) < ch_cap ch
           then (None, c\<lparr>td_codeCh := Some (ch\<lparr>ch_buf := ch_buf ch @ [code]\<rparr>)\<rparr>)
           else (Some (if td_authState c \<noteq> AuthStateWaitCode
                       then Errorf ''session not waiting for code (state: %s)'' [td_AuthState c]
                       else if ch_closed ch then Panic ''send on closed channel''
                       else Errorf ''code channel is full or closed'' []), c)))"
  by (simp add: td_SendCode_def try_send_def split: option.splits)

lemma SendPassword_outcomes:
  "td_SendPassword password c =
     (case td_passwordCh c of
        None \<Rightarrow> (Some (Errorf ''not a user account session'' []), c)
      | Some ch \<Rightarrow>
          (if td_authState c = AuthStateWaitPassword \<and> \<not> ch_closed ch \<and> length (ch_buf ch) < ch_cap ch
           then (None, c\<lparr>td_passwordCh := Some (ch\<lparr>ch_buf := ch_buf ch @ [password]\<rparr>)\<rparr>)
           else (Some (if td_authState c \<noteq> AuthStateWaitPassword
                       then Errorf ''session not waiting for password (state: %s)'' [td_AuthState c]
                       else if ch_closed ch then Panic ''send on closed channel''
                       else Errorf ''password channel is full or closed'' []), c)))"
  by (simp add: td_SendPassword_def try_send_def split: option.splits)

text \<open>
  C26: The authorization of a TDLib client. In every state that a client reaches, in whatever
  order its methods, its goroutines and the library act: it has the identifier and the TDLib
  parameters of its configuration, with its own directory; a bot (non-empty token) is ready, holds
  its handle, has no authentication channels and refuses every code and password; an account has both
  channels, filled at most to their capacity, accepts a code exactly while it waits for a code and a
  password exactly while it waits for a password, if the channel is open and has room, and what it
  accepts is queued behind what is there; a refusal changes nothing. An account whose authorization failed
  holds no handle, and the state \<open>closed\<close> that the event loop tests for is never entered.
\<close>

theorem td_client_invariant:
  assumes "td_reach close newClient cap cfg c"
  shows "td_id c = cfg_SessionID cfg \<and>
    td_params c = buildParams cfg (filepath_Join (cfg_DataDir cfg) (cfg_SessionID cfg)) \<and>
    td_authState c \<noteq> AuthStateClosed \<and> (td_authErr c \<noteq> None \<longrightarrow> td_tdlib c = None) \<and>
    (if cfg_BotToken cfg \<noteq> []
     then td_codeCh c = None \<and> td_passwordCh c = None \<and> td_tdlib c \<noteq> None \<and> td_AuthState c = ''ready'' \<and>
       fst (td_SendCode v c) \<noteq> None \<and> fst (td_SendPassword v c) \<noteq> None
     else \<exists>cc pc. td_codeCh c = Some cc \<and> td_passwordCh c = Some pc \<and>
       length (ch_buf cc) \<le> Suc cap \<and> length (ch_buf pc) \<le> Suc cap \<and>
       (fst (td_SendCode v c) = None \<longleftrightarrow> td_AuthState c = ''waiting_code'' \<and> \<not> ch_closed cc \<and> length (ch_buf cc) < Suc cap) \<and>
       (fst (td_SendPassword v c) = None \<longleftrightarrow> td_AuthState c = ''waiting_password'' \<and> \<not> ch_closed pc \<and> length (ch_buf pc) < Suc cap) \<and>
       (fst (td_SendCode v c) = None \<longrightarrow> snd (td_SendCode v c) = c\<lparr>td_codeCh := Some (cc\<lparr>ch_buf := ch_buf cc @ [v]\<rparr>)\<rparr>) \<and>
       (fst (td_SendPassword v c) = None \<longrightarrow> snd (td_SendPassword v c) = c\<lparr>td_passwordCh := Some (pc\<lparr>ch_buf := ch_buf pc @ [v]\<rparr>)\<rparr>)) \<and>
    (fst (td_SendCode v c) \<noteq> None \<longrightarrow> snd (td_SendCode v c) = c) \<and> (fst (td_SendPassword v c) \<noteq> None \<longrightarrow> snd (td_SendPassword v c) = c)"
proof -
  have ok: "td_ok cap cfg c" by (rule td_reach_ok [OF assms])
  have states: "td_AuthState c = ''waiting_code'' \<longleftrightarrow> td_authState c = AuthStateWaitCode"
    "td_AuthState c = ''waiting_password'' \<longleftrightarrow> td_authState c = AuthStateWaitPassword"
    by (cases "td_authState c"; simp add: td_AuthState_def)+
  have refused: "fst (td_SendCode v c) \<noteq> None \<longrightarrow> snd (td_SendCode v c) = c" "fst (td_SendPassword v c) \<noteq> None \<longrightarrow> snd (td_SendPassword v c) = c"
    by (auto simp: SendCode_outcomes SendPassword_outcomes split: option.split)
  show ?thesis
  proof (cases "cfg_BotToken cfg \<noteq> []")
    case True
    then show ?thesis using ok refused by (auto simp: td_ok_def td_AuthState_def SendCode_outcomes SendPassword_outcomes)
  next
    case False
    then obtain cc pc where ch: "td_codeCh c = Some cc" "ch_cap cc = Suc cap" "chan_ok cc" "td_passwordCh c = Some pc" "ch_cap pc = Suc cap" "chan_ok pc"
      using ok by (auto simp: td_ok_def)
    then show ?thesis using ok refused False unfolding states
      by (intro conjI) (simp_all add: td_ok_def chan_ok_def SendCode_outcomes SendPassword_outcomes)
  qed
qed

definition example_cfg :: "string \<Rightarrow> SessionConfig" where
  "example_cfg token =
     \<lparr>cfg_SessionID = ''s1'', cfg_PhoneNumber = ''+1'', cfg_BotToken = token, cfg_APIID = 1,
      cfg_APIHash = ''h'', cfg_DataDir = ''./data'', cfg_LogLevel = 1, cfg_UseTestDC = False\<rparr>"

theorem td_client_invariant_witness:
  "\<exists>c :: unit Client. td_reach id (\<lambda>_ _ _. Inr ()) 0 (example_cfg []) c \<and> td_AuthState c = ''waiting_code'' \<and>
     fst (td_SendCode ''12345'' c) = None \<and> fst (td_SendPassword ''secret'' c) \<noteq> None"
proof -
  obtain c0 :: "unit Client" where
    c0: "td_New (\<lambda>_ _ _. Inr ()) 0 (example_cfg []) = Inr c0" "td_monitoring c0" "td_codeCh c0 = Some (fresh_chan 0)"
    by (simp add: td_New_def newAccount_def example_cfg_def Let_def)
  let ?c = "monitor_state TypeAuthorizationStateWaitCode c0"
  have r: "td_reach id (\<lambda>_ _ _. Inr ()) 0 (example_cfg []) ?c"
    by (rule td_reach.step [OF td_reach.start [OF c0(1)] td_step.state_reported [OF c0(2)]])
  have st: "td_AuthState ?c = ''waiting_code''" by (simp add: td_AuthState_def)
  have "cfg_BotToken (example_cfg []) = []" by (simp add: example_cfg_def)
  then have "fst (td_SendCode ''12345'' ?c) = None" "fst (td_SendPassword ''secret'' ?c) \<noteq> None"
    using td_client_invariant [OF r, of "''12345''"] td_client_invariant [OF r, of "''secret''"] st c0(3)
    by (auto simp: fresh_chan_def)
  with r st show ?thesis by blast
qed

text \<open>
  The data directories of two sessions whose identifiers are plain names (no slash, not
  empty, not \<open>.\<close> or \<open>..\<close>) are different whenever the identifiers are, for every configured
  root; each is the cleaned root followed by the identifier.
\<close>

theorem session_dirs_disjoint:
  assumes "plain_name a" and "plain_name b"
  shows "(filepath_Join root a = filepath_Join root b \<longleftrightarrow> a = b) \<and>
    filepath_Join root a = dir_prefix root @ a"
  using assms by (simp add: filepath_Join_plain)

theorem session_dirs_disjoint_witness:
  "filepath_Join ''./data/sessions'' ''s1'' = ''data/sessions/s1'' \<and>
   filepath_Join ''./data/sessions'' ''s1'' \<noteq> filepath_Join ''./data/sessions'' ''s2''"
proof -
  have "plain_name ''s1''" "plain_name ''s2''" by (simp_all add: plain_name_def)
  from session_dirs_disjoint [OF this, of "''./data/sessions''"]
  have "filepath_Join ''./data/sessions'' ''s1'' \<noteq> filepath_Join ''./data/sessions'' ''s2''"
    "filepath_Join ''./data/sessions'' ''s1'' = ''data/sessions/s1''"
    by (blast, simp add: dir_prefix_def)
  then show ?thesis by blast
qed

text \<open>A round of the poll after which the loop polls again.\<close>

definition polls_again :: "bool \<times> AuthState \<times> bool \<Rightarrow> bool" where
  "polls_again = (\<lambda>(has_handle, state, cancelled).
     \<not> has_handle \<and> state \<notin> {AuthStateError, AuthStateClosed} \<and> \<not> cancelled)"

lemma wait_authorized_eq:
  "wait_authorized rounds =
     (case dropWhile polls_again rounds of
        [] \<Rightarrow> Polling
      | round # _ \<Rightarrow> if fst round then Authorized else GaveUp)"
  by (induction rounds rule: wait_authorized.induct) (auto simp: polls_again_def)

text \<open>
  Once authorized, the event loop hands the listener's updates to the handler in order,
  each once, up to the first cancellation or closing of the listener, where it returns; an
  account whose authorization failed never reaches the handler and its loop returns.
\<close>

theorem RunEventLoop_forwards:
  "RunEventLoop rounds has_listener evs =
     (case dropWhile polls_again rounds of
        [] \<Rightarrow> ([], False)
      | round # _ \<Rightarrow>
          if fst round \<and> has_listener
          then (map the_update (takeWhile is_update evs), list_ex (\<lambda>e. \<not> is_update e) evs)
          else ([], True))"
  by (cases "dropWhile polls_again rounds")
    (simp_all add: RunEventLoop_def forward_updates_eq wait_authorized_eq del: dropWhile_eq_Nil_conv)

end
