(* ===== verification/Metrics_Hook.thy ===== *)
theory Metrics_Hook
  imports Session_Pool
begin

text \<open>
  The Prometheus metrics of a node (\<open>internal/metrics/metrics.go\<close>) and the hook that feeds the
  session metrics from the pool (\<open>internal/metrics/session_hook.go\<close>). A gauge is an integer, a
  counter a natural number; the values the program produces are sums of unit steps.
\<close>

section \<open>Metrics\<close>

text \<open>The session, update and subscriber metrics; labels become arguments.\<close>

record metrics =
  SessionsActive :: "sess_type \<times> status \<Rightarrow> int"
  SessionsTotal :: "sess_type \<Rightarrow> nat"
  SessionErrors :: "sess_type \<Rightarrow> nat"

definition no_metrics :: metrics where
  "no_metrics = \<lparr>SessionsActive = (\<lambda>_. 0), SessionsTotal = (\<lambda>_. 0), SessionErrors = (\<lambda>_. 0)\<rparr>"

definition gauge_Inc :: "'l \<Rightarrow> ('l \<Rightarrow> int) \<Rightarrow> 'l \<Rightarrow> int" where
  "gauge_Inc l g = g(l := g l + 1)"

definition gauge_Dec :: "'l \<Rightarrow> ('l \<Rightarrow> int) \<Rightarrow> 'l \<Rightarrow> int" where
  "gauge_Dec l g = g(l := g l - 1)"

definition counter_Inc :: "'l \<Rightarrow> ('l \<Rightarrow> nat) \<Rightarrow> 'l \<Rightarrow> nat" where
  "counter_Inc l c = c(l := Suc (c l))"

section \<open>SessionHook\<close>

fun SessionHook :: "hook_call \<Rightarrow> metrics \<Rightarrow> metrics" where
  "SessionHook (OnAdded t) m =
     m\<lparr>SessionsTotal := counter_Inc t (SessionsTotal m),
       SessionsActive := gauge_Inc (t, StatusAuthorizing) (SessionsActive m)\<rparr>"
| "SessionHook (OnRemoved t finalStatus) m =
     m\<lparr>SessionsActive := gauge_Dec (t, finalStatus) (SessionsActive m)\<rparr>"
| "SessionHook (OnStatusChanged t old new) m =
     m\<lparr>SessionsActive := gauge_Inc (t, new) (gauge_Dec (t, old) (SessionsActive m))\<rparr>"
| "SessionHook (OnError t) m =
     m\<lparr>SessionErrors := counter_Inc t (SessionErrors m)\<rparr>"

interpretation session_hook: status_gauge SessionHook "\<lambda>m t st. SessionsActive m (t, st)"
  by unfold_locales (auto simp: gauge_Inc_def gauge_Dec_def)

text \<open>
  C10: with the Prometheus hook installed, the gauge \<open>sessions_active\<close> shows, for every type and
  status, exactly the number of sessions of that type and status in the pool, after any
  interleaving of additions, removals, event loop exits and client activity; so the values over
  all labels add up to the number of sessions the pool reports.
\<close>

theorem sessions_active_exact:
  assumes "pool_reach ifc True p"
  shows "SessionsActive (fold SessionHook (hook_calls p) no_metrics) (t, st) = int (session_count p t st) \<and>
    (\<Sum>l \<in> UNIV. SessionsActive (fold SessionHook (hook_calls p) no_metrics) l) = int (Pool_Len p)"
proof -
  let ?m = "fold SessionHook (hook_calls p) no_metrics"
  have each: "SessionsActive ?m (t, st) = int (session_count p t st)" for t st
    using session_hook.gauge_tracks_pool [OF assms, of no_metrics t st] by (simp add: no_metrics_def)
  have "(\<Sum>l \<in> UNIV. SessionsActive ?m l) = (\<Sum>(t, st) \<in> UNIV. int (session_count p t st))"
    by (rule sum.cong) (auto simp: each)
  then show ?thesis using session_count_total [OF pool_reach_ok [OF assms]]
    by (simp add: each case_prod_beta flip: of_nat_sum)
qed

theorem sessions_active_exact_witness:
  "SessionsActive (fold SessionHook (hook_calls mock_pool3) no_metrics) (TypeAccount, StatusReady) = 1 \<and>
   SessionsActive (fold SessionHook (hook_calls mock_pool3) no_metrics) (TypeAccount, StatusAuthorizing) = 0 \<and>
   (\<Sum>l \<in> UNIV. SessionsActive (fold SessionHook (hook_calls mock_pool3) no_metrics) l) = int (Pool_Len mock_pool3)"
proof -
  have "session_count mock_pool3 TypeAccount StatusReady = 1"
    "session_count mock_pool3 TypeAccount StatusAuthorizing = 0"
    by (simp_all add: pool_eval)
  then show ?thesis by (simp add: sessions_active_exact [OF mock_pool3_reach])
qed

end
