(* ===== verification/Worker_Server.thy ===== *)
theory Worker_Server
  imports TDLib_Client Metrics_Hook "HOL-Library.Sublist"
begin

text \<open>
  The worker's gRPC service \<open>internal/worker/server/server.go\<close>: the remote procedures over the
  session pool, and the update bus that fans the updates of all sessions out to the open
  \<open>Subscribe\<close> streams. Protobuf messages are records with the fields the program reads or
  writes (\<open>api/proto/worker.proto\<close>); JSON encoding of an update is a parameter.

  \<open>dispatch\<close> holds the read lock and the opening and closing of a subscription take the write
  lock, so each of these is one step; a stream takes one update off its channel per step.
\<close>

section \<open>Messages\<close>

record TelegramUpdate =
  upd_SessionId :: string
  upd_Type :: string
  upd_Payload :: string
  upd_ReceivedAt :: int

record SessionInfo =
  si_SessionId :: string
  si_Status :: string
  si_Type :: string

record WorkerMetrics =
  wm_WorkerId :: string
  wm_SessionCount :: "32 word"
  wm_ReadyCount :: "32 word"
  wm_ErrorCount :: "32 word"
  wm_UpdatesTotal :: "64 word"
  wm_CollectedAt :: int

fun status_string :: "status \<Rightarrow> string" where
  "status_string StatusPending = ''pending''"
| "status_string StatusAuthorizing = ''authorizing''"
| "status_string StatusReady = ''ready''"
| "status_string StatusDisconnected = ''disconnected''"
| "status_string StatusError = ''error''"

fun sess_type_string :: "sess_type \<Rightarrow> string" where
  "sess_type_string TypeAccount = ''account''"
| "sess_type_string TypeBot = ''bot''"

section \<open>Server state\<close>

text \<open>
  One open or finished \<open>Subscribe\<close> call: its key in the subscriber map, the session filter of
  the request, the channel (capacity 256), whether the channel is closed, and what the stream
  has sent so far.
\<close>

record subscription =
  sub_key :: string
  sub_filter :: "string list"
  sub_buf :: "TelegramUpdate list"
  sub_closed :: bool
  sub_sent :: "TelegramUpdate list"

definition sub_capacity :: nat where
  "sub_capacity = 256"

text \<open>
  \<open>srv_subscribers\<close> maps subscription keys to subscriptions by reference: the key is a clock
  reading, so two subscriptions can share one. \<open>srv_log\<close> is the sequence of updates dispatched
  so far, and the last four fields are the metrics of the bus.
\<close>

record 'c server =
  srv_id :: string
  srv_pool :: "('c, unit) pool"
  srv_subscribers :: "(string, nat) gomap"
  srv_subs :: "nat \<rightharpoonup> subscription"
  srv_next :: nat
  srv_updatesTotal :: "64 word"
  srv_log :: "TelegramUpdate list"
  UpdatesReceived :: nat
  UpdatesDispatched :: nat
  UpdatesDropped :: nat
  WorkerSubscribers :: int

definition NewWorkerServer :: "string \<Rightarrow> ('c, unit) pool \<Rightarrow> 'c server" where
  "NewWorkerServer workerID p =
     \<lparr>srv_id = workerID, srv_pool = Pool_SetUpdateHandler (Some ()) p, srv_subscribers = [],
      srv_subs = Map.empty, srv_next = 0, srv_updatesTotal = 0, srv_log = [],
      UpdatesReceived = 0, UpdatesDispatched = 0, UpdatesDropped = 0, WorkerSubscribers = 0\<rparr>"

section \<open>The update bus\<close>

text \<open>
  The loop of \<open>dispatch\<close> over the subscriber map: a non-blocking send to every channel. A send
  on a closed channel would panic and is the value \<open>None\<close>.
\<close>

fun fan_out ::
  "TelegramUpdate \<Rightarrow> nat list \<Rightarrow> (nat \<rightharpoonup> subscription) \<Rightarrow> ((nat \<rightharpoonup> subscription) \<times> nat \<times> nat) option" where
  "fan_out upd [] subs = Some (subs, 0, 0)"
| "fan_out upd (r # rs) subs =
     (case subs r of
        None \<Rightarrow> None
      | Some sub \<Rightarrow>
          (if sub_closed sub then None
           else if length (sub_buf sub) < sub_capacity
           then map_option (\<lambda>(subs', sent, dropped). (subs', Suc sent, dropped))
                  (fan_out upd rs (subs(r \<mapsto> sub\<lparr>sub_buf := sub_buf sub @ [upd]\<rparr>)))
           else map_option (\<lambda>(subs', sent, dropped). (subs', sent, Suc dropped))
                  (fan_out upd rs subs)))"

text \<open>
  \<open>dispatch\<close>: \<open>marshal\<close> is the JSON encoder, \<open>typename\<close> the formatting of the Go type, and
  \<open>now\<close> the clock. The result is an error only when the encoder fails (the update is then
  discarded) or when a send panics.
\<close>

definition mk_update :: "string \<Rightarrow> string \<Rightarrow> string \<Rightarrow> int \<Rightarrow> TelegramUpdate" where
  "mk_update sid ty payload now =
     \<lparr>upd_SessionId = sid, upd_Type = ty, upd_Payload = payload, upd_ReceivedAt = now\<rparr>"

definition dispatch ::
  "('u \<Rightarrow> error + string) \<Rightarrow> ('u \<Rightarrow> string) \<Rightarrow> int \<Rightarrow> string \<Rightarrow> 'u \<Rightarrow> 'c server \<Rightarrow>
   error option \<times> 'c server" where
  "dispatch marshal typename now sessionID raw s =
     (case marshal raw of
        Inl err \<Rightarrow> (Some err, s)
      | Inr payload \<Rightarrow>
          (let upd = mk_update sessionID (typename raw) payload now;
               s1 = s\<lparr>UpdatesReceived := Suc (UpdatesReceived s)\<rparr>
           in case fan_out upd (map snd (srv_subscribers s1)) (srv_subs s1) of
                None \<Rightarrow> (Some (Panic ''send on closed channel''), s1)
              | Some (subs', sent, dropped) \<Rightarrow>
                  (None,
                   s1\<lparr>srv_subs := subs',
                      UpdatesDispatched := UpdatesDispatched s1 + sent,
                      UpdatesDropped := UpdatesDropped s1 + dropped,
                      srv_updatesTotal := srv_updatesTotal s1 + 1,
                      srv_log := srv_log s1 @ [upd]\<rparr>)))"

text \<open>\<open>Subscribe\<close>: registration, one round of its loop, and its deferred cleanup.\<close>

definition Subscribe_open :: "string \<Rightarrow> string list \<Rightarrow> 'c server \<Rightarrow> 'c server" where
  "Subscribe_open subID sessionIds s =
     (let r = srv_next s;
          sub = \<lparr>sub_key = subID, sub_filter = sessionIds, sub_buf = [], sub_closed = False,
                 sub_sent = []\<rparr>
      in s\<lparr>srv_subs := (srv_subs s)(r \<mapsto> sub), srv_next := Suc r,
           srv_subscribers := go_put subID r (srv_subscribers s),
           WorkerSubscribers := WorkerSubscribers s + 1\<rparr>)"

definition sub_wants :: "subscription \<Rightarrow> TelegramUpdate \<Rightarrow> bool" where
  "sub_wants sub upd \<longleftrightarrow> sub_filter sub = [] \<or> upd_SessionId upd \<in> set (sub_filter sub)"

text \<open>
  One round: nothing happens while the channel is empty; otherwise the oldest update is taken,
  and sent unless the filter excludes it. \<open>send_ok\<close> is the outcome of \<open>stream.Send\<close>; the result
  says whether the loop goes on.
\<close>

definition Subscribe_recv :: "nat \<Rightarrow> bool \<Rightarrow> 'c server \<Rightarrow> bool \<times> 'c server" where
  "Subscribe_recv r send_ok s =
     (case srv_subs s r of
        None \<Rightarrow> (True, s)
      | Some sub \<Rightarrow>
          (case sub_buf sub of
             [] \<Rightarrow> (True, s)
           | upd # buf \<Rightarrow>
               (let sub1 = sub\<lparr>sub_buf := buf\<rparr> in
                if \<not> sub_wants sub upd then (True, s\<lparr>srv_subs := (srv_subs s)(r \<mapsto> sub1)\<rparr>)
                else if send_ok
                then (True, s\<lparr>srv_subs := (srv_subs s)(r \<mapsto> sub1\<lparr>sub_sent := sub_sent sub @ [upd]\<rparr>)\<rparr>)
                else (False, s\<lparr>srv_subs := (srv_subs s)(r \<mapsto> sub1)\<rparr>))))"

definition Subscribe_close :: "nat \<Rightarrow> 'c server \<Rightarrow> 'c server" where
  "Subscribe_close r s =
     (case srv_subs s r of
        None \<Rightarrow> s
      | Some sub \<Rightarrow>
          s\<lparr>srv_subscribers := go_del (sub_key sub) (srv_subscribers s),
            srv_subs := (srv_subs s)(r \<mapsto> sub\<lparr>sub_closed := True\<rparr>),
            WorkerSubscribers := WorkerSubscribers s - 1\<rparr>)"

section \<open>Remote procedures\<close>

text \<open>\<open>status.Errorf\<close> on an error a call returned; a panic passes through.\<close>

definition wrap_status :: "grpc_code \<Rightarrow> string \<Rightarrow> error \<Rightarrow> error" where
  "wrap_status code f err = (case err of Panic p \<Rightarrow> Panic p | _ \<Rightarrow> StatusErr code f err)"

definition sessionInfo :: "string \<Rightarrow> 'c server \<Rightarrow> SessionInfo" where
  "sessionInfo sid s =
     (case Pool_Get sid (srv_pool s) of
        None \<Rightarrow> \<lparr>si_SessionId = sid, si_Status = ''unknown'', si_Type = []\<rparr>
      | Some sess \<Rightarrow>
          \<lparr>si_SessionId = sess_ID sess, si_Status = status_string (sess_Status sess),
           si_Type = sess_type_string (sess_Type sess)\<rparr>)"

definition srv_AddAccount ::
  "'c ClientFactory \<Rightarrow> (nat \<Rightarrow> int) \<Rightarrow> string \<Rightarrow> string \<Rightarrow> 'c server \<Rightarrow>
   (error + SessionInfo) \<times> 'c server" where
  "srv_AddAccount factory now sid phone s =
     (let (err, p) = Pool_Add factory now sid phone (srv_pool s); s1 = s\<lparr>srv_pool := p\<rparr> in
      case err of
        Some e \<Rightarrow> (Inl (wrap_status Internal ''add account: %v'' e), s1)
      | None \<Rightarrow> (Inr (sessionInfo sid s1), s1))"

definition srv_AddBot ::
  "'c ClientFactory \<Rightarrow> (nat \<Rightarrow> int) \<Rightarrow> string \<Rightarrow> string \<Rightarrow> 'c server \<Rightarrow>
   (error + SessionInfo) \<times> 'c server" where
  "srv_AddBot factory now sid token s =
     (let (err, p) = Pool_AddBot factory now sid token (srv_pool s); s1 = s\<lparr>srv_pool := p\<rparr> in
      case err of
        Some e \<Rightarrow> (Inl (wrap_status Internal ''add bot: %v'' e), s1)
      | None \<Rightarrow> (Inr (sessionInfo sid s1), s1))"

definition srv_RemoveSession ::
  "'c TDClient \<Rightarrow> string \<Rightarrow> 'c server \<Rightarrow> (error + string) \<times> 'c server" where
  "srv_RemoveSession ifc sid s =
     (let (err, p) = Pool_Remove ifc sid (srv_pool s); s1 = s\<lparr>srv_pool := p\<rparr> in
      case err of
        Some e \<Rightarrow> (Inl (wrap_status NotFound ''remove session: %v'' e), s1)
      | None \<Rightarrow> (Inr sid, s1))"

definition srv_ListSessions :: "'c server \<Rightarrow> SessionInfo list" where
  "srv_ListSessions s =
     map (\<lambda>sess. \<lparr>si_SessionId = sess_ID sess, si_Status = status_string (sess_Status sess),
                  si_Type = sess_type_string (sess_Type sess)\<rparr>) (Pool_List (srv_pool s))"

text \<open>The counting loop of \<open>GetMetrics\<close> over 32-bit counters.\<close>

fun count_statuses :: "session list \<Rightarrow> 32 word \<Rightarrow> 32 word \<Rightarrow> 32 word \<times> 32 word" where
  "count_statuses [] ready err = (ready, err)"
| "count_statuses (sess # rest) ready err =
     (case sess_Status sess of
        StatusReady \<Rightarrow> count_statuses rest (ready + 1) err
      | StatusError \<Rightarrow> count_statuses rest ready (err + 1)
      | _ \<Rightarrow> count_statuses rest ready err)"

definition srv_GetMetrics :: "int \<Rightarrow> 'c server \<Rightarrow> WorkerMetrics" where
  "srv_GetMetrics now s =
     (let ss = Pool_List (srv_pool s); (ready, errCount) = count_statuses ss 0 0
      in \<lparr>wm_WorkerId = srv_id s, wm_SessionCount = of_nat (length ss), wm_ReadyCount = ready,
          wm_ErrorCount = errCount, wm_UpdatesTotal = srv_updatesTotal s, wm_CollectedAt = now\<rparr>)"

definition srv_Health :: "'c server \<Rightarrow> bool \<times> string" where
  "srv_Health s = (True, ''0.1.0'')"

definition srv_SendAuthCode ::
  "'c TDClient \<Rightarrow> string \<Rightarrow> string \<Rightarrow> 'c server \<Rightarrow> (error + SessionInfo) \<times> 'c server" where
  "srv_SendAuthCode ifc sid code s =
     (let (err, p) = Pool_SendAuthCode ifc sid code (srv_pool s); s1 = s\<lparr>srv_pool := p\<rparr> in
      case err of
        Some e \<Rightarrow> (Inl (wrap_status Internal ''send auth code: %v'' e), s1)
      | None \<Rightarrow> (Inr (sessionInfo sid s1), s1))"

definition srv_SendPassword ::
  "'c TDClient \<Rightarrow> string \<Rightarrow> string \<Rightarrow> 'c server \<Rightarrow> (error + SessionInfo) \<times> 'c server" where
  "srv_SendPassword ifc sid password s =
     (let (err, p) = Pool_SendPassword ifc sid password (srv_pool s); s1 = s\<lparr>srv_pool := p\<rparr> in
      case err of
        Some e \<Rightarrow> (Inl (wrap_status Internal ''send password: %v'' e), s1)
      | None \<Rightarrow> (Inr (sessionInfo sid s1), s1))"

definition srv_GetAuthState ::
  "'c TDClient \<Rightarrow> string \<Rightarrow> 'c server \<Rightarrow> error + (string \<times> string)" where
  "srv_GetAuthState ifc sid s =
     (case Pool_GetAuthState ifc sid (srv_pool s) of
        Inl e \<Rightarrow> Inl (wrap_status NotFound ''get auth state: %v'' e)
      | Inr state \<Rightarrow> Inr (sid, state))"

section \<open>Steps of a server\<close>

text \<open>
  The pool moves on its own, an update reaches the bus through the event loop of a session, and
  subscriptions open, drain and close. A subscription closes once; its key is arbitrary, so the
  steps cover subscriptions opened in the same nanosecond.
\<close>

inductive srv_step ::
  "'c TDClient \<Rightarrow> ('u \<Rightarrow> error + string) \<Rightarrow> ('u \<Rightarrow> string) \<Rightarrow> 'c server \<Rightarrow> 'c server \<Rightarrow> bool"
  for ifc marshal typename where
  pool_moves: "pool_step ifc (srv_pool s) p \<Longrightarrow> srv_step ifc marshal typename s (s\<lparr>srv_pool := p\<rparr>)"
| update_arrives: "r \<in> set (loops (srv_pool s)) \<Longrightarrow>
    Pool_runLoop_update r u (srv_pool s) = Some (h, sid, raw) \<Longrightarrow>
    srv_step ifc marshal typename s (snd (dispatch marshal typename now sid raw s))"
| opens: "srv_step ifc marshal typename s (Subscribe_open k ids s)"
| receives: "srv_subs s r = Some sub \<Longrightarrow> \<not> sub_closed sub \<Longrightarrow>
    srv_step ifc marshal typename s (snd (Subscribe_recv r ok s))"
| closes: "srv_subs s r = Some sub \<Longrightarrow> \<not> sub_closed sub \<Longrightarrow>
    srv_step ifc marshal typename s (Subscribe_close r s)"

inductive srv_reach ::
  "'c TDClient \<Rightarrow> ('u \<Rightarrow> error + string) \<Rightarrow> ('u \<Rightarrow> string) \<Rightarrow> 'c server \<Rightarrow> bool"
  for ifc marshal typename where
  start: "srv_reach ifc marshal typename (NewWorkerServer wid (NewPool None hk))"
| step: "srv_reach ifc marshal typename s \<Longrightarrow> srv_step ifc marshal typename s s' \<Longrightarrow>
    srv_reach ifc marshal typename s'"

section \<open>Invariant of the bus\<close>

definition open_subs :: "'c server \<Rightarrow> nat set" where
  "open_subs s = {r. \<exists>sub. srv_subs s r = Some sub \<and> \<not> sub_closed sub}"

definition sub_ok :: "TelegramUpdate list \<Rightarrow> subscription \<Rightarrow> bool" where
  "sub_ok log sub \<longleftrightarrow> length (sub_buf sub) \<le> sub_capacity \<and>
     subseq (sub_sent sub @ filter (sub_wants sub) (sub_buf sub)) log \<and>
     (\<forall>upd \<in> set (sub_sent sub). sub_wants sub upd)"

definition bus_ok :: "'c server \<Rightarrow> bool" where
  "bus_ok s \<longleftrightarrow>
     gomap_ok (srv_subscribers s) \<and>
     (\<forall>k r. (k, r) \<in> set (srv_subscribers s) \<longrightarrow>
        (\<exists>sub. srv_subs s r = Some sub \<and> sub_key sub = k \<and> \<not> sub_closed sub)) \<and>
     (\<forall>r \<in> dom (srv_subs s). r < srv_next s) \<and>
     (\<forall>r sub. srv_subs s r = Some sub \<longrightarrow> sub_ok (srv_log s) sub) \<and>
     WorkerSubscribers s = int (card (open_subs s))"

lemma bus_okI:
  assumes "gomap_ok (srv_subscribers s)"
    and "\<And>k r. (k, r) \<in> set (srv_subscribers s) \<Longrightarrow>
        \<exists>sub. srv_subs s r = Some sub \<and> sub_key sub = k \<and> \<not> sub_closed sub"
    and "\<And>r. r \<in> dom (srv_subs s) \<Longrightarrow> r < srv_next s"
    and "\<And>r sub. srv_subs s r = Some sub \<Longrightarrow> sub_ok (srv_log s) sub"
    and "WorkerSubscribers s = int (card (open_subs s))"
  shows "bus_ok s"
  using assms unfolding bus_ok_def by blast

lemma bus_ok_parts:
  assumes "bus_ok s"
  shows "gomap_ok (srv_subscribers s)"
    and "(k, r) \<in> set (srv_subscribers s) \<Longrightarrow>
        \<exists>sub. srv_subs s r = Some sub \<and> sub_key sub = k \<and> \<not> sub_closed sub"
    and "r \<in> dom (srv_subs s) \<Longrightarrow> r < srv_next s"
    and "srv_subs s r = Some sub \<Longrightarrow> sub_ok (srv_log s) sub"
    and "WorkerSubscribers s = int (card (open_subs s))"
  using assms unfolding bus_ok_def by blast+

lemma finite_open_subs: "bus_ok s \<Longrightarrow> finite (open_subs s)"
  by (rule finite_subset [of _ "{..< srv_next s}"]) (auto simp: open_subs_def dest: bus_ok_parts(3))

lemma distinct_subscriber_refs:
  assumes "bus_ok s"
  shows "distinct (map snd (srv_subscribers s))"
proof -
  have "inj_on snd (set (srv_subscribers s))"
    using bus_ok_parts(2) [OF assms] by (intro inj_onI) (metis option.inject prod.collapse)
  moreover have "distinct (srv_subscribers s)"
    using bus_ok_parts(1) [OF assms] by (simp add: distinct_map)
  ultimately show ?thesis by (simp add: distinct_map)
qed

section \<open>Fan-out\<close>

definition has_room :: "subscription \<Rightarrow> bool" where
  "has_room sub \<longleftrightarrow> length (sub_buf sub) < sub_capacity"

definition offer :: "TelegramUpdate \<Rightarrow> subscription \<Rightarrow> subscription" where
  "offer upd sub = (if has_room sub then sub\<lparr>sub_buf := sub_buf sub @ [upd]\<rparr> else sub)"

definition offer_all ::
  "TelegramUpdate \<Rightarrow> nat list \<Rightarrow> (nat \<rightharpoonup> subscription) \<Rightarrow> (nat \<rightharpoonup> subscription)" where
  "offer_all upd rs subs = (\<lambda>q. if q \<in> set rs then map_option (offer upd) (subs q) else subs q)"

definition count_room :: "(nat \<rightharpoonup> subscription) \<Rightarrow> nat list \<Rightarrow> nat" where
  "count_room subs rs = length (filter (\<lambda>r. has_room (the (subs r))) rs)"

lemma offer_all_Cons:
  "r \<notin> set rs \<Longrightarrow> subs r = Some sub \<Longrightarrow>
   offer_all upd (r # rs) subs = offer_all upd rs (subs(r \<mapsto> offer upd sub))"
  by (auto simp: offer_all_def)

lemma count_room_other: "r \<notin> set rs \<Longrightarrow> count_room (subs(r \<mapsto> sub)) rs = count_room subs rs"
  unfolding count_room_def by (intro arg_cong [where f = length] filter_cong) auto

lemma count_room_le: "count_room subs rs \<le> length rs"
  by (simp add: count_room_def)

lemma fan_out_open:
  assumes "distinct rs" and "\<And>r. r \<in> set rs \<Longrightarrow> \<exists>sub. subs r = Some sub \<and> \<not> sub_closed sub"
  shows "fan_out upd rs subs =
    Some (offer_all upd rs subs, count_room subs rs, length rs - count_room subs rs)"
  using assms
proof (induction rs arbitrary: subs)
  case (Cons r rs)
  then obtain sub where sub: "subs r = Some sub" "\<not> sub_closed sub" by auto
  have r: "r \<notin> set rs" using Cons.prems(1) by simp
  have "offer upd sub = sub" "subs(r \<mapsto> sub) = subs" if "\<not> has_room sub"
    using that sub by (simp_all add: offer_def fun_upd_idem)
  moreover have "fan_out upd rs (subs(r \<mapsto> offer upd sub)) =
      Some (offer_all upd (r # rs) subs, count_room subs rs, length rs - count_room subs rs)"
    unfolding offer_all_Cons [where subs = subs, OF r sub(1)] count_room_other [OF r, of subs "offer upd sub", symmetric]
    by (rule Cons.IH) (use Cons.prems r in auto)
  ultimately show ?case using sub count_room_le [of subs rs]
    by (cases "has_room sub") (simp_all add: has_room_def offer_def count_room_def Suc_diff_le)
qed (simp add: offer_all_def count_room_def)

lemma sub_ok_offer:
  assumes "sub_ok log sub"
  shows "sub_ok (log @ [upd]) (offer upd sub)" and "sub_ok (log @ [upd]) sub"
proof -
  have wants: "sub_wants (sub\<lparr>sub_buf := b\<rparr>) = sub_wants sub" for b
    by (simp add: sub_wants_def fun_eq_iff)
  have "subseq (sub_sent sub @ filter (sub_wants sub) (sub_buf sub)) (log @ [upd])"
    using assms by (auto simp: sub_ok_def intro: subseq_order.trans list_emb_append2)
  moreover have "subseq ((sub_sent sub @ filter (sub_wants sub) (sub_buf sub)) @ [upd]) (log @ [upd])"
    using assms unfolding sub_ok_def by (intro list_emb_append_mono) auto
  ultimately show "sub_ok (log @ [upd]) (offer upd sub)" "sub_ok (log @ [upd]) sub"
    using assms by (auto simp: sub_ok_def offer_def has_room_def wants)
qed

lemma open_subs_cong:
  "(\<And>r. map_option sub_closed (srv_subs s' r) = map_option sub_closed (srv_subs s r)) \<Longrightarrow>
   open_subs s' = open_subs s"
  unfolding open_subs_def by (metis (no_types, opaque_lifting) map_option_eq_Some)

abbreviation sub_refs :: "'c server \<Rightarrow> nat list" where
  "sub_refs s \<equiv> map snd (srv_subscribers s)"

abbreviation room :: "'c server \<Rightarrow> nat" where
  "room s \<equiv> count_room (srv_subs s) (sub_refs s)"

lemma dispatch_unencodable: "marshal raw = Inl err \<Longrightarrow> dispatch marshal typename now sid raw s = (Some err, s)"
  by (simp add: dispatch_def)

lemma dispatch_ok:
  assumes "bus_ok s" and "marshal raw = Inr payload"
  shows "dispatch marshal typename now sid raw s = (None,
    s\<lparr>UpdatesReceived := Suc (UpdatesReceived s),
      srv_subs := offer_all (mk_update sid (typename raw) payload now) (sub_refs s) (srv_subs s),
      UpdatesDispatched := UpdatesDispatched s + room s,
      UpdatesDropped := UpdatesDropped s + (length (sub_refs s) - room s),
      srv_updatesTotal := srv_updatesTotal s + 1,
      srv_log := srv_log s @ [mk_update sid (typename raw) payload now]\<rparr>)"
proof -
  have "fan_out upd (sub_refs s) (srv_subs s) =
      Some (offer_all upd (sub_refs s) (srv_subs s), room s, length (sub_refs s) - room s)" for upd
    by (rule fan_out_open) (use distinct_subscriber_refs bus_ok_parts(2) assms(1) in fastforce)+
  then show ?thesis using assms(2) by (simp add: dispatch_def Let_def)
qed

lemma bus_ok_dispatch:
  assumes ok: "bus_ok s"
  shows "bus_ok (snd (dispatch marshal typename now sid raw s))"
proof (cases "marshal raw")
  case (Inl err)
  with ok show ?thesis by (simp add: dispatch_def)
next
  case (Inr payload)
  show ?thesis unfolding dispatch_ok [where marshal = marshal and raw = raw, OF ok Inr] snd_conv
  proof (rule bus_okI, goal_cases)
    case (2 k r)
    then obtain sub where "srv_subs s r = Some sub" "sub_key sub = k" "\<not> sub_closed sub"
      using bus_ok_parts(2) [OF ok, of k r] by auto
    then show ?case by (auto simp: offer_all_def offer_def)
  next
    case (4 r sub)
    then show ?case using bus_ok_parts(4) [OF ok] sub_ok_offer
      by (auto simp: offer_all_def split: if_splits)
  next
    case 5
    show ?case using bus_ok_parts(5) [OF ok]
      by (auto simp: offer_all_def offer_def option.map_comp comp_def
          intro!: arg_cong [where f = card] open_subs_cong [symmetric])
  next
    case (3 r)
    then show ?case using bus_ok_parts(3) [OF ok, of r]
      by (auto simp: offer_all_def dom_def split: if_splits)
  qed (use bus_ok_parts(1) [OF ok] in simp)
qed

lemma bus_ok_open:
  assumes ok: "bus_ok s"
  shows "bus_ok (Subscribe_open k ids s)"
proof -
  let ?s = "Subscribe_open k ids s"
  let ?sub = "\<lparr>sub_key = k, sub_filter = ids, sub_buf = [], sub_closed = False, sub_sent = []\<rparr>"
  have fields: "srv_subs ?s = (srv_subs s)(srv_next s \<mapsto> ?sub)" "srv_next ?s = Suc (srv_next s)"
    "srv_subscribers ?s = go_put k (srv_next s) (srv_subscribers s)" "srv_log ?s = srv_log s"
    "WorkerSubscribers ?s = WorkerSubscribers s + 1"
    by (simp_all add: Subscribe_open_def Let_def)
  have fresh: "srv_subs s (srv_next s) = None" using bus_ok_parts(3) [OF ok] by blast
  then have "open_subs ?s = insert (srv_next s) (open_subs s)" "srv_next s \<notin> open_subs s"
    by (auto simp: open_subs_def fields)
  then have card: "card (open_subs ?s) = Suc (card (open_subs s))"
    using finite_open_subs [OF ok] by simp
  show ?thesis
  proof (rule bus_okI, unfold fields, goal_cases)
    case (2 k' r)
    then show ?case using bus_ok_parts(2) [OF ok, of k' r] fresh
      by (cases "k' = k") (auto simp: go_put_mem bus_ok_parts(1) [OF ok])
  next
    case (4 r sub)
    then show ?case using bus_ok_parts(4) [OF ok, of r sub]
      by (auto simp: sub_ok_def split: if_splits)
  qed (use bus_ok_parts(1,3,5) [OF ok] card in \<open>auto simp: less_Suc_eq split: if_splits\<close>)
qed

text \<open>A round of a stream replaces one subscription by another with the same key and filter.\<close>

lemma bus_ok_replace:
  assumes ok: "bus_ok s" and sub: "srv_subs s r = Some sub"
    and sub': "sub_key sub' = sub_key sub" "sub_closed sub' = sub_closed sub" "sub_ok (srv_log s) sub'"
  shows "bus_ok (s\<lparr>srv_subs := (srv_subs s)(r \<mapsto> sub')\<rparr>)"
proof (rule bus_okI, goal_cases)
  case (2 k q)
  then show ?case using bus_ok_parts(2) [OF ok, of k q] sub sub' by (cases "q = r") auto
next
  case (4 q sub'')
  then show ?case using bus_ok_parts(4) [OF ok, of q sub''] sub'(3) by (auto split: if_splits)
next
  case 5
  have "open_subs (s\<lparr>srv_subs := (srv_subs s)(r \<mapsto> sub')\<rparr>) = open_subs s"
    by (rule open_subs_cong) (simp add: sub sub')
  then show ?case using bus_ok_parts(5) [OF ok] by simp
qed (use bus_ok_parts(1,3) [OF ok] sub in auto)

lemma bus_ok_recv:
  assumes ok: "bus_ok s"
  shows "bus_ok (snd (Subscribe_recv r send_ok s))"
proof (cases "srv_subs s r")
  case (Some sub)
  show ?thesis
  proof (cases "sub_buf sub")
    case (Cons upd buf)
    have sub_ok: "sub_ok (srv_log s) sub" using ok Some by (rule bus_ok_parts(4))
    let ?sub = "sub\<lparr>sub_buf := buf\<rparr>" and ?sent = "sub\<lparr>sub_buf := buf, sub_sent := sub_sent sub @ [upd]\<rparr>"
    have wants: "sub_wants ?sub = sub_wants sub" "sub_wants ?sent = sub_wants sub"
      by (simp_all add: sub_wants_def fun_eq_iff)
    have "subseq (sub_sent sub @ filter (sub_wants sub) buf)
        (sub_sent sub @ filter (sub_wants sub) (upd # buf))"
      by (intro list_emb_append_mono) auto
    with sub_ok Cons have "sub_ok (srv_log s) ?sub"
      by (auto simp: sub_ok_def wants intro: subseq_order.trans)
    moreover have "sub_wants sub upd \<Longrightarrow> sub_ok (srv_log s) ?sent"
      using sub_ok Cons by (auto simp: sub_ok_def wants)
    ultimately show ?thesis using Some Cons ok
      by (auto simp: Subscribe_recv_def Let_def intro!: bus_ok_replace)
  qed (simp add: Subscribe_recv_def Some ok)
qed (simp add: Subscribe_recv_def ok)

lemma bus_ok_close:
  assumes ok: "bus_ok s" and sub: "srv_subs s r = Some sub" "\<not> sub_closed sub"
  shows "bus_ok (Subscribe_close r s)"
proof -
  let ?s = "Subscribe_close r s"
  have fields: "srv_subs ?s = (srv_subs s)(r \<mapsto> sub\<lparr>sub_closed := True\<rparr>)" "srv_next ?s = srv_next s"
    "srv_subscribers ?s = go_del (sub_key sub) (srv_subscribers s)" "srv_log ?s = srv_log s"
    "WorkerSubscribers ?s = WorkerSubscribers s - 1"
    by (simp_all add: Subscribe_close_def sub)
  have "open_subs ?s = open_subs s - {r}" "r \<in> open_subs s"
    by (auto simp: open_subs_def fields sub)
  then have card: "Suc (card (open_subs ?s)) = card (open_subs s)"
    using finite_open_subs [OF ok] by (metis card_Suc_Diff1)
  show ?thesis
  proof (rule bus_okI, unfold fields, goal_cases)
    case (2 k q)
    then show ?case using bus_ok_parts(2) [OF ok, of k q] sub by (auto simp: go_del_mem)
  next
    case (4 q sub')
    have "sub_wants (sub\<lparr>sub_closed := True\<rparr>) = sub_wants sub" by (simp add: sub_wants_def fun_eq_iff)
    then show ?case using 4 bus_ok_parts(4) [OF ok, of q] sub
      by (auto simp: sub_ok_def split: if_splits)
  qed (use bus_ok_parts(1,3,5) [OF ok] card sub in \<open>auto split: if_splits\<close>)
qed

lemma bus_ok_step: "srv_step ifc marshal typename s s' \<Longrightarrow> bus_ok s \<Longrightarrow> bus_ok s'"
proof (induction rule: srv_step.induct)
  case (pool_moves s p)
  then show ?case by (simp add: bus_ok_def open_subs_def)
qed (simp_all add: bus_ok_dispatch bus_ok_open bus_ok_recv bus_ok_close)

lemma srv_reach_bus: "srv_reach ifc marshal typename s \<Longrightarrow> bus_ok s"
proof (induction rule: srv_reach.induct)
  case (start wid hk)
  show ?case by (simp add: bus_ok_def NewWorkerServer_def open_subs_def)
qed (rule bus_ok_step)

lemma srv_reach_pool: "srv_reach ifc marshal typename s \<Longrightarrow> pool_ok (srv_pool s)"
proof (induction rule: srv_reach.induct)
  case (start wid hk)
  show ?case by (simp add: NewWorkerServer_def pool_ok_handler pool_ok_NewPool)
next
  case (step s s')
  from step.hyps(2) step.IH show ?case
    by cases (auto simp: pool_ok_step dispatch_def Subscribe_open_def Subscribe_recv_def
        Subscribe_close_def Let_def split: sum.splits option.splits list.splits)
qed

section \<open>Listings and counters\<close>

abbreviation info_of :: "session \<Rightarrow> SessionInfo" where
  "info_of sess \<equiv> \<lparr>si_SessionId = sess_ID sess, si_Status = status_string (sess_Status sess),
     si_Type = sess_type_string (sess_Type sess)\<rparr>"

lemma Pool_List_added:
  assumes ok: "pool_ok p" and new: "go_get (sessions p) sid = None" and c: "factory sid phone token = Inr c"
  shows "Pool_List (snd (Pool_add factory now sid phone token t p)) =
    Pool_List p @ [added_session now sid t]"
proof -
  let ?p = "snd (Pool_add factory now sid phone token t p)"
  have "pool_ok ?p" using ok by (rule pool_ok_add)
  moreover have "(a, q) \<in> set (sessions p) \<Longrightarrow> heap ?p q = heap p q" for a q
    using pool_ok_fresh_ref [OF ok, of a] by (auto simp: Pool_add_succeeds new c)
  ultimately show ?thesis using ok
    by (auto simp: Pool_List_ok Pool_add_succeeds [OF new, of factory phone token c] c go_put_new new)
qed

lemma count_statuses_eq:
  "count_statuses ss ready err =
     (ready + of_nat (length (filter (\<lambda>x. sess_Status x = StatusReady) ss)),
      err + of_nat (length (filter (\<lambda>x. sess_Status x = StatusError) ss)))"
  by (induction ss ready err rule: count_statuses.induct) (auto split: status.split)

lemma sint_of_nat_32: "n < 2 ^ 31 \<Longrightarrow> sint (of_nat n :: 32 word) = int n"
  by (simp add: signed_of_nat signed_take_bit_int_eq_self)

section \<open>A small run\<close>

text \<open>A worker with one mock session and one subscription, before any update.\<close>

definition mock_server0 :: "mockClient server" where
  "mock_server0 = NewWorkerServer ''w1'' (NewPool None True)"

definition mock_server :: "mockClient server" where
  "mock_server = Subscribe_open ''sub-1'' []
     (mock_server0\<lparr>srv_pool := mock_add ''a'' (srv_pool mock_server0)\<rparr>)"

abbreviation ex_marshal :: "string \<Rightarrow> error + string" where
  "ex_marshal \<equiv> Inr"

abbreviation ex_typename :: "string \<Rightarrow> string" where
  "ex_typename \<equiv> \<lambda>_. ''string''"

lemma mock_server_reach: "srv_reach mock_iface ex_marshal ex_typename mock_server"
  unfolding mock_server_def mock_server0_def
  by (rule srv_reach.step [OF _ srv_step.opens], rule srv_reach.step [OF _ srv_step.pool_moves])
    (rule srv_reach.start, rule pool_step.adds)

lemmas server_eval = pool_eval mock_server_def mock_server0_def NewWorkerServer_def
  Subscribe_open_def Subscribe_recv_def Pool_SetUpdateHandler_def Let_def

section \<open>Properties\<close>

text \<open>
  C11: whatever subscriptions open and close and however their keys collide, dispatching an
  update never sends on a closed channel: it fails only when the update cannot be encoded. The
  subscriber gauge shows the number of subscriptions that are open.
\<close>

theorem dispatch_never_panics:
  assumes "srv_reach ifc marshal typename s"
  shows "fst (dispatch marshal typename now sid raw s) =
      (case marshal raw of Inl err \<Rightarrow> Some err | Inr _ \<Rightarrow> None) \<and>
    WorkerSubscribers s = int (card {r. \<exists>sub. srv_subs s r = Some sub \<and> \<not> sub_closed sub})"
proof -
  from assms have ok: "bus_ok s" by (rule srv_reach_bus)
  then show ?thesis
    by (cases "marshal raw")
      (simp_all add: dispatch_ok dispatch_unencodable bus_ok_parts(5) open_subs_def [symmetric])
qed

theorem dispatch_never_panics_witness:
  "fst (dispatch ex_marshal ex_typename 7 ''a'' ''hello'' mock_server) = None"
  using dispatch_never_panics [OF mock_server_reach, of 7 "''a''" "''hello''"] by simp



text \<open>
  One dispatch offers the update to every registered subscription: those with room queue
  it last, the full ones keep their queue, and nothing else changes in a subscription. Each
  subscriber is accounted for once, as dispatched or as dropped, and the totals advance by one
  (the 64-bit total wraps around).
\<close>

theorem dispatch_accounting:
  assumes "srv_reach ifc marshal typename s" and "marshal raw = Inr payload"
    and "dispatch marshal typename now sid raw s = (err, s')"
    and "(k, r) \<in> set (srv_subscribers s)" and "srv_subs s r = Some sub"
  shows "srv_subs s' r = Some (if length (sub_buf sub) < 256
        then sub\<lparr>sub_buf := sub_buf sub @ [mk_update sid (typename raw) payload now]\<rparr> else sub) \<and>
    UpdatesDispatched s' + UpdatesDropped s' =
      UpdatesDispatched s + UpdatesDropped s + length (srv_subscribers s) \<and>
    UpdatesReceived s' = Suc (UpdatesReceived s) \<and> srv_updatesTotal s' = srv_updatesTotal s + 1"
proof -
  from assms(1) have ok: "bus_ok s" by (rule srv_reach_bus)
  have mem: "r \<in> snd ` set (srv_subscribers s)" using assms(4) by force
  have "room s \<le> length (srv_subscribers s)" using count_room_le [of "srv_subs s" "sub_refs s"] by simp
  then show ?thesis using assms(3,5)
    unfolding dispatch_ok [where marshal = marshal and raw = raw, OF ok assms(2)]
    by (auto simp: mem offer_all_def offer_def has_room_def sub_capacity_def)
qed

theorem dispatch_accounting_witness:
  "UpdatesDispatched (snd (dispatch ex_marshal ex_typename 7 ''a'' ''hello'' mock_server)) +
   UpdatesDropped (snd (dispatch ex_marshal ex_typename 7 ''a'' ''hello'' mock_server)) = 1"
proof -
  have "(''sub-1'', 0) \<in> set (srv_subscribers mock_server)" "length (srv_subscribers mock_server) = 1"
    "UpdatesDispatched mock_server = 0" "UpdatesDropped mock_server = 0"
    by (simp_all add: server_eval)
  moreover obtain sub where "srv_subs mock_server 0 = Some sub" by (simp add: server_eval)
  ultimately show ?thesis
    using dispatch_accounting [OF mock_server_reach refl prod.collapse [symmetric],
        of "''sub-1''" 0 sub 7 "''a''" "''hello''"]
    by simp
qed

text \<open>
  The \<open>AddBot\<close> procedure. On success the reply describes the session as a ready bot, and the
  session listing has grown by exactly that entry; on failure the reply is an \<open>Internal\<close> status
  and the listing is unchanged.
\<close>

theorem AddBot_reply:
  assumes "srv_reach ifc marshal typename s" and "srv_AddBot factory now sid token s = (reply, s')"
  shows "case reply of
      Inr info \<Rightarrow> info = \<lparr>si_SessionId = sid, si_Status = ''ready'', si_Type = ''bot''\<rparr> \<and>
        mset (srv_ListSessions s') = add_mset info (mset (srv_ListSessions s))
    | Inl err \<Rightarrow> (\<exists>cause. err = StatusErr Internal ''add bot: %v'' cause) \<and>
        srv_ListSessions s' = srv_ListSessions s"
proof -
  let ?p = "srv_pool s"
  have ok: "pool_ok ?p" using assms(1) by (rule srv_reach_pool)
  show ?thesis
  proof (cases "go_get (sessions ?p) sid")
    case new: None
    show ?thesis
    proof (cases "factory sid [] token")
      case (Inr c)
      obtain p' where p': "Pool_AddBot factory now sid token ?p = (None, p')"
        using new Inr by (simp add: Pool_AddBot_def Pool_add_succeeds)
      have "Pool_Get sid ?p = None" using new by (simp add: Pool_Get_def)
      then have "Pool_Get sid p' = Some (added_session now sid TypeBot)"
        "Pool_List p' = Pool_List ?p @ [added_session now sid TypeBot]"
        using p' Pool_Get_added [OF ok, of sid factory "[]" token c now TypeBot]
          Pool_List_added [OF ok new, of factory "[]" token c now TypeBot] Inr
        by (simp_all add: Pool_AddBot_def)
      with assms(2) p' show ?thesis
        by (auto simp: srv_AddBot_def sessionInfo_def srv_ListSessions_def added_session_def)
    qed (use assms(2) new in \<open>auto simp: srv_AddBot_def Pool_AddBot_def Pool_add_fails wrap_status_def
        srv_ListSessions_def Pool_List_def\<close>)
  qed (use assms(2) in \<open>auto simp: srv_AddBot_def Pool_AddBot_def Pool_add_exists wrap_status_def
      srv_ListSessions_def\<close>)
qed

theorem AddBot_reply_witness:
  "fst (srv_AddBot mock_factory int ''b'' ''t'' mock_server) =
     Inr \<lparr>si_SessionId = ''b'', si_Status = ''ready'', si_Type = ''bot''\<rparr> \<and>
   fst (srv_AddBot mock_factory int ''a'' ''t'' mock_server) =
     Inl (StatusErr Internal ''add bot: %v'' (Errorf ''session %q already exists'' [''a'']))"
proof -
  obtain info where i: "fst (srv_AddBot mock_factory int ''b'' ''t'' mock_server) = Inr info"
    by (simp add: srv_AddBot_def Pool_AddBot_def server_eval)
  have "fst (srv_AddBot mock_factory int ''a'' ''t'' mock_server) =
     Inl (StatusErr Internal ''add bot: %v'' (Errorf ''session %q already exists'' [''a'']))"
    by (simp add: srv_AddBot_def Pool_AddBot_def wrap_status_def server_eval)
  with AddBot_reply [OF mock_server_reach prod.collapse [symmetric], of mock_factory int "''b''" "''t''"] i
  show ?thesis by simp
qed

text \<open>
  C40: the metrics reply. With fewer than \<open>2 ^ 31\<close> sessions the counts are exact: the number of
  sessions and the number of ready ones. The error count is always zero: a session whose client
  could not be created is never registered, so no session of the pool is in the error state.
\<close>

theorem GetMetrics_exact:
  assumes "srv_reach ifc marshal typename s" and "Pool_Len (srv_pool s) < 2 ^ 31"
  shows "sint (wm_SessionCount (srv_GetMetrics now s)) = int (Pool_Len (srv_pool s)) \<and>
    sint (wm_ReadyCount (srv_GetMetrics now s)) =
      int (length (filter (\<lambda>x. sess_Status x = StatusReady) (Pool_List (srv_pool s)))) \<and>
    wm_ErrorCount (srv_GetMetrics now s) = 0"
proof -
  let ?p = "srv_pool s"
  have ok: "pool_ok ?p" using assms(1) by (rule srv_reach_pool)
  have "sess_Status x \<noteq> StatusError" if "x \<in> set (Pool_List ?p)" for x
    using that Pool_Get_iff_List [OF ok, of "sess_ID x" x] ok
    by (auto simp: Pool_Get_def entry_ok_def split: option.splits if_splits elim!: pool_ok_getD)
  then have "filter (\<lambda>x. sess_Status x = StatusError) (Pool_List ?p) = []"
    by (simp add: filter_empty_conv)
  moreover have "length (filter P (Pool_List ?p)) < 2 ^ 31" for P
    using assms(2) length_Pool_List [OF ok] length_filter_le [of P "Pool_List ?p"] by linarith
  ultimately show ?thesis using assms(2)
    by (simp add: srv_GetMetrics_def Let_def count_statuses_eq length_Pool_List [OF ok] sint_of_nat_32)
qed

theorem GetMetrics_exact_witness:
  "sint (wm_SessionCount (srv_GetMetrics 0 mock_server)) = 1 \<and>
   wm_ErrorCount (srv_GetMetrics 0 mock_server) = 0"
proof -
  have "Pool_Len (srv_pool mock_server) = 1" by (simp add: server_eval)
  with GetMetrics_exact [OF mock_server_reach, of 0] show ?thesis by simp
qed

end
