(* ===== verification/Go_Strconv.thy ===== *)
theory Go_Strconv
  imports Prelude
begin

text \<open>
  The conversions between integers and text the program uses: \<open>strconv.FormatInt\<close>,
  \<open>strconv.ParseInt\<close>, \<open>strconv.Atoi\<close>, and \<open>fmt.Sscan\<close> into an \<open>int64\<close>, as the Go library
  defines them, with the round trips. A string is its list of bytes.
\<close>

section \<open>Formatting\<close>

definition digit_chr :: "nat \<Rightarrow> char" where
  "digit_chr d = char_of (48 + d)"

fun show_nat :: "nat \<Rightarrow> string" where
  "show_nat n = (if n < 10 then [digit_chr n] else show_nat (n div 10) @ [digit_chr (n mod 10)])"

declare show_nat.simps [simp del]

definition FormatInt :: "int \<Rightarrow> string" where
  "FormatInt i = (if i < 0 then CHR ''-'' # show_nat (nat (- i)) else show_nat (nat i))"

section \<open>Parsing\<close>

datatype num_error = ErrSyntax | ErrRange

definition chr_nat :: "char \<Rightarrow> nat" where
  "chr_nat c = of_char c"

definition lower :: "char \<Rightarrow> nat" where
  "lower c = (if 65 \<le> chr_nat c \<and> chr_nat c \<le> 90 then chr_nat c + 32 else chr_nat c)"

definition digit_val :: "char \<Rightarrow> nat option" where
  "digit_val c =
     (if 48 \<le> chr_nat c \<and> chr_nat c \<le> 57 then Some (chr_nat c - 48)
      else if 97 \<le> lower c \<and> lower c \<le> 122 then Some (lower c - 97 + 10)
      else None)"

text \<open>The digits of \<open>strconv.ParseUint\<close>; underscores are skipped when the base comes from a prefix.\<close>

fun parse_digits :: "nat \<Rightarrow> bool \<Rightarrow> nat \<Rightarrow> string \<Rightarrow> num_error + nat" where
  "parse_digits base base0 n [] = Inr n"
| "parse_digits base base0 n (c # cs) =
     (if c = CHR ''_'' \<and> base0 then parse_digits base base0 n cs
      else
        (case digit_val c of
           None \<Rightarrow> Inl ErrSyntax
         | Some d \<Rightarrow>
             (if base \<le> d then Inl ErrSyntax
              else if 2 ^ 64 \<le> n * base + d then Inl ErrRange
              else parse_digits base base0 (n * base + d) cs)))"

text \<open>
  Underscores may only stand between digits, the base prefix counting as one. \<open>saw\<close> is what was
  read last: nothing (0), a digit (1), an underscore (2), anything else (3).
\<close>

fun underscore_scan :: "bool \<Rightarrow> nat \<Rightarrow> string \<Rightarrow> bool" where
  "underscore_scan hex saw [] \<longleftrightarrow> saw \<noteq> 2"
| "underscore_scan hex saw (c # cs) \<longleftrightarrow>
     (if 48 \<le> chr_nat c \<and> chr_nat c \<le> 57 \<or> hex \<and> 97 \<le> lower c \<and> lower c \<le> 102 then underscore_scan hex 1 cs
      else if c = CHR ''_'' then saw = 1 \<and> underscore_scan hex 2 cs
      else saw \<noteq> 2 \<and> underscore_scan hex 3 cs)"

definition underscoreOK :: "string \<Rightarrow> bool" where
  "underscoreOK s =
     (if 2 \<le> length s \<and> s ! 0 = CHR ''0'' \<and> lower (s ! 1) \<in> {98, 111, 120}
      then underscore_scan (lower (s ! 1) = 120) 1 (drop 2 s)
      else underscore_scan False 0 s)"

text \<open>\<open>ParseUint(s, base, 64)\<close>; \<open>base = 0\<close> takes the base from the prefix.\<close>

definition ParseUint :: "string \<Rightarrow> nat \<Rightarrow> num_error + nat" where
  "ParseUint s base =
     (if s = [] then Inl ErrSyntax
      else if base \<noteq> 0 then parse_digits base False 0 s
      else
        (let (b, rest) =
           (if s ! 0 = CHR ''0'' then
              (if 3 \<le> length s \<and> lower (s ! 1) = 98 then (2, drop 2 s)
               else if 3 \<le> length s \<and> lower (s ! 1) = 111 then (8, drop 2 s)
               else if 3 \<le> length s \<and> lower (s ! 1) = 120 then (16, drop 2 s)
               else (8, drop 1 s))
            else (10, s))
         in case parse_digits b True 0 rest of
              Inl e \<Rightarrow> Inl e
            | Inr n \<Rightarrow> (if CHR ''_'' \<in> set rest \<and> \<not> underscoreOK s then Inl ErrSyntax else Inr n)))"

definition ParseInt :: "string \<Rightarrow> nat \<Rightarrow> num_error + int" where
  "ParseInt s base =
     (if s = [] then Inl ErrSyntax
      else
        (let neg = (s ! 0 = CHR ''-''); t = (if s ! 0 = CHR ''+'' \<or> neg then drop 1 s else s) in
         case ParseUint t base of
           Inl e \<Rightarrow> Inl e
         | Inr un \<Rightarrow>
             (if \<not> neg \<and> 2 ^ 63 \<le> un then Inl ErrRange
              else if neg \<and> 2 ^ 63 < un then Inl ErrRange
              else Inr (if neg then - int un else int un))))"

definition Atoi :: "string \<Rightarrow> num_error + int" where
  "Atoi s = ParseInt s 10"

section \<open>Scanning\<close>

text \<open>
  \<open>fmt.Sscan(s, &n)\<close> with \<open>n\<close> an \<open>int64\<close>: leading ASCII white space is skipped, then the longest
  token of a sign, a base prefix and digits is read and converted with base 0; what follows is
  ignored, and after an error \<open>n\<close> stays 0.
\<close>

definition is_space :: "char \<Rightarrow> bool" where
  "is_space c \<longleftrightarrow> chr_nat c = 32 \<or> 9 \<le> chr_nat c \<and> chr_nat c \<le> 13"

definition scan_digit :: "nat \<Rightarrow> char \<Rightarrow> bool" where
  "scan_digit base c \<longleftrightarrow> c = CHR ''_'' \<or> (case digit_val c of None \<Rightarrow> False | Some d \<Rightarrow> d < base)"

definition scan_number :: "string \<Rightarrow> string option" where
  "scan_number s =
     (case s of
        [] \<Rightarrow> None
      | c # cs \<Rightarrow>
          (if c = CHR ''0'' then
             (case cs of
                [] \<Rightarrow> Some [c]
              | p # ds \<Rightarrow>
                  (if lower p = 98 then Some (c # p # takeWhile (scan_digit 2) ds)
                   else if lower p = 111 then Some (c # p # takeWhile (scan_digit 8) ds)
                   else if lower p = 120 then Some (c # p # takeWhile (scan_digit 16) ds)
                   else Some (c # takeWhile (scan_digit 8) cs)))
           else if scan_digit 10 c then Some (takeWhile (scan_digit 10) s)
           else None))"

definition Sscan_int64 :: "string \<Rightarrow> int" where
  "Sscan_int64 s =
     (let t = dropWhile is_space s;
          (sign, rest) = (if t \<noteq> [] \<and> t ! 0 \<in> {CHR ''+'', CHR ''-''} then ([t ! 0], drop 1 t) else ([], t))
      in case scan_number rest of
           None \<Rightarrow> 0
         | Some tok \<Rightarrow> (case ParseInt (sign @ tok) 0 of Inl _ \<Rightarrow> 0 | Inr n \<Rightarrow> n))"

section \<open>Round trips\<close>

lemma chr_nat_digit [simp]: "d < 10 \<Longrightarrow> chr_nat (digit_chr d) = 48 + d"
  by (simp add: chr_nat_def digit_chr_def)

lemma digit_val_digit [simp]: "d < 10 \<Longrightarrow> digit_val (digit_chr d) = Some d"
  by (simp add: digit_val_def)

lemma digit_chr_neq:
  assumes "d < 10"
  shows "digit_chr d \<noteq> CHR ''_''" and "digit_chr d \<noteq> CHR ''-''" and "digit_chr d \<noteq> CHR ''+''" and "\<not> is_space (digit_chr d)"
proof -
  have d: "chr_nat (digit_chr d) = 48 + d" using assms by (rule chr_nat_digit)
  have c: "chr_nat (CHR ''_'') = 95" "chr_nat (CHR ''-'') = 45" "chr_nat (CHR ''+'') = 43" by (simp_all add: chr_nat_def)
  have "48 + d \<noteq> 95" using assms by simp
  then show "digit_chr d \<noteq> CHR ''_''" using d c(1) by metis
  have "48 + d \<noteq> 45" "48 + d \<noteq> 43" by simp_all
  then show "digit_chr d \<noteq> CHR ''-''" and "digit_chr d \<noteq> CHR ''+''" using d c(2,3) by metis+
  show "\<not> is_space (digit_chr d)" using assms by (simp add: is_space_def)
qed

lemma digit_chr_zero: "d < 10 \<Longrightarrow> digit_chr d = CHR ''0'' \<longleftrightarrow> d = 0"
proof -
  assume d: "d < 10"
  have "chr_nat (digit_chr d) = 48 + d" using d by (rule chr_nat_digit)
  moreover have "chr_nat (CHR ''0'') = 48" by (simp add: chr_nat_def)
  moreover have "digit_chr 0 = CHR ''0''" by code_simp
  ultimately show ?thesis by auto
qed

lemma show_nat_digits: "list_all (\<lambda>c. \<exists>d < 10. c = digit_chr d) (show_nat n)"
proof (induction n rule: show_nat.induct)
  case (1 n)
  have "\<exists>d < 10. digit_chr (n mod 10) = digit_chr d" by (rule exI [of _ "n mod 10"]) simp
  with 1 show ?case by (subst show_nat.simps) auto
qed

lemma show_nat_nonempty [simp]: "show_nat n \<noteq> []"
  by (subst show_nat.simps) simp

lemma show_nat_hd: "0 < n \<Longrightarrow> \<exists>d ds. show_nat n = digit_chr d # ds \<and> 0 < d \<and> d < 10"
proof (induction n rule: show_nat.induct)
  case (1 n)
  show ?case
  proof (cases "n < 10")
    case False
    then obtain d ds where "show_nat (n div 10) = digit_chr d # ds" "0 < d" "d < 10" using 1(1) by fastforce
    then show ?thesis using False by (subst show_nat.simps) auto
  qed (use 1 in \<open>subst show_nat.simps, auto\<close>)
qed

lemma parse_digits_append:
  "parse_digits base b0 n (xs @ ys) =
     (case parse_digits base b0 n xs of Inl e \<Rightarrow> Inl e | Inr m \<Rightarrow> parse_digits base b0 m ys)"
  by (induction base b0 n xs rule: parse_digits.induct) (auto split: option.splits)

lemma parse_show_nat: "n < 2 ^ 64 \<Longrightarrow> parse_digits 10 b0 0 (show_nat n) = Inr n"
proof (induction n rule: show_nat.induct)
  case (1 n)
  have neq: "digit_chr d \<noteq> CHR ''_''" if "d < 10" for d using digit_chr_neq(1) [OF that] .
  show ?case
  proof (cases "n < 10")
    case True
    then show ?thesis using neq by (subst show_nat.simps) simp
  next
    case False
    then have "parse_digits 10 b0 0 (show_nat (n div 10)) = Inr (n div 10)" using 1 by auto
    moreover have "n div 10 * 10 + n mod 10 = n" by simp
    ultimately show ?thesis using False 1(2) neq [of "n mod 10"]
      by (subst show_nat.simps) (simp add: parse_digits_append)
  qed
qed

lemma ParseInt_FormatInt:
  assumes "- (2 ^ 63) \<le> i" "i < 2 ^ 63"
  shows "ParseInt (FormatInt i) 10 = Inr i"
proof -
  have hd: "show_nat n ! 0 \<noteq> CHR ''-'' \<and> show_nat n ! 0 \<noteq> CHR ''+''" for n
  proof -
    obtain d ds where "show_nat n = d # ds" "\<exists>k < 10. d = digit_chr k"
      using show_nat_digits [of n] by (cases "show_nat n") auto
    then show ?thesis using digit_chr_neq by auto
  qed
  show ?thesis
  proof (cases "i < 0")
    case True
    have "nat (- i) < 2 ^ 64" using assms by simp
    from parse_show_nat [OF this] have "ParseUint (show_nat (nat (- i))) 10 = Inr (nat (- i))"
      by (simp add: ParseUint_def)
    then show ?thesis using True assms by (simp add: FormatInt_def ParseInt_def)
  next
    case False
    have "nat i < 2 ^ 64" using assms by simp
    from parse_show_nat [OF this] have "ParseUint (show_nat (nat i)) 10 = Inr (nat i)"
      by (simp add: ParseUint_def)
    then show ?thesis using False assms hd [of "nat i"] by (simp add: FormatInt_def ParseInt_def)
  qed
qed

lemma FormatInt_inj:
  "- (2 ^ 63) \<le> i \<Longrightarrow> i < 2 ^ 63 \<Longrightarrow> - (2 ^ 63) \<le> j \<Longrightarrow> j < 2 ^ 63 \<Longrightarrow> FormatInt i = FormatInt j \<longleftrightarrow> i = j"
  by (metis ParseInt_FormatInt sum.inject(2))

lemma scan_show_nat:
  assumes "n < 2 ^ 64"
  shows "scan_number (show_nat n) = Some (show_nat n) \<and> ParseUint (show_nat n) 0 = Inr n"
proof (cases "n = 0")
  case True
  have "digit_chr 0 = CHR ''0''" using digit_chr_zero [of 0] by simp
  then have "show_nat n = ''0''" using True by (subst show_nat.simps) simp
  then show ?thesis using True by (simp add: scan_number_def ParseUint_def)
next
  case False
  then obtain d ds where s: "show_nat n = digit_chr d # ds" and d: "0 < d" "d < 10" using show_nat_hd by blast
  have nz: "digit_chr d \<noteq> CHR ''0''" using digit_chr_zero d by simp
  have all: "list_all (scan_digit 10) (show_nat n)"
    using show_nat_digits [of n] by (auto simp: list_all_iff scan_digit_def)
  then have "takeWhile (scan_digit 10) (show_nat n) = show_nat n" by (simp add: list_all_iff)
  moreover have "scan_digit 10 (digit_chr d)" using all s by simp
  moreover have "CHR ''_'' \<notin> set (show_nat n)" using show_nat_digits [of n] digit_chr_neq(1) by (fastforce simp: list_all_iff)
  ultimately show ?thesis using s nz parse_show_nat [OF assms, of True] by (simp add: scan_number_def ParseUint_def)
qed

lemma Sscan_FormatInt:
  assumes "- (2 ^ 63) \<le> i" "i < 2 ^ 63"
  shows "Sscan_int64 (FormatInt i) = i"
proof -
  obtain d ds where s: "show_nat (nat \<bar>i\<bar>) = digit_chr d # ds" and d: "d < 10"
    using show_nat_digits [of "nat \<bar>i\<bar>"] by (cases "show_nat (nat \<bar>i\<bar>)") auto
  note neq = digit_chr_neq [OF d]
  have n: "nat \<bar>i\<bar> < 2 ^ 64" using assms by simp
  note scan = scan_show_nat [OF n]
  have sp: "\<not> is_space (CHR ''-'')" by (simp add: is_space_def chr_nat_def)
  show ?thesis
  proof (cases "i < 0")
    case True
    then have f: "FormatInt i = CHR ''-'' # show_nat (nat \<bar>i\<bar>)" by (simp add: FormatInt_def)
    have "ParseInt (CHR ''-'' # show_nat (nat \<bar>i\<bar>)) 0 = Inr i"
      using scan True assms by (simp add: ParseInt_def)
    then show ?thesis using scan sp by (simp add: Sscan_int64_def f)
  next
    case False
    then have f: "FormatInt i = show_nat (nat \<bar>i\<bar>)" by (simp add: FormatInt_def)
    have "ParseInt (show_nat (nat \<bar>i\<bar>)) 0 = Inr i"
      using scan False assms neq s by (simp add: ParseInt_def)
    then show ?thesis using scan neq s by (simp add: Sscan_int64_def f)
  qed
qed

end
