(* ===== verification/Update_Stream.thy ===== *)
theory Update_Stream
  imports Worker_Server Go_Strconv "HOL-Library.Sublist"
begin

text \<open>
  The Redis stream of updates. \<open>internal/stream\<close> publishes every update of every worker to it; the
  webhook dispatcher and the replicator read it with the same loop. Redis is a parameter: its two
  commands are arguments of the definitions, and the locale \<open>redis_stream\<close> states what its
  documentation promises about \<open>XREAD\<close> on a stream whose writers cap it: a reader that falls far
  enough behind loses what has been trimmed.
\<close>

section \<open>Publishing\<close>

text \<open>The dynamic types that occur as field values, and their encoding as bulk strings.\<close>

datatype rval = RString string | RInt64 int | RBytes string | RNil

type_synonym rvals = "(string, rval) gomap"

definition UpdatesStream :: string where
  "UpdatesStream = ''tgplane:updates''"

definition MaxLen :: nat where
  "MaxLen = 10000"

definition publish_values :: "string \<Rightarrow> TelegramUpdate \<Rightarrow> int \<Rightarrow> rvals" where
  "publish_values workerID upd now =
     [(''session_id'', RString (upd_SessionId upd)),
      (''worker_id'', RString workerID),
      (''type'', RString (upd_Type upd)),
      (''payload'', RBytes (upd_Payload upd)),
      (''received_at'', RInt64 now)]"

definition Publish ::
  "(string \<Rightarrow> nat \<Rightarrow> bool \<Rightarrow> rvals \<Rightarrow> 'q \<Rightarrow> error option \<times> 'q) \<Rightarrow> string \<Rightarrow> TelegramUpdate \<Rightarrow> int \<Rightarrow> 'q \<Rightarrow>
   error option \<times> 'q" where
  "Publish xadd workerID upd now q = xadd UpdatesStream MaxLen True (publish_values workerID upd now) q"

text \<open>What a reader of the stream gets back: every field value is a string.\<close>

fun encode_rval :: "rval \<Rightarrow> rval" where
  "encode_rval (RString s) = RString s"
| "encode_rval (RInt64 i) = RString (FormatInt i)"
| "encode_rval (RBytes b) = RString b"
| "encode_rval RNil = RString []"

definition encode_vals :: "rvals \<Rightarrow> rvals" where
  "encode_vals vs = map (\<lambda>(k, v). (k, encode_rval v)) vs"

section \<open>Reading\<close>

datatype read_result = ReadMsgs "(string \<times> rvals) list" | ReadNil | ReadErr error

text \<open>The loop over the messages of one reply: the last identifier, then the handler.\<close>

fun handle_msgs :: "(string \<Rightarrow> rvals \<Rightarrow> 'w \<Rightarrow> 'w) \<Rightarrow> (string \<times> rvals) list \<Rightarrow> string \<Rightarrow> 'w \<Rightarrow> string \<times> 'w" where
  "handle_msgs handle [] lastID w = (lastID, w)"
| "handle_msgs handle ((i, vals) # msgs) lastID w = handle_msgs handle msgs i (handle i vals w)"

text \<open>
  The loop of \<open>Dispatcher.Run\<close> and \<open>Replicator.Run\<close>, for the number of iterations given first. The
  flag of the result says whether the loop has returned, which it does only on cancellation. An
  error of \<open>XREAD\<close>, a time-out included, leaves the identifier to read from as it was.
\<close>

fun stream_loop :: "nat \<Rightarrow> ('q \<Rightarrow> bool) \<Rightarrow> (string \<Rightarrow> nat \<Rightarrow> 'q \<Rightarrow> read_result \<times> 'q) \<Rightarrow> nat \<Rightarrow>
    (string \<Rightarrow> rvals \<Rightarrow> 'w \<Rightarrow> 'w) \<Rightarrow> string \<Rightarrow> 'q \<Rightarrow> 'w \<Rightarrow> bool \<times> string \<times> 'q \<times> 'w" where
  "stream_loop 0 ctx_done xread cnt handle lastID q w = (False, lastID, q, w)"
| "stream_loop (Suc n) ctx_done xread cnt handle lastID q w =
     (if ctx_done q then (True, lastID, q, w)
      else
        (case xread lastID cnt q of
           (ReadMsgs msgs, q') \<Rightarrow>
             (let (lastID', w') = handle_msgs handle msgs lastID w
              in stream_loop n ctx_done xread cnt handle lastID' q' w')
         | (_, q') \<Rightarrow>
             (if ctx_done q' then (True, lastID, q', w)
              else stream_loop n ctx_done xread cnt handle lastID q' w)))"

definition handled :: "(string \<Rightarrow> rvals \<Rightarrow> 'w \<Rightarrow> 'w) \<Rightarrow> (string \<times> rvals) list \<Rightarrow> 'w \<Rightarrow> 'w" where
  "handled handle msgs w = foldl (\<lambda>w (i, vals). handle i vals w) w msgs"

definition last_id :: "string \<Rightarrow> (string \<times> rvals) list \<Rightarrow> string" where
  "last_id d msgs = (if msgs = [] then d else fst (last msgs))"

lemma handle_msgs_eq: "handle_msgs handle msgs lastID w = (last_id lastID msgs, handled handle msgs w)"
  by (induction msgs arbitrary: lastID w) (auto simp: last_id_def handled_def)

lemma handled_simps [simp]:
  "handled handle [] w = w"
  "handled handle (xs @ ys) w = handled handle ys (handled handle xs w)"
  by (simp_all add: handled_def)

lemma last_id_append [simp]: "last_id d (xs @ ys) = last_id (last_id d xs) ys"
  by (simp add: last_id_def)

section \<open>Reading a capped stream\<close>

text \<open>
  \<open>picked start t es ms\<close>: \<open>ms\<close> are entries of \<open>es\<close> in their order, none twice and none before
  position \<open>start\<close>, and an entry between two of them is left out only when it is one of the oldest
  \<open>t\<close>.
\<close>

definition picked :: "nat \<Rightarrow> nat \<Rightarrow> 'a list \<Rightarrow> 'a list \<Rightarrow> bool" where
  "picked start t es ms \<longleftrightarrow>
     (\<exists>P. ms = nths es P \<and> P \<subseteq> {start..<length es} \<and>
       (\<forall>a\<in>P. \<forall>b\<in>P. \<forall>k. a < k \<and> k < b \<and> k \<notin> P \<longrightarrow> k < t))"

lemma nths_agree: "(\<And>k. k < length xs \<Longrightarrow> k \<in> A \<longleftrightarrow> k \<in> B) \<Longrightarrow> nths xs A = nths xs B"
  unfolding nths_def by (intro arg_cong [where f = "map fst"] filter_cong) (auto simp: set_zip)

lemma nths_none: "(\<And>k. k < length xs \<Longrightarrow> k \<notin> A) \<Longrightarrow> nths xs A = []"
  using nths_agree [of xs A "{}"] by simp

lemma nths_every: "(\<And>k. k < length xs \<Longrightarrow> k \<in> A) \<Longrightarrow> nths xs A = xs"
  by (rule nths_all) blast

lemma picked_Nil: "picked start t es []"
  unfolding picked_def by (intro exI [of _ "{}"]) simp

lemma picked_subseq: "picked start t es ms \<Longrightarrow> subseq ms es"
  unfolding picked_def subseq_conv_nths by blast

lemma picked_map:
  assumes "picked start t (map f es) ms"
  obtains zs where "picked start t es zs" "ms = map f zs"
  using assms unfolding picked_def by (auto simp: nths_map)

lemma picked_snd: "picked start t es ms \<Longrightarrow> picked start t (map f es) (map f ms)"
  unfolding picked_def by (auto simp: nths_map)

lemma pickedE:
  assumes "picked start t es ms"
  obtains P where "ms = nths es P" "P \<subseteq> {start..<length es}"
    "\<And>a b k. a \<in> P \<Longrightarrow> b \<in> P \<Longrightarrow> a < k \<Longrightarrow> k < b \<Longrightarrow> k \<notin> P \<Longrightarrow> k < t"
proof -
  from assms obtain P where P: "ms = nths es P \<and> P \<subseteq> {start..<length es} \<and>
      (\<forall>a\<in>P. \<forall>b\<in>P. \<forall>k. a < k \<and> k < b \<and> k \<notin> P \<longrightarrow> k < t)"
    unfolding picked_def by (rule exE)
  show thesis by (rule that [of P]) (use P in simp_all)
qed

lemma picked_drop:
  assumes "picked (length xs) t (xs @ ys) ms"
  shows "picked 0 (t - length xs) ys ms"
proof -
  obtain P where P: "ms = nths (xs @ ys) P" "P \<subseteq> {length xs..<length (xs @ ys)}"
    "\<And>a b k. a \<in> P \<Longrightarrow> b \<in> P \<Longrightarrow> a < k \<Longrightarrow> k < b \<Longrightarrow> k \<notin> P \<Longrightarrow> k < t"
    using assms by (rule pickedE) (rule that)
  have "nths xs P = []" using P(2) by (intro nths_none) auto
  then have "ms = nths ys {j. j + length xs \<in> P}" using P(1) by (simp add: nths_append)
  moreover have "{j. j + length xs \<in> P} \<subseteq> {0..<length ys}" using P(2) by auto
  moreover have "k < t - length xs" if "a + length xs \<in> P" "b + length xs \<in> P" "a < k" "k < b" "k + length xs \<notin> P" for a b k
    using P(3) [OF that(1,2), of "k + length xs"] that(3-5) by simp
  ultimately show ?thesis unfolding picked_def by (intro exI [of _ "{j. j + length xs \<in> P}"]) (simp add: less_diff_conv)
qed

text \<open>When nothing after the start was trimmed, they are a run of consecutive entries.\<close>

lemma picked_run:
  assumes "picked start t es ms" "t \<le> start" "start \<le> length es"
  shows "\<exists>pre post. es = pre @ ms @ post \<and> start \<le> length pre"
proof -
  obtain P where P: "ms = nths es P" "P \<subseteq> {start..<length es}"
    "\<And>a b k. a \<in> P \<Longrightarrow> b \<in> P \<Longrightarrow> a < k \<Longrightarrow> k < b \<Longrightarrow> k \<notin> P \<Longrightarrow> k < t"
    using assms(1) by (rule pickedE) (rule that)
  show ?thesis
  proof (cases "P = {}")
    case True
    then show ?thesis using P(1) assms(3) by (intro exI [of _ es] exI [of _ "[]"]) simp
  next
    case False
    have fin: "finite P" using P(2) finite_subset by blast
    define a b where "a = Min P" and "b = Max P"
    have ab: "a \<in> P" "b \<in> P" "\<And>k. k \<in> P \<Longrightarrow> a \<le> k \<and> k \<le> b" using fin False by (simp_all add: a_def b_def)
    have mid: "k \<in> P" if "a \<le> k" "k \<le> b" for k
    proof (rule ccontr)
      assume k: "k \<notin> P"
      then have "a < k" "k < b" using that ab(1,2) by (metis le_neq_implies_less)+
      then have "k < t" using P(3) ab k by blast
      moreover have "start \<le> k" using ab(1) P(2) \<open>a < k\<close> by auto
      ultimately show False using assms(2) by simp
    qed
    have bounds: "start \<le> a" "a \<le> b" "b < length es" using ab P(2) by auto
    have split: "es = take a es @ take (Suc b - a) (drop a es) @ drop (Suc b) es"
    proof -
      have "drop (Suc b) es = drop (Suc b - a) (drop a es)" using bounds(2) by (simp add: add.commute)
      then show ?thesis by (metis append_take_drop_id)
    qed
    have "nths es P = nths (take a es @ take (Suc b - a) (drop a es) @ drop (Suc b) es) P" using split by simp
    also have "\<dots> = nths (take a es) P @ nths (take (Suc b - a) (drop a es)) {j. j + a \<in> P} @ nths (drop (Suc b) es) {j. j + Suc b \<in> P}"
      using bounds by (simp add: nths_append min_def add.commute add.left_commute)
    also have "nths (take a es) P = []" using ab(3) by (intro nths_none) fastforce
    also have "nths (take (Suc b - a) (drop a es)) {j. j + a \<in> P} = take (Suc b - a) (drop a es)"
      using mid bounds by (intro nths_every) auto
    also have "nths (drop (Suc b) es) {j. j + Suc b \<in> P} = []" using ab(3) by (intro nths_none) fastforce
    finally have "ms = take (Suc b - a) (drop a es)" using P(1) by simp
    moreover have "length (take a es) = a" using bounds by simp
    ultimately show ?thesis using split bounds(1) by metis
  qed
qed

section \<open>What Redis promises\<close>

text \<open>
  \<open>entries q\<close> is everything added to the stream so far, oldest first, of which the first \<open>trimmed q\<close>
  have been removed again. The writers cap the stream at \<open>cap\<close> entries, exactly or approximately:
  the server trims the oldest ones, and never so many that fewer than \<open>cap\<close> are left. Reading after
  an identifier returns entries that follow it without a gap from the first one that is left, at
  most as many as asked for; reading from \<open>$\<close> returns entries added after the call.
\<close>

locale redis_stream =
  fixes ok :: "'q \<Rightarrow> bool" and entries :: "'q \<Rightarrow> (string \<times> rvals) list" and trimmed :: "'q \<Rightarrow> nat" and cap :: nat
    and xread :: "string \<Rightarrow> nat \<Rightarrow> 'q \<Rightarrow> read_result \<times> 'q"
  assumes ids: "ok q \<Longrightarrow> gomap_ok (entries q) \<and> ''$'' \<notin> fst ` set (entries q)"
    and capped: "ok q \<Longrightarrow> trimmed q \<le> length (entries q) - cap"
    and keeps: "ok q \<Longrightarrow> xread i n q = (r, q') \<Longrightarrow> ok q' \<and> prefix (entries q) (entries q') \<and> trimmed q \<le> trimmed q'"
    and read_new: "ok q \<Longrightarrow> xread ''$'' n q = (ReadMsgs ms, q') \<Longrightarrow>
      \<exists>seen. prefix (entries q) seen \<and> prefix (seen @ ms) (entries q')"
    and read_after: "ok q \<Longrightarrow> entries q = pre @ (i, v) # post \<Longrightarrow> xread i n q = (ReadMsgs ms, q') \<Longrightarrow>
      \<exists>lost. prefix (pre @ (i, v) # lost @ ms) (entries q') \<and> (lost = [] \<or> Suc (length pre + length lost) \<le> trimmed q')"
begin

text \<open>
  Where a reader stands: it has handled nothing and will ask for what is new, or it has handled the
  entries at the positions \<open>P\<close> and will ask for what follows the last of them.
\<close>

definition reader_pos :: "nat \<Rightarrow> string \<Rightarrow> 'q \<Rightarrow> (string \<times> rvals) list \<Rightarrow> bool" where
  "reader_pos start i q msgs \<longleftrightarrow>
     (\<exists>pre v post P. entries q = pre @ (i, v) # post \<and> msgs = nths (pre @ [(i, v)]) P \<and>
       P \<subseteq> {start..length pre} \<and> length pre \<in> P \<and> (\<forall>a\<in>P. \<forall>k. a < k \<and> k < length pre \<and> k \<notin> P \<longrightarrow> k < trimmed q))"

definition reader_at :: "(string \<times> rvals) list \<Rightarrow> string \<Rightarrow> 'q \<Rightarrow> (string \<times> rvals) list \<Rightarrow> bool" where
  "reader_at start lastID q msgs \<longleftrightarrow> ok q \<and> prefix start (entries q) \<and>
     (msgs = [] \<and> lastID = ''$'' \<or> reader_pos (length start) lastID q msgs)"

lemma reader_start: "ok q \<Longrightarrow> reader_at (entries q) ''$'' q []"
  by (simp add: reader_at_def)

lemma reader_pos_later:
  assumes "reader_pos start i q msgs" "prefix (entries q) (entries q')" "trimmed q \<le> trimmed q'"
  shows "reader_pos start i q' msgs"
proof -
  from assms(1) obtain pre v post P where r: "entries q = pre @ (i, v) # post" "msgs = nths (pre @ [(i, v)]) P"
    "P \<subseteq> {start..length pre}" "length pre \<in> P" "\<forall>a\<in>P. \<forall>k. a < k \<and> k < length pre \<and> k \<notin> P \<longrightarrow> k < trimmed q"
    unfolding reader_pos_def by blast
  from assms(2) r(1) obtain more where "entries q' = pre @ (i, v) # (post @ more)" by (auto elim: prefixE)
  moreover have "\<forall>a\<in>P. \<forall>k. a < k \<and> k < length pre \<and> k \<notin> P \<longrightarrow> k < trimmed q'" using r(5) assms(3) by (meson less_le_trans)
  ultimately show ?thesis using r(2-4) unfolding reader_pos_def by blast
qed

lemma reader_idle:
  assumes "reader_at start lastID q msgs" "xread lastID n q = (r, q')"
  shows "reader_at start lastID q' msgs"
proof -
  from assms have "ok q" by (simp add: reader_at_def)
  from keeps [OF this assms(2)] assms(1) show ?thesis
    unfolding reader_at_def by (auto intro: reader_pos_later prefix_order.trans)
qed

lemma reader_first:
  assumes "ms \<noteq> []" "prefix start seen" "prefix (seen @ ms) (entries q)"
  shows "reader_pos (length start) (last_id i ms) q ms"
proof -
  obtain front j v where ms: "ms = front @ [(j, v)]" using assms(1) by (metis rev_exhaust surj_pair)
  obtain post where e: "entries q = (seen @ front) @ (j, v) # post" using assms(3) ms by (auto elim: prefixE)
  have "nths seen {length seen..length (seen @ front)} = []" by (rule nths_none) simp
  moreover have "nths (front @ [(j, v)]) {k. k + length seen \<in> {length seen..length (seen @ front)}} = front @ [(j, v)]"
    by (rule nths_every) auto
  ultimately have "ms = nths ((seen @ front) @ [(j, v)]) {length seen..length (seen @ front)}"
    using ms nths_append [of seen "front @ [(j, v)]"] by simp
  moreover have "length start \<le> length seen" using assms(2) by (rule prefix_length_le)
  ultimately show ?thesis using e ms unfolding reader_pos_def last_id_def
    by (intro exI [of _ "seen @ front"] exI [of _ v] exI [of _ post] exI [of _ "{length seen..length (seen @ front)}"]) auto
qed

lemma reader_next:
  assumes r: "reader_pos start i q msgs" and ok: "ok q" and x: "xread i n q = (ReadMsgs ms, q')" and ne: "ms \<noteq> []"
  shows "reader_pos start (last_id i ms) q' (msgs @ ms)"
proof -
  from r obtain pre v post P where r: "entries q = pre @ (i, v) # post" "msgs = nths (pre @ [(i, v)]) P"
    "P \<subseteq> {start..length pre}" "length pre \<in> P" "\<And>a k. a \<in> P \<Longrightarrow> a < k \<Longrightarrow> k < length pre \<Longrightarrow> k \<notin> P \<Longrightarrow> k < trimmed q"
    unfolding reader_pos_def by blast
  obtain lost where lost: "prefix (pre @ (i, v) # lost @ ms) (entries q')" "lost = [] \<or> Suc (length pre + length lost) \<le> trimmed q'"
    using read_after [OF ok r(1) x] by blast
  obtain front j u where ms: "ms = front @ [(j, u)]" using ne by (metis rev_exhaust surj_pair)
  let ?seen = "pre @ [(i, v)]"
  define pre' where "pre' = ?seen @ lost @ front"
  define s where "s = length ?seen + length lost"
  define Q where "Q = P \<union> {s..length pre'}"
  obtain post' where e: "entries q' = pre' @ (j, u) # post'" using lost(1) ms unfolding pre'_def by (auto elim: prefixE)
  have "nths ?seen Q = msgs" unfolding r(2) by (rule nths_agree) (auto simp: Q_def s_def)
  moreover have "nths lost {k. k + length ?seen \<in> Q} = []" using r(3) by (intro nths_none) (auto simp: Q_def s_def)
  moreover have "nths ms {k. k + s \<in> Q} = ms" using ms by (intro nths_every) (auto simp: Q_def s_def pre'_def)
  ultimately have "nths (?seen @ lost @ ms) Q = msgs @ ms"
    using nths_append [of ?seen "lost @ ms" Q] nths_append [of lost ms] by (simp add: s_def add.commute add.left_commute)
  then have 1: "msgs @ ms = nths (pre' @ [(j, u)]) Q" using ms by (simp add: pre'_def)
  have 2: "Q \<subseteq> {start..length pre'}" "length pre' \<in> Q" using r(3,4) by (auto simp: Q_def s_def pre'_def)
  have mono: "trimmed q \<le> trimmed q'" using keeps [OF ok x] by simp
  have 3: "k < trimmed q'" if "a \<in> Q" "a < k" "k < length pre'" "k \<notin> Q" for a k
  proof (cases "k < length pre")
    case True
    then have "a \<in> P" using that(1,2) by (auto simp: Q_def s_def)
    then show ?thesis using r(5) [OF _ that(2) True] that(4) mono by (auto simp: Q_def)
  next
    case False
    have "k \<noteq> length pre" using that(4) r(4) by (auto simp: Q_def)
    then have "length pre < k" "k < s" using that(3,4) False by (auto simp: Q_def)
    then show ?thesis using lost(2) by (auto simp: s_def)
  qed
  show ?thesis using e 1 2 3 ms unfolding reader_pos_def last_id_def
    by (intro exI [of _ pre'] exI [of _ u] exI [of _ post'] exI [of _ Q]) auto
qed

lemma reader_reads:
  assumes r: "reader_at start lastID q msgs" and x: "xread lastID n q = (ReadMsgs ms, q')"
  shows "reader_at start (last_id lastID ms) q' (msgs @ ms)"
proof (cases "ms = []")
  case True
  then show ?thesis using reader_idle [OF r x] by (simp add: last_id_def)
next
  case False
  have ok: "ok q" and start: "prefix start (entries q)" using r by (auto simp: reader_at_def)
  have q': "ok q'" "prefix (entries q) (entries q')" using keeps [OF ok x] by simp_all
  have "reader_pos (length start) (last_id lastID ms) q' (msgs @ ms)"
  proof (cases "reader_pos (length start) lastID q msgs")
    case True
    then show ?thesis by (rule reader_next [OF _ ok x False])
  next
    case new: False
    then have l: "msgs = []" "lastID = ''$''" using r by (auto simp: reader_at_def)
    obtain seen where "prefix (entries q) seen" "prefix (seen @ ms) (entries q')" using read_new [OF ok] x l(2) by blast
    then show ?thesis using reader_first [OF False] start l(1) prefix_order.trans by fastforce
  qed
  then show ?thesis using q' start prefix_order.trans by (auto simp: reader_at_def)
qed

lemma reader_last_id:
  assumes "reader_at start lastID q msgs"
  shows "lastID = last_id ''$'' msgs"
proof (cases "msgs = [] \<and> lastID = ''$''")
  case True
  then show ?thesis by (simp add: last_id_def)
next
  case False
  then obtain pre v P where "msgs = nths (pre @ [(lastID, v)]) P" "length pre \<in> P"
    using assms unfolding reader_at_def reader_pos_def by blast
  then have "msgs = nths pre P @ [(lastID, v)]" by (simp add: nths_append)
  then show ?thesis by (simp add: last_id_def)
qed

lemma reader_picked:
  assumes "reader_at start lastID q msgs"
  shows "picked (length start) (length (entries q) - cap) (entries q) msgs"
proof (cases "msgs = []")
  case True
  then show ?thesis by (simp add: picked_Nil)
next
  case False
  then obtain pre i v post P where r: "entries q = pre @ (i, v) # post" "msgs = nths (pre @ [(i, v)]) P"
    "P \<subseteq> {length start..length pre}" "\<And>a k. a \<in> P \<Longrightarrow> a < k \<Longrightarrow> k < length pre \<Longrightarrow> k \<notin> P \<Longrightarrow> k < trimmed q"
    using assms unfolding reader_at_def reader_pos_def by blast
  have "nths post {k. k + length (pre @ [(i, v)]) \<in> P} = []" using r(3) by (intro nths_none) auto
  then have "msgs = nths (entries q) P" using r(1,2) nths_append [of "pre @ [(i, v)]" post P] by simp
  moreover have "P \<subseteq> {length start..<length (entries q)}" using r(1,3) by auto
  moreover have "k < length (entries q) - cap" if "a \<in> P" "b \<in> P" "a < k" "k < b" "k \<notin> P" for a b k
  proof -
    have "k < length pre" using that(2,4) r(3) by fastforce
    then have "k < trimmed q" using r(4) that by blast
    also have "trimmed q \<le> length (entries q) - cap" using capped assms by (simp add: reader_at_def)
    finally show ?thesis .
  qed
  ultimately show ?thesis unfolding picked_def by (intro exI [of _ P]) blast
qed

lemma stream_loop_reader:
  assumes "reader_at start lastID q msgs"
    and "stream_loop n ctx_done xread cnt handle lastID q w = (ret, lastID', q', w')"
  shows "\<exists>ms. reader_at start lastID' q' (msgs @ ms) \<and> w' = handled handle ms w"
  using assms
proof (induction n arbitrary: lastID q w msgs)
  case 0
  then show ?case by (intro exI [of _ "[]"]) simp
next
  case (Suc n)
  show ?case
  proof (cases "ctx_done q")
    case True
    then show ?thesis using Suc.prems by (intro exI [of _ "[]"]) simp
  next
    case False
    obtain r q1 where x: "xread lastID cnt q = (r, q1)" by fastforce
    note idle = reader_idle [OF Suc.prems(1) x]
    show ?thesis
    proof (cases r)
      case (ReadMsgs ms)
      then have "stream_loop n ctx_done xread cnt handle (last_id lastID ms) q1 (handled handle ms w) = (ret, lastID', q', w')"
        using Suc.prems(2) False x by (simp add: handle_msgs_eq)
      from Suc.IH [OF reader_reads [OF Suc.prems(1) x [unfolded ReadMsgs]] this]
      obtain ms' where "reader_at start lastID' q' ((msgs @ ms) @ ms') \<and> w' = handled handle ms' (handled handle ms w)" by blast
      then show ?thesis by (intro exI [of _ "ms @ ms'"]) simp
    next
      case ReadNil
      show ?thesis
      proof (cases "ctx_done q1")
        case True
        then show ?thesis using Suc.prems(2) False x ReadNil idle by (intro exI [of _ "[]"]) simp
      qed (use Suc.IH [OF idle] Suc.prems(2) False x ReadNil in simp)
    next
      case (ReadErr e)
      show ?thesis
      proof (cases "ctx_done q1")
        case True
        then show ?thesis using Suc.prems(2) False x ReadErr idle by (intro exI [of _ "[]"]) simp
      qed (use Suc.IH [OF idle] Suc.prems(2) False x ReadErr in simp)
    qed
  qed
qed

text \<open>
  The loop handles entries added after it started, each once and in order. It leaves one out only
  when at least \<open>cap\<close> entries follow it in the stream; a loop that is never that far behind handles
  a run of consecutive entries.
\<close>

lemma loop_picks:
  assumes "ok q" "stream_loop n ctx_done xread cnt handle ''$'' q w = (ret, lastID, q', w')"
  shows "\<exists>ms. picked (length (entries q)) (length (entries q') - cap) (entries q') ms \<and> w' = handled handle ms w \<and>
    lastID = last_id ''$'' ms \<and> distinct (map fst ms) \<and> prefix (entries q) (entries q') \<and>
    (length (entries q') \<le> length (entries q) + cap \<longrightarrow> (\<exists>pre post. entries q' = pre @ ms @ post \<and> prefix (entries q) pre))"
proof -
  obtain ms where r: "reader_at (entries q) lastID q' ms" "w' = handled handle ms w"
    using stream_loop_reader [OF reader_start [OF assms(1)] assms(2)] by auto
  then have ok: "ok q'" "prefix (entries q) (entries q')" by (simp_all add: reader_at_def)
  have p: "picked (length (entries q)) (length (entries q') - cap) (entries q') ms" by (rule reader_picked [OF r(1)])
  then have "distinct (map fst ms)"
    using ids [OF ok(1)] subseq_map [OF picked_subseq [OF p], of fst] by (auto simp: subseq_conv_nths intro: distinct_nthsI)
  moreover have "\<exists>pre post. entries q' = pre @ ms @ post \<and> prefix (entries q) pre"
    if "length (entries q') \<le> length (entries q) + cap"
  proof -
    have "length (entries q') - cap \<le> length (entries q)" using that by simp
    from picked_run [OF p this prefix_length_le [OF ok(2)]]
    obtain pre post where e: "entries q' = pre @ ms @ post" "length (entries q) \<le> length pre" by blast
    then have "prefix (entries q) pre" using ok(2) by (metis prefixI prefix_length_prefix)
    with e(1) show ?thesis by blast
  qed
  ultimately show ?thesis using p r(2) ok(2) reader_last_id [OF r(1)] by blast
qed

end

section \<open>A stream server\<close>

text \<open>
  A server that keeps its promises, with the environment as a script: for every call of \<open>XREAD\<close>
  what other clients add before it, whether it fails, and what they add while it blocks.
\<close>

record rl_round =
  rr_before :: "rvals list"
  rr_error :: "error option"
  rr_window :: "rvals list"

record redis_log =
  rl_entries :: "(string \<times> rvals) list"
  rl_trimmed :: nat
  rl_node :: nat
  rl_plan :: "rl_round list"

text \<open>
  \<open>XADD\<close> appends the entry and trims the oldest ones beyond \<open>maxlen\<close>, approximately by whole nodes
  of \<open>rl_node\<close> entries. All clients add with the arguments of \<open>Publish\<close>.
\<close>

definition rl_trim :: "nat \<Rightarrow> bool \<Rightarrow> redis_log \<Rightarrow> redis_log" where
  "rl_trim maxlen approx q =
     (let excess = length (rl_entries q) - rl_trimmed q - maxlen
      in q\<lparr>rl_trimmed := rl_trimmed q + (if approx then rl_node q * (excess div rl_node q) else excess)\<rparr>)"

definition rl_xadd :: "string \<Rightarrow> nat \<Rightarrow> bool \<Rightarrow> rvals \<Rightarrow> redis_log \<Rightarrow> error option \<times> redis_log" where
  "rl_xadd key maxlen approx vs q =
     (None, rl_trim maxlen approx
        (q\<lparr>rl_entries := rl_entries q @ [(show_nat (Suc (length (rl_entries q))) @ ''-0'', encode_vals vs)]\<rparr>))"

definition rl_add :: "rvals list \<Rightarrow> redis_log \<Rightarrow> redis_log" where
  "rl_add vss q = foldl (\<lambda>q vs. snd (rl_xadd UpdatesStream MaxLen True vs q)) q vss"

text \<open>What is left after the entry with the identifier.\<close>

definition rl_after :: "string \<Rightarrow> redis_log \<Rightarrow> (string \<times> rvals) list" where
  "rl_after i q = drop (max (Suc (length (takeWhile (\<lambda>(j, _). j \<noteq> i) (rl_entries q)))) (rl_trimmed q)) (rl_entries q)"

definition rl_reply :: "nat \<Rightarrow> (string \<times> rvals) list \<Rightarrow> redis_log \<Rightarrow> read_result \<times> redis_log" where
  "rl_reply n es q = (if es = [] then ReadNil else ReadMsgs (take n es), q)"

definition rl_xread :: "string \<Rightarrow> nat \<Rightarrow> redis_log \<Rightarrow> read_result \<times> redis_log" where
  "rl_xread i n q =
     (let (rd, rest) = pop \<lparr>rr_before = [], rr_error = None, rr_window = []\<rparr> (rl_plan q);
          q1 = rl_add (rr_before rd) (q\<lparr>rl_plan := rest\<rparr>);
          q2 = rl_add (rr_window rd) q1
      in case rr_error rd of
           Some e \<Rightarrow> (ReadErr e, q1)
         | None \<Rightarrow>
             (if i = ''$'' then rl_reply n (drop (max (length (rl_entries q1)) (rl_trimmed q2)) (rl_entries q2)) q2
              else if rl_after i q1 \<noteq> [] then rl_reply n (rl_after i q1) q1
              else rl_reply n (rl_after i q2) q2))"

definition rl_ok :: "redis_log \<Rightarrow> bool" where
  "rl_ok q \<longleftrightarrow> map fst (rl_entries q) = map (\<lambda>k. show_nat (Suc k) @ ''-0'') [0..<length (rl_entries q)] \<and>
     rl_trimmed q \<le> length (rl_entries q) - MaxLen"

lemma show_nat_value: "foldl (\<lambda>a c. 10 * a + (chr_nat c - 48)) 0 (show_nat n) = n"
proof (induction n rule: show_nat.induct)
  case (1 n)
  show ?case
  proof (cases "n < 10")
    case False
    then have "foldl (\<lambda>a c. 10 * a + (chr_nat c - 48)) 0 (show_nat (n div 10)) = n div 10" using 1 by auto
    then show ?thesis using False by (subst show_nat.simps) simp
  qed (subst show_nat.simps, simp)
qed

lemma show_nat_inj [simp]: "show_nat m = show_nat n \<longleftrightarrow> m = n"
  by (metis show_nat_value)

definition rl_grows :: "redis_log \<Rightarrow> redis_log \<Rightarrow> bool" where
  "rl_grows q q' \<longleftrightarrow> rl_ok q' \<and> prefix (rl_entries q) (rl_entries q') \<and> rl_trimmed q \<le> rl_trimmed q'"

lemma rl_grows_trans: "rl_grows q q1 \<Longrightarrow> rl_grows q1 q2 \<Longrightarrow> rl_grows q q2"
  unfolding rl_grows_def by (auto intro: prefix_order.trans)

lemma rl_xadd_grows:
  assumes "rl_ok q"
  shows "rl_grows q (snd (rl_xadd key MaxLen approx vs q))"
proof -
  have "rl_node q * (m div rl_node q) \<le> m" for m by simp
  then have "rl_trimmed q + (if approx then rl_node q * (m div rl_node q) else m) \<le> rl_trimmed q + m" for m by auto
  moreover have "rl_trimmed q + (Suc (length (rl_entries q)) - rl_trimmed q - MaxLen) \<le> Suc (length (rl_entries q)) - MaxLen"
    using assms unfolding rl_ok_def by linarith
  ultimately have "rl_trimmed q + (if approx then rl_node q * ((Suc (length (rl_entries q)) - rl_trimmed q - MaxLen) div rl_node q)
      else Suc (length (rl_entries q)) - rl_trimmed q - MaxLen) \<le> Suc (length (rl_entries q)) - MaxLen"
    using order.trans by blast
  then show ?thesis using assms unfolding rl_grows_def rl_ok_def rl_xadd_def rl_trim_def Let_def by (auto simp del: diff_diff_left split: if_splits)
qed

lemma rl_add_ok: "rl_ok q \<Longrightarrow> rl_grows q (rl_add vss q)"
proof (induction vss arbitrary: q)
  case (Cons vs vss)
  then have "rl_grows q (snd (rl_xadd UpdatesStream MaxLen True vs q))" using rl_xadd_grows by blast
  moreover from this Cons.IH have "rl_grows (snd (rl_xadd UpdatesStream MaxLen True vs q)) (rl_add (vs # vss) q)"
    by (simp add: rl_add_def rl_grows_def)
  ultimately show ?case by (rule rl_grows_trans)
qed (simp add: rl_add_def rl_grows_def)

lemma rl_ok_ids:
  assumes "rl_ok q"
  shows "gomap_ok (rl_entries q) \<and> ''$'' \<notin> fst ` set (rl_entries q)"
proof -
  have "''$'' \<noteq> show_nat k @ ''-0''" for k by (cases "show_nat k") auto
  moreover have "fst ` set (rl_entries q) = set (map (\<lambda>k. show_nat (Suc k) @ ''-0'') [0..<length (rl_entries q)])"
    using assms unfolding rl_ok_def by (metis list.set_map)
  ultimately have "''$'' \<notin> fst ` set (rl_entries q)" by auto
  moreover have "gomap_ok (rl_entries q)" using assms unfolding rl_ok_def by (simp add: distinct_map inj_on_def)
  ultimately show ?thesis by simp
qed

lemma rl_after_split:
  assumes "gomap_ok (rl_entries q)" "rl_entries q = pre @ (i, v) # post"
  shows "rl_after i q = drop (rl_trimmed q - Suc (length pre)) post"
proof -
  have "takeWhile (\<lambda>(j, _). j \<noteq> i) (pre @ (i, v) # post) = pre" using assms
    by (subst takeWhile_append2) force+
  then show ?thesis using assms(2) by (simp add: rl_after_def max_def drop_Cons')
qed

lemma rl_xread_cases:
  assumes ok: "rl_ok q" and x: "rl_xread i n q = (r, q')"
  obtains q1 where "rl_grows q q1" "rl_grows q1 q'"
    "\<And>ms. r = ReadMsgs ms \<Longrightarrow> i = ''$'' \<Longrightarrow> ms = take n (drop (max (length (rl_entries q1)) (rl_trimmed q')) (rl_entries q'))"
    "\<And>ms. r = ReadMsgs ms \<Longrightarrow> i \<noteq> ''$'' \<Longrightarrow> ms = take n (rl_after i q')"
proof -
  obtain rd rest where p: "pop \<lparr>rr_before = [], rr_error = None, rr_window = []\<rparr> (rl_plan q) = (rd, rest)" by fastforce
  define q1 where "q1 = rl_add (rr_before rd) (q\<lparr>rl_plan := rest\<rparr>)"
  define q2 where "q2 = rl_add (rr_window rd) q1"
  have "rl_ok (q\<lparr>rl_plan := rest\<rparr>)" using ok by (simp add: rl_ok_def)
  then have q1: "rl_grows q q1"
    using rl_add_ok [of "q\<lparr>rl_plan := rest\<rparr>" "rr_before rd"] unfolding q1_def [symmetric] by (simp add: rl_grows_def)
  then have q2: "rl_grows q1 q2" "rl_grows q1 q1" using rl_add_ok [of q1 "rr_window rd"] by (simp_all add: q2_def rl_grows_def)
  have x': "(case rr_error rd of Some e \<Rightarrow> (ReadErr e, q1) | None \<Rightarrow>
      (if i = ''$'' then rl_reply n (drop (max (length (rl_entries q1)) (rl_trimmed q2)) (rl_entries q2)) q2
       else if rl_after i q1 \<noteq> [] then rl_reply n (rl_after i q1) q1
       else rl_reply n (rl_after i q2) q2)) = (r, q')"
    unfolding q1_def q2_def using x p by (simp add: rl_xread_def Let_def)
  have "q' = q1 \<or> q' = q2" using x' by (auto simp: rl_reply_def split: option.splits if_splits)
  then have "rl_grows q1 q'" using q2 by blast
  then show thesis
    by (rule that [OF q1]) (use x' in \<open>auto simp: rl_reply_def split: option.splits if_splits\<close>)
qed

lemma rl_reads_after:
  assumes ok: "rl_ok q'" and e: "rl_entries q' = pre @ (i, v) # tail" and ms: "ms = take n (rl_after i q')"
  shows "\<exists>lost. prefix (pre @ (i, v) # lost @ ms) (rl_entries q') \<and> (lost = [] \<or> Suc (length pre + length lost) \<le> rl_trimmed q')"
proof -
  let ?lost = "take (rl_trimmed q' - Suc (length pre)) tail"
  have ms': "ms = take n (drop (rl_trimmed q' - Suc (length pre)) tail)"
    using ms rl_after_split [OF _ e] rl_ok_ids [OF ok] by simp
  have "prefix (?lost @ ms) (?lost @ drop (rl_trimmed q' - Suc (length pre)) tail)" unfolding ms' by (simp only: same_prefix_prefix take_is_prefix)
  then have "prefix (pre @ (i, v) # ?lost @ ms) (rl_entries q')" using e by simp
  moreover have "?lost = [] \<or> Suc (length pre + length ?lost) \<le> rl_trimmed q'" by auto
  ultimately show ?thesis by blast
qed

interpretation rl: redis_stream rl_ok rl_entries rl_trimmed MaxLen rl_xread
proof (unfold_locales, goal_cases)
  case (1 q)
  then show ?case by (rule rl_ok_ids)
next
  case (2 q)
  then show ?case by (simp add: rl_ok_def)
next
  case (3 q i n r q')
  then show ?case by (cases rule: rl_xread_cases) (auto dest: rl_grows_trans simp: rl_grows_def)
next
  case (4 q n ms q')
  then show ?case
  proof (cases rule: rl_xread_cases)
    case (1 q1)
    define k where "k = max (length (rl_entries q1)) (rl_trimmed q')"
    have ms: "ms = take n (drop k (rl_entries q'))" using 1(3) by (simp add: k_def)
    have "prefix (rl_entries q) (rl_entries q')" "length (rl_entries q) \<le> k"
      using 1(1,2) unfolding rl_grows_def k_def by (auto intro: prefix_order.trans dest: prefix_length_le)
    then have "prefix (rl_entries q) (take k (rl_entries q'))" by (auto elim: prefixE)
    moreover have "prefix (take k (rl_entries q') @ ms) (rl_entries q')"
      unfolding ms by (metis append_take_drop_id same_prefix_prefix take_is_prefix)
    ultimately show ?thesis by blast
  qed
next
  case (5 q pre i v post n ms q')
  have i: "i \<noteq> ''$''" using rl_ok_ids [OF 5(1)] 5(2) by auto
  from 5(1,3) show ?case
  proof (cases rule: rl_xread_cases)
    case (1 q1)
    then have ok': "rl_ok q'" "prefix (rl_entries q) (rl_entries q')" by (auto simp: rl_grows_def intro: prefix_order.trans)
    then obtain more where "rl_entries q' = pre @ (i, v) # (post @ more)" using 5(2) by (auto elim: prefixE)
    from rl_reads_after [OF ok'(1) this 1(4) [OF refl i]] show ?thesis .
  qed
qed

text \<open>A stream to which one update is published while the first read blocks.\<close>

definition ex_update :: TelegramUpdate where
  "ex_update = \<lparr>upd_SessionId = ''s1'', upd_Type = ''message'', upd_Payload = ''{}'', upd_ReceivedAt = 5\<rparr>"

definition ex_stream :: redis_log where
  "ex_stream = \<lparr>rl_entries = [], rl_trimmed = 0, rl_node = 100, rl_plan = [\<lparr>rr_before = [], rr_error = None,
     rr_window = [publish_values ''w1'' ex_update 9]\<rparr>]\<rparr>"

lemma ex_stream_ok: "rl_ok ex_stream"
  by (simp add: rl_ok_def ex_stream_def)

lemma ex_stream_loop:
  "stream_loop 2 (\<lambda>_. False) rl_xread cnt handle ''$'' ex_stream w = (ret, lastID, q', w') \<Longrightarrow> 0 < cnt \<Longrightarrow>
   \<not> ret \<and> lastID = ''1-0'' \<and> rl_entries q' = [(''1-0'', encode_vals (publish_values ''w1'' ex_update 9))]"
proof -
  have one: "show_nat (Suc 0) = ''1''" by code_simp
  show "stream_loop 2 (\<lambda>_. False) rl_xread cnt handle ''$'' ex_stream w = (ret, lastID, q', w') \<Longrightarrow> 0 < cnt \<Longrightarrow> ?thesis"
    by (auto simp: numeral_2_eq_2 ex_stream_def rl_xread_def rl_add_def rl_xadd_def rl_trim_def rl_reply_def rl_after_def
        handle_msgs_eq last_id_def one MaxLen_def Let_def)
qed

end
