(* ===== verification/Webhook.thy ===== *)
theory Webhook
  imports Repository Go_Crypto Update_Stream
begin

text \<open>
  Webhooks, \<open>internal/webhook\<close>: the registered callbacks, both repositories, the service, and the
  dispatcher that posts every update of the stream to the callbacks that want it, signed with
  HMAC-SHA-256 and tried up to three times.
\<close>

section \<open>Model\<close>

text \<open>A nil slice of events is \<open>None\<close>.\<close>

record Webhook =
  wh_ID :: int
  wh_URL :: string
  wh_Secret :: string
  wh_Events :: "string list option"
  wh_CreatedAt :: int

definition ErrWebhookNotFound :: error where
  "ErrWebhookNotFound = Sentinel ''webhook not found''"

record 'r WebhookRepository =
  wr_Create_hook :: "string \<Rightarrow> string \<Rightarrow> string list option \<Rightarrow> 'r \<Rightarrow> (error + Webhook) \<times> 'r"
  wr_List_hooks :: "'r \<Rightarrow> (error + Webhook list) \<times> 'r"
  wr_Delete_hook :: "int \<Rightarrow> 'r \<Rightarrow> error option \<times> 'r"

section \<open>The in-memory repository\<close>

record WebhookMemory =
  wm_data :: "(int, Webhook) gomap"
  wm_seq :: int

definition wm_New :: WebhookMemory where
  "wm_New = \<lparr>wm_data = [], wm_seq = 0\<rparr>"

definition wm_Create :: "string \<Rightarrow> string \<Rightarrow> string list option \<Rightarrow> WebhookMemory \<Rightarrow> (error + Webhook) \<times> WebhookMemory" where
  "wm_Create url secret events r =
     (let i = wrap64 (wm_seq r + 1);
          w = \<lparr>wh_ID = i, wh_URL = url, wh_Secret = secret, wh_Events = events, wh_CreatedAt = 0\<rparr>
      in (Inr w, r\<lparr>wm_seq := i, wm_data := go_put i w (wm_data r)\<rparr>))"

definition wm_List :: "nat list \<Rightarrow> WebhookMemory \<Rightarrow> (error + Webhook list) \<times> WebhookMemory" where
  "wm_List ks r = (Inr (arrange ks (map snd (wm_data r))), r)"

definition wm_Delete :: "int \<Rightarrow> WebhookMemory \<Rightarrow> error option \<times> WebhookMemory" where
  "wm_Delete i r =
     (case go_get (wm_data r) i of
        None \<Rightarrow> (Some ErrWebhookNotFound, r)
      | Some _ \<Rightarrow> (None, r\<lparr>wm_data := go_del i (wm_data r)\<rparr>))"

definition webhook_memory :: "nat list \<Rightarrow> WebhookMemory WebhookRepository" where
  "webhook_memory ks = \<lparr>wr_Create_hook = wm_Create, wr_List_hooks = wm_List ks, wr_Delete_hook = wm_Delete\<rparr>"

section \<open>The PostgreSQL repository\<close>

text \<open>
  A nil slice is stored as \<open>NULL\<close>, which the column does not allow. A row read back has its events
  as a non-nil array.
\<close>

definition hp_row :: "int \<Rightarrow> string \<Rightarrow> string \<Rightarrow> string list option \<Rightarrow> int \<Rightarrow> Webhook" where
  "hp_row now url secret events i =
     \<lparr>wh_ID = i, wh_URL = url, wh_Secret = secret, wh_Events = events, wh_CreatedAt = now\<rparr>"

definition hp_not_null :: "(Webhook \<Rightarrow> error option) \<Rightarrow> Webhook \<Rightarrow> error option" where
  "hp_not_null check w =
     (if wh_Events w = None then Some (Errorf ''pq: null value in column violates not-null constraint'' []) else check w)"

definition hp_Create :: "(Webhook \<Rightarrow> error option) \<Rightarrow> int \<Rightarrow> string \<Rightarrow> string \<Rightarrow> string list option \<Rightarrow> Webhook table \<Rightarrow>
    (error + Webhook) \<times> Webhook table" where
  "hp_Create check now url secret events t =
     tb_insert (hp_not_null check) (\<lambda>_ _. False) (hp_row now url secret events) t"

definition hp_List :: "Webhook table \<Rightarrow> (error + Webhook list) \<times> Webhook table" where
  "hp_List t = tb_select (\<lambda>_. True) t"

definition hp_Delete :: "int \<Rightarrow> Webhook table \<Rightarrow> error option \<times> Webhook table" where
  "hp_Delete i t = tb_delete_found ErrWebhookNotFound i t"

definition webhook_postgres :: "(Webhook \<Rightarrow> error option) \<Rightarrow> int \<Rightarrow> Webhook table WebhookRepository" where
  "webhook_postgres check now =
     \<lparr>wr_Create_hook = hp_Create check now, wr_List_hooks = hp_List, wr_Delete_hook = hp_Delete\<rparr>"

section \<open>The service\<close>

definition hs_Create :: "'r WebhookRepository \<Rightarrow> string \<Rightarrow> string \<Rightarrow> string list option \<Rightarrow> 'r \<Rightarrow> (error + Webhook) \<times> 'r" where
  "hs_Create R url secret events = wr_Create_hook R url secret events"

definition hs_List :: "'r WebhookRepository \<Rightarrow> 'r \<Rightarrow> (error + Webhook list) \<times> 'r" where
  "hs_List R = wr_List_hooks R"

definition hs_Delete :: "'r WebhookRepository \<Rightarrow> int \<Rightarrow> 'r \<Rightarrow> error option \<times> 'r" where
  "hs_Delete R i = wr_Delete_hook R i"

section \<open>Events\<close>

record UpdateEvent =
  ev_SessionID :: string
  ev_WorkerID :: string
  ev_Type :: string
  ev_Payload :: bytes
  ev_ReceivedAt :: int

definition ev_str :: "rval option \<Rightarrow> string" where
  "ev_str v = (case v of Some (RString s) \<Rightarrow> s | _ \<Rightarrow> [])"

definition ev_int64v :: "rval option \<Rightarrow> int" where
  "ev_int64v v = (case v of Some (RInt64 i) \<Rightarrow> i | Some (RString s) \<Rightarrow> Sscan_int64 s | _ \<Rightarrow> 0)"

definition extractEvent :: "rvals \<Rightarrow> UpdateEvent" where
  "extractEvent vals =
     \<lparr>ev_SessionID = ev_str (go_get vals ''session_id''),
      ev_WorkerID = ev_str (go_get vals ''worker_id''),
      ev_Type = ev_str (go_get vals ''type''),
      ev_Payload = (case go_get vals ''payload'' of Some (RString b) \<Rightarrow> bytes_of b | _ \<Rightarrow> []),
      ev_ReceivedAt = ev_int64v (go_get vals ''received_at'')\<rparr>"

fun matches_loop :: "string list \<Rightarrow> string \<Rightarrow> bool" where
  "matches_loop [] evType = False"
| "matches_loop (e # es) evType = (if e = evType then True else matches_loop es evType)"

definition matchesFilter :: "string list option \<Rightarrow> string \<Rightarrow> bool" where
  "matchesFilter events evType =
     (case events of None \<Rightarrow> True | Some es \<Rightarrow> (if length es = 0 then True else matches_loop es evType))"

definition signature :: "string \<Rightarrow> bytes \<Rightarrow> string" where
  "signature secret body =
     (if secret = [] then [] else hex_EncodeToString (hmac_sha256 (bytes_of secret) body))"

section \<open>Delivery\<close>

record request =
  rq_URL :: string
  rq_Body :: bytes
  rq_ContentType :: string
  rq_Delivery :: string
  rq_Event :: string
  rq_Signature :: "string option"

text \<open>
  The outside world of the dispatcher: the requests sent, the seconds waited and the failures
  logged, with the answers of the servers, the random identifiers and the cancellations to come.
\<close>

record http_world =
  hw_sent :: "request list"
  hw_waits :: nat
  hw_failed :: "(string \<times> string \<times> error option) list"
  hw_replies :: "(error + int) list"
  hw_uuids :: "string list"
  hw_cancels :: "bool list"

definition http_Do :: "request \<Rightarrow> http_world \<Rightarrow> (error + int) \<times> http_world" where
  "http_Do req w =
     (let (r, rest) = pop (Inr 200) (hw_replies w)
      in (r, w\<lparr>hw_sent := hw_sent w @ [req], hw_replies := rest\<rparr>))"

definition mk_request :: "Webhook \<Rightarrow> bytes \<Rightarrow> string \<Rightarrow> string \<Rightarrow> request" where
  "mk_request wh body evType deliveryID =
     \<lparr>rq_URL = wh_URL wh, rq_Body = body, rq_ContentType = ''application/json'', rq_Delivery = deliveryID,
      rq_Event = evType,
      rq_Signature = (let sig = signature (wh_Secret wh) body in if sig \<noteq> [] then Some (''sha256='' @ sig) else None)\<rparr>"

text \<open>
  The retry loop of \<open>post\<close> with \<open>left\<close> attempts to go. \<open>newRequest\<close> is the check of the URL when a
  request is built; before every attempt but the first the dispatcher waits a second, or returns
  if the context is cancelled.
\<close>

fun post_loop :: "(string \<Rightarrow> error option) \<Rightarrow> request \<Rightarrow> nat \<Rightarrow> nat \<Rightarrow> error option \<Rightarrow> http_world \<Rightarrow> http_world" where
  "post_loop newRequest req attempt 0 lastErr w =
     w\<lparr>hw_failed := hw_failed w @ [(rq_URL req, rq_Delivery req, lastErr)]\<rparr>"
| "post_loop newRequest req attempt (Suc left) lastErr w =
     (let (stop, cancels) = (if 0 < attempt then pop False (hw_cancels w) else (False, hw_cancels w));
          w1 = w\<lparr>hw_cancels := cancels, hw_waits := hw_waits w + (if 0 < attempt \<and> \<not> stop then 1 else 0)\<rparr>
      in if stop then w1
         else
           (case newRequest (rq_URL req) of
              Some err \<Rightarrow> w1
            | None \<Rightarrow>
                (let (r, w2) = http_Do req w1 in
                 case r of
                   Inl err \<Rightarrow> post_loop newRequest req (Suc attempt) left (Some err) w2
                 | Inr status \<Rightarrow>
                     (if 200 \<le> status \<and> status < 300 then w2
                      else post_loop newRequest req (Suc attempt) left (Some (Errorf ''status %d'' [FormatInt status])) w2))))"

definition post :: "(string \<Rightarrow> error option) \<Rightarrow> Webhook \<Rightarrow> bytes \<Rightarrow> string \<Rightarrow> http_world \<Rightarrow> http_world" where
  "post newRequest wh body evType w =
     (let (deliveryID, rest) = pop [] (hw_uuids w)
      in post_loop newRequest (mk_request wh body evType deliveryID) 0 3 None (w\<lparr>hw_uuids := rest\<rparr>))"

fun deliver_hooks :: "(string \<Rightarrow> error option) \<Rightarrow> bytes \<Rightarrow> string \<Rightarrow> Webhook list \<Rightarrow> http_world \<Rightarrow> http_world" where
  "deliver_hooks newRequest body evType [] w = w"
| "deliver_hooks newRequest body evType (wh # hooks) w =
     deliver_hooks newRequest body evType hooks
       (if \<not> matchesFilter (wh_Events wh) evType then w else post newRequest wh body evType w)"

definition DeliverBody :: "'r WebhookRepository \<Rightarrow> (string \<Rightarrow> error option) \<Rightarrow> bytes \<Rightarrow> string \<Rightarrow> 'r \<times> http_world \<Rightarrow> 'r \<times> http_world" where
  "DeliverBody R newRequest body evType = (\<lambda>(r, w).
     (case wr_List_hooks R r of
        (Inl err, r') \<Rightarrow> (r', w)
      | (Inr hooks, r') \<Rightarrow> (r', deliver_hooks newRequest body evType hooks w)))"



section \<open>One delivery\<close>

text \<open>How many requests the answers to come call for, with at most \<open>n\<close> attempts.\<close>

fun attempts_for :: "nat \<Rightarrow> (error + int) list \<Rightarrow> nat" where
  "attempts_for 0 rs = 0"
| "attempts_for (Suc n) rs =
     (case pop (Inr 200) rs of
        (Inr status, rest) \<Rightarrow> if 200 \<le> status \<and> status < 300 then 1 else Suc (attempts_for n rest)
      | (Inl _, rest) \<Rightarrow> Suc (attempts_for n rest))"

definition accepted :: "error + int \<Rightarrow> bool" where
  "accepted r = (case r of Inr status \<Rightarrow> 200 \<le> status \<and> status < 300 | Inl _ \<Rightarrow> False)"

lemma attempts_for_le: "attempts_for n rs \<le> n"
  by (induction n rs rule: attempts_for.induct) (auto split: prod.splits sum.splits)

lemma http_Do_simps:
  assumes "http_Do req w = (r, w')"
  shows "hw_sent w' = hw_sent w @ [req]" "hw_uuids w' = hw_uuids w" "hw_cancels w' = hw_cancels w" "hw_waits w' = hw_waits w"
    "hw_failed w' = hw_failed w" "pop (Inr 200) (hw_replies w) = (r, hw_replies w')"
  using assms by (auto simp: http_Do_def split: prod.splits)

text \<open>Whatever happens, the loop sends the one request, at most \<open>left\<close> times.\<close>

lemma post_loop_sent:
  "\<exists>k. hw_sent (post_loop nr req a left e w) = hw_sent w @ replicate k req \<and> k \<le> left \<and>
     hw_uuids (post_loop nr req a left e w) = hw_uuids w \<and>
     (nr (rq_URL req) \<noteq> None \<longrightarrow> k = 0) \<and> (nr (rq_URL req) = None \<and> a = 0 \<and> 0 < left \<longrightarrow> 1 \<le> k)"
proof (induction left arbitrary: a e w)
  case 0
  then show ?case by (intro exI [of _ 0]) simp
next
  case (Suc left)
  obtain stop cancels where p: "(if 0 < a then pop False (hw_cancels w) else (False, hw_cancels w)) = (stop, cancels)"
    by fastforce
  define w1 where "w1 = w\<lparr>hw_cancels := cancels, hw_waits := hw_waits w + (if 0 < a \<and> \<not> stop then 1 else 0)\<rparr>"
  have w1: "hw_sent w1 = hw_sent w" "hw_uuids w1 = hw_uuids w" by (simp_all add: w1_def)
  show ?case
  proof (cases "stop \<or> nr (rq_URL req) \<noteq> None")
    case True
    then have "post_loop nr req a (Suc left) e w = w1" using p by (auto simp: Let_def w1_def)
    moreover have "\<not> (nr (rq_URL req) = None \<and> a = 0)" using True p by auto
    ultimately show ?thesis using w1 by (intro exI [of _ 0]) auto
  next
    case False
    obtain r w2 where d: "http_Do req w1 = (r, w2)" by fastforce
    note D = http_Do_simps [OF d]
    obtain e' where l: "post_loop nr req a (Suc left) e w = (if accepted r then w2 else post_loop nr req (Suc a) left e' w2)"
      using False p d by (cases r) (auto simp: Let_def w1_def accepted_def)
    obtain k where k: "hw_sent (post_loop nr req (Suc a) left e' w2) = hw_sent w2 @ replicate k req" "k \<le> left"
      "hw_uuids (post_loop nr req (Suc a) left e' w2) = hw_uuids w2" using Suc.IH [of "Suc a" e' w2] by blast
    show ?thesis
    proof (cases "accepted r")
      case True
      then show ?thesis using l D w1 False by (intro exI [of _ 1]) simp
    next
      case rej: False
      then show ?thesis using l D w1 False k by (intro exI [of _ "Suc k"]) (simp add: replicate_app_Cons_same)
    qed
  qed
qed





section \<open>Fan-out\<close>

abbreviation batch :: "bytes \<Rightarrow> string \<Rightarrow> Webhook list \<Rightarrow> (nat \<times> string) list \<Rightarrow> request list" where
  "batch body evType hooks bs \<equiv> concat (map (\<lambda>(wh, k, d). replicate k (mk_request wh body evType d)) (zip hooks bs))"

abbreviation wanted :: "string \<Rightarrow> Webhook list \<Rightarrow> Webhook list" where
  "wanted evType hooks \<equiv> filter (\<lambda>wh. matchesFilter (wh_Events wh) evType) hooks"

definition tried :: "(string \<Rightarrow> error option) \<Rightarrow> Webhook list \<Rightarrow> (nat \<times> string) list \<Rightarrow> bool" where
  "tried newRequest = list_all2 (\<lambda>wh (k, d). k \<le> 3 \<and> (k = 0 \<longleftrightarrow> newRequest (wh_URL wh) \<noteq> None))"

lemma post_sent:
  assumes "pop [] (hw_uuids w) = (d, rest)"
  shows "\<exists>k. hw_sent (post nr wh body evType w) = hw_sent w @ replicate k (mk_request wh body evType d) \<and>
    k \<le> 3 \<and> (k = 0 \<longleftrightarrow> nr (wh_URL wh) \<noteq> None) \<and> hw_uuids (post nr wh body evType w) = rest"
proof -
  have url: "rq_URL (mk_request wh body evType d) = wh_URL wh" by (simp add: mk_request_def)
  have p: "post nr wh body evType w = post_loop nr (mk_request wh body evType d) 0 3 None (w\<lparr>hw_uuids := rest\<rparr>)"
    using assms by (simp add: post_def)
  show ?thesis using post_loop_sent [of nr "mk_request wh body evType d" 0 3 None "w\<lparr>hw_uuids := rest\<rparr>"]
    unfolding p url by (auto simp: Suc_le_eq)
qed

lemma take_pop:
  "pop d xs = (x, rest) \<Longrightarrow> take (Suc n) (xs @ replicate (Suc n) d) = x # take n (rest @ replicate n d)"
proof (cases xs)
  case (Cons y ys)
  have "take k (d # replicate n d) = replicate (min k (Suc n)) d" for k
    by (metis replicate_Suc take_replicate)
  then show ?thesis if "pop d xs = (x, rest)" using Cons that by simp
qed simp

lemma deliver_hooks_sent:
  "\<exists>bs. hw_sent (deliver_hooks nr body evType hooks w) =
      hw_sent w @ batch body evType (wanted evType hooks) bs \<and>
    tried nr (wanted evType hooks) bs \<and>
    map snd bs = take (length bs) (hw_uuids w @ replicate (length bs) [])"
proof (induction hooks arbitrary: w)
  case Nil
  then show ?case by (intro exI [of _ "[]"]) (simp add: tried_def)
next
  case (Cons wh hooks)
  show ?case
  proof (cases "matchesFilter (wh_Events wh) evType")
    case False
    then show ?thesis using Cons.IH [of w] by simp
  next
    case True
    obtain d rest where u: "pop [] (hw_uuids w) = (d, rest)" by fastforce
    obtain k where k: "hw_sent (post nr wh body evType w) = hw_sent w @ replicate k (mk_request wh body evType d)"
      "k \<le> 3" "k = 0 \<longleftrightarrow> nr (wh_URL wh) \<noteq> None" "hw_uuids (post nr wh body evType w) = rest"
      using post_sent [OF u, of nr wh body evType] by blast
    obtain bs where bs: "hw_sent (deliver_hooks nr body evType hooks (post nr wh body evType w)) =
        hw_sent (post nr wh body evType w) @ batch body evType (wanted evType hooks) bs"
      "tried nr (wanted evType hooks) bs"
      "map snd bs = take (length bs) (rest @ replicate (length bs) [])"
      using Cons.IH [of "post nr wh body evType w"] unfolding k(4) by blast
    have "batch body evType (wanted evType (wh # hooks)) ((k, d) # bs) =
        replicate k (mk_request wh body evType d) @ batch body evType (wanted evType hooks) bs" using True by simp
    moreover have "tried nr (wanted evType (wh # hooks)) ((k, d) # bs)" using True k(2,3) bs(2) by (simp add: tried_def)
    moreover have "map snd ((k, d) # bs) = take (length ((k, d) # bs)) (hw_uuids w @ replicate (length ((k, d) # bs)) [])"
      using bs(3) take_pop [OF u, of "length bs"] by simp
    moreover have "deliver_hooks nr body evType (wh # hooks) w = deliver_hooks nr body evType hooks (post nr wh body evType w)"
      using True by simp
    ultimately show ?thesis using bs(1) k(1) by (metis append.assoc)
  qed
qed

lemma batch_mem: "req \<in> set (batch body evType hooks bs) \<Longrightarrow> \<exists>wh d. wh \<in> set hooks \<and> req = mk_request wh body evType d"
  by (auto dest: set_zip_leftD)

lemma batch_all:
  assumes "tried nr hooks bs" "wh \<in> set hooks" "nr (wh_URL wh) = None"
  shows "\<exists>d. mk_request wh body evType d \<in> set (batch body evType hooks bs)"
proof -
  obtain i where i: "i < length hooks" "hooks ! i = wh" using assms(2) by (auto simp: in_set_conv_nth)
  obtain k d where bi: "bs ! i = (k, d)" by fastforce
  have len: "length bs = length hooks" and "k \<noteq> 0"
    using assms(1,3) i bi by (auto simp: tried_def list_all2_conv_all_nth)
  then have "(wh, k, d) \<in> set (zip hooks bs)" "mk_request wh body evType d \<in> set (replicate k (mk_request wh body evType d))"
    using i bi by (auto simp: set_zip)
  then show ?thesis by fastforce
qed

section \<open>The contract of a webhook store\<close>

locale webhook_store =
  fixes ok :: "'r \<Rightarrow> bool" and quiet :: "'r \<Rightarrow> bool" and room :: "'r \<Rightarrow> bool" and view :: "'r \<Rightarrow> int \<Rightarrow> Webhook option"
    and R :: "'r WebhookRepository"
  assumes create_hook: "ok r \<Longrightarrow> room r \<Longrightarrow> wr_Create_hook R url secret events r = (Inr wh, r') \<Longrightarrow>
      ok r' \<and> (quiet r \<longrightarrow> quiet r') \<and> view r (wh_ID wh) = None \<and> view r' = (view r)(wh_ID wh \<mapsto> wh) \<and>
      wh_URL wh = url \<and> wh_Secret wh = secret \<and> wh_Events wh = events"
    and list_hooks: "ok r \<Longrightarrow> wr_List_hooks R r = (Inr hooks, r') \<Longrightarrow>
      set hooks = ran (view r) \<and> distinct (map wh_ID hooks)"
    and list_quiet: "ok r \<Longrightarrow> quiet r \<Longrightarrow> \<exists>hooks. fst (wr_List_hooks R r) = Inr hooks"
    and list_frame: "ok r \<Longrightarrow> ok (snd (wr_List_hooks R r)) \<and> view (snd (wr_List_hooks R r)) = view r"
    and delete_hook: "ok r \<Longrightarrow> wr_Delete_hook R i r = (None, r') \<Longrightarrow>
      ok r' \<and> (quiet r \<longrightarrow> quiet r') \<and> view r i \<noteq> None \<and> view r' = (view r)(i := None)"
begin

text \<open>Only registered callbacks that accept the event are called, whatever fails.\<close>

lemma only_registered:
  assumes "ok r" "DeliverBody R nr body evType (r, w) = (r', w')"
  shows "\<exists>new. hw_sent w' = hw_sent w @ new \<and>
    (\<forall>req \<in> set new. \<exists>i wh d. view r i = Some wh \<and> matchesFilter (wh_Events wh) evType \<and> req = mk_request wh body evType d)"
proof (cases "wr_List_hooks R r")
  case (Pair res r1)
  show ?thesis
  proof (cases res)
    case (Inl e)
    then show ?thesis using assms(2) Pair by (simp add: DeliverBody_def)
  next
    case (Inr hooks)
    then have w': "w' = deliver_hooks nr body evType hooks w" using assms(2) Pair by (simp add: DeliverBody_def)
    have set: "set hooks = ran (view r)" using list_hooks [OF assms(1)] Pair Inr by blast
    obtain bs where "hw_sent w' = hw_sent w @ batch body evType (wanted evType hooks) bs"
      using deliver_hooks_sent [of nr body evType hooks w] w' by blast
    moreover have "\<exists>i wh d. view r i = Some wh \<and> matchesFilter (wh_Events wh) evType \<and> req = mk_request wh body evType d"
      if "req \<in> set (batch body evType (wanted evType hooks) bs)" for req
      using batch_mem [OF that] set by (auto simp: ran_def)
    ultimately show ?thesis by blast
  qed
qed

text \<open>Every registered callback that accepts the event is called, unless the list cannot be read.\<close>

lemma registered_called:
  assumes "ok r" "quiet r" "view r i = Some wh" "matchesFilter (wh_Events wh) evType" "nr (wh_URL wh) = None"
    and "DeliverBody R nr body evType (r, w) = (r', w')"
  shows "\<exists>new d. hw_sent w' = hw_sent w @ new \<and> mk_request wh body evType d \<in> set new"
proof -
  obtain hooks r1 where l: "wr_List_hooks R r = (Inr hooks, r1)" using list_quiet [OF assms(1,2)] by (metis prod.collapse)
  then have w': "w' = deliver_hooks nr body evType hooks w" using assms(6) by (simp add: DeliverBody_def)
  have "wh \<in> set (wanted evType hooks)"
    using list_hooks [OF assms(1) l] assms(3,4) by (auto simp: ran_def)
  moreover obtain bs where "hw_sent w' = hw_sent w @ batch body evType (wanted evType hooks) bs" "tried nr (wanted evType hooks) bs"
    using deliver_hooks_sent [of nr body evType hooks w] unfolding w' by blast
  ultimately show ?thesis using batch_all [of nr "wanted evType hooks" bs wh body evType] assms(5) by blast
qed

end

section \<open>Both repositories meet the contract\<close>

definition wm_ok :: "WebhookMemory \<Rightarrow> bool" where
  "wm_ok r \<longleftrightarrow> gomap_ok (wm_data r) \<and> 0 \<le> wm_seq r \<and> wm_seq r < 2 ^ 63 \<and>
     (\<forall>i w. go_get (wm_data r) i = Some w \<longrightarrow> wh_ID w = i \<and> i \<le> wm_seq r)"

definition wm_room :: "WebhookMemory \<Rightarrow> bool" where
  "wm_room r \<longleftrightarrow> wm_seq r < 2 ^ 63 - 1"

lemma rows_listed:
  assumes "gomap_ok m" and "\<And>i w. (i, w) \<in> set m \<Longrightarrow> wh_ID w = i" and "mset hooks = mset (map snd m)"
  shows "set hooks = ran (go_get m) \<and> distinct (map wh_ID hooks)"
proof -
  have "set hooks = set (map snd m)" using assms(3) by (metis set_mset_mset)
  then have "set hooks = ran (go_get m)" using assms(1) by (simp add: ran_distinct)
  moreover have ids: "map (wh_ID \<circ> snd) m = map fst m" using assms(2) by (induction m) auto
  have "mset (map wh_ID hooks) = mset (map fst m)" using assms(3) ids by (metis list.map_comp mset_map)
  then have "distinct (map wh_ID hooks)" using assms(1) by (metis mset_eq_imp_distinct_iff)
  ultimately show ?thesis by simp
qed

interpretation hook_mem: webhook_store wm_ok "\<lambda>_. True" wm_room "\<lambda>r. go_get (wm_data r)" "webhook_memory ks"
proof (unfold_locales, goal_cases)
  case (1 r url secret events wh r')
  have seq: "wrap64 (wm_seq r + 1) = wm_seq r + 1"
    using 1(1,2) by (intro wrap64_id) (simp_all add: wm_ok_def wm_room_def)
  have "\<And>i k. go_get (wm_data r) i = Some k \<Longrightarrow> i \<le> wm_seq r" using 1(1) unfolding wm_ok_def by blast
  then have none: "go_get (wm_data r) (wm_seq r + 1) = None" by (meson not_None_eq zless_add1_eq not_less)
  have k: "wh = \<lparr>wh_ID = wm_seq r + 1, wh_URL = url, wh_Secret = secret, wh_Events = events, wh_CreatedAt = 0\<rparr>"
    "r' = r\<lparr>wm_seq := wm_seq r + 1, wm_data := go_put (wm_seq r + 1) wh (wm_data r)\<rparr>"
    using 1(3) seq by (auto simp: webhook_memory_def wm_Create_def Let_def)
  have "wm_ok r'" using 1(1,2) k by (fastforce simp: wm_ok_def wm_room_def)
  then show ?case using k none by (simp add: fun_upd_def)
next
  case (2 r hooks r')
  have "\<And>i w. (i, w) \<in> set (wm_data r) \<Longrightarrow> wh_ID w = i"
    using 2(1) unfolding wm_ok_def by (metis go_get_Some_iff)
  then show ?case using 2 by (intro rows_listed) (auto simp: wm_ok_def webhook_memory_def wm_List_def)
next
  case (5 r i r')
  then obtain w where w: "go_get (wm_data r) i = Some w" and r': "r' = r\<lparr>wm_data := go_del i (wm_data r)\<rparr>"
    by (auto simp: webhook_memory_def wm_Delete_def split: option.splits)
  have "wm_ok r'" using 5(1) r' by (auto simp: wm_ok_def split: if_splits)
  then show ?case using w r' by (auto simp: fun_upd_def)
qed (auto simp: webhook_memory_def wm_List_def)

abbreviation hp_ok :: "Webhook table \<Rightarrow> bool" where
  "hp_ok \<equiv> tb_uniq wh_ID (\<lambda>_ _. False)"

abbreviation hp_view :: "Webhook table \<Rightarrow> int \<Rightarrow> Webhook option" where
  "hp_view t \<equiv> go_get (tb_rows t)"

lemma hp_row_id [simp]: "wh_ID (hp_row now url secret events i) = i"
  by (simp add: hp_row_def)

interpretation hook_pg: webhook_store hp_ok "\<lambda>t. tb_faults t = []" "\<lambda>_. True" "\<lambda>t. hp_view t" "webhook_postgres check now"
proof (unfold_locales, goal_cases)
  case (1 r url secret events wh r')
  then have ins: "tb_insert (hp_not_null check) (\<lambda>_ _. False) (hp_row now url secret events) r = (Inr wh, r')"
    by (simp add: webhook_postgres_def hp_Create_def)
  note R = tb_uniq_insert [OF 1(1) ins hp_row_id refl]
  then obtain i where "wh = hp_row now url secret events i" by blast
  then have "wh_URL wh = url" "wh_Secret wh = secret" "wh_Events wh = events" by (simp_all add: hp_row_def)
  with R show ?case by blast
next
  case (2 r hooks r')
  have ok: "gomap_ok (tb_rows r)" "\<And>i w. (i, w) \<in> set (tb_rows r) \<Longrightarrow> wh_ID w = i"
    using tb_uniqD(1) [OF 2(1)] by (auto simp: tb_ok_def)
  have "tb_stmt (\<lambda>rows. (filter (\<lambda>_. True) (map snd (sort_key fst rows)), rows)) r = (Inr hooks, r')"
    using 2(2) by (simp add: webhook_postgres_def hp_List_def tb_select_def)
  then have "hooks = map snd (sort_key fst (tb_rows r))" by (cases rule: tb_stmt_cases) auto
  then have "mset hooks = mset (map snd (tb_rows r))" by (simp add: mset_map)
  with ok show ?case by (intro rows_listed)
next
  case (3 r)
  then show ?case by (simp add: webhook_postgres_def hp_List_def tb_select_def tb_stmt_def Let_def)
next
  case (4 r)
  then show ?case using tb_uniq_select [OF 4] tb_select_frame [of "\<lambda>_. True" r]
    by (simp add: webhook_postgres_def hp_List_def) (metis prod.collapse)
next
  case (5 r i r')
  then show ?case using tb_delete_found_rows [OF 5(1), of ErrWebhookNotFound i None r']
    by (auto simp: webhook_postgres_def hp_Delete_def fun_upd_def)
qed

lemma hs_Create_ok:
  assumes ok: "hp_ok t" and c: "hs_Create (webhook_postgres check now) url secret events t = (r, t')"
  shows "hp_ok t'"
proof -
  have ins: "tb_insert (hp_not_null check) (\<lambda>_ _. False) (hp_row now url secret events) t = (r, t')"
    using c by (simp add: hs_Create_def webhook_postgres_def hp_Create_def)
  show ?thesis
  proof (cases r)
    case (Inl e)
    from tb_uniq_insert_error [OF ok ins [unfolded Inl] hp_row_id] show ?thesis by simp
  next
    case (Inr wh)
    from tb_uniq_insert [OF ok ins [unfolded Inr] hp_row_id refl] show ?thesis by simp
  qed
qed

lemma hs_Delete_ok: "hp_ok t \<Longrightarrow> hs_Delete (webhook_postgres check now) i t = (e, t') \<Longrightarrow> hp_ok t'"
  using tb_delete_found_rows [of wh_ID "\<lambda>_ _. False" t ErrWebhookNotFound i e t']
  by (simp add: hs_Delete_def webhook_postgres_def hp_Delete_def)

lemma hs_List_ok: "hp_ok t \<Longrightarrow> hs_List (webhook_postgres check now) t = (q, t') \<Longrightarrow> hp_ok t'"
  using hook_pg.list_frame [of t check now] by (simp add: hs_List_def)

section \<open>Properties of the dispatcher\<close>

text \<open>Any sequence of requests to the service over the database, with any statement failing.\<close>

inductive hook_reach :: "(Webhook \<Rightarrow> error option) \<Rightarrow> Webhook table \<Rightarrow> bool" for check where
  start: "hook_reach check (tb_empty\<lparr>tb_faults := fs\<rparr>)"
| create: "hook_reach check t \<Longrightarrow> hook_reach check (snd (hs_Create (webhook_postgres check now) url secret events t))"
| delete: "hook_reach check t \<Longrightarrow> hook_reach check (snd (hs_Delete (webhook_postgres check now) i t))"
| list: "hook_reach check t \<Longrightarrow> hook_reach check (snd (hs_List (webhook_postgres check now) t))"

lemma hook_reach_ok: "hook_reach check t \<Longrightarrow> hp_ok t"
proof (induction rule: hook_reach.induct)
  case (start fs)
  show ?case by (rule tb_uniq_empty)
next
  case (create t now url secret events)
  from create.IH show ?case by (rule hs_Create_ok [OF _ prod.collapse [symmetric]])
next
  case (delete t now i)
  from delete.IH show ?case by (rule hs_Delete_ok [OF _ prod.collapse [symmetric]])
next
  case (list t now)
  from list.IH show ?case by (rule hs_List_ok [OF _ prod.collapse [symmetric]])
qed

text \<open>
  C15: The dispatcher calls whom it should. In every state the webhook table can reach, an event is
  posted only to registered webhooks whose filter accepts its type, with the signature of their
  secret; and when the list can be read, every such webhook with a usable URL is called.
\<close>

theorem webhook_calls:
  assumes "hook_reach check t" and "DeliverBody (webhook_postgres check now) newRequest body evType (t, w) = (t', w')"
  shows "\<exists>new. hw_sent w' = hw_sent w @ new \<and>
    (\<forall>req \<in> set new. \<exists>i wh d. hp_view t i = Some wh \<and> matchesFilter (wh_Events wh) evType \<and>
      req = mk_request wh body evType d) \<and>
    (tb_faults t = [] \<longrightarrow> (\<forall>i wh. hp_view t i = Some wh \<and> matchesFilter (wh_Events wh) evType \<and>
      newRequest (wh_URL wh) = None \<longrightarrow> (\<exists>d. mk_request wh body evType d \<in> set new)))"
proof -
  have ok: "hp_ok t" using assms(1) by (rule hook_reach_ok)
  obtain new where new: "hw_sent w' = hw_sent w @ new" "\<forall>req \<in> set new. \<exists>i wh d. hp_view t i = Some wh \<and>
      matchesFilter (wh_Events wh) evType \<and> req = mk_request wh body evType d"
    using hook_pg.only_registered [OF ok assms(2)] by blast
  have "\<exists>d. mk_request wh body evType d \<in> set new"
    if "tb_faults t = []" "hp_view t i = Some wh" "matchesFilter (wh_Events wh) evType" "newRequest (wh_URL wh) = None" for i wh
    using hook_pg.registered_called [where nr = newRequest, OF ok that assms(2)] new(1) by auto
  with new show ?thesis by blast
qed

definition ex_hooks :: "Webhook table" where
  "ex_hooks = snd (hs_Create (webhook_postgres (\<lambda>_. None) 7) ''http://h'' ''s3'' (Some [''message'']) tb_empty)"

definition ex_world :: http_world where
  "ex_world = \<lparr>hw_sent = [], hw_waits = 0, hw_failed = [], hw_replies = [], hw_uuids = [''d1''], hw_cancels = []\<rparr>"

theorem webhook_calls_witness:
  "\<exists>t' w' req. DeliverBody (webhook_postgres (\<lambda>_. None) 8) (\<lambda>_. None) [1] ''message'' (ex_hooks, ex_world) = (t', w') \<and>
     req \<in> set (hw_sent w') \<and> rq_URL req = ''http://h''"
proof -
  have "hook_reach (\<lambda>_. None) tb_empty" using hook_reach.start [of "\<lambda>_. None" "[]"] by (simp add: tb_empty_def)
  then have reach: "hook_reach (\<lambda>_. None) ex_hooks" unfolding ex_hooks_def by (rule hook_reach.create)
  have rows: "tb_rows ex_hooks = [(1, hp_row 7 ''http://h'' ''s3'' (Some [''message'']) 1)]" "tb_faults ex_hooks = []"
    by (simp_all add: ex_hooks_def hs_Create_def webhook_postgres_def hp_Create_def tb_insert_def tb_empty_def Let_def hp_not_null_def hp_row_def)
  obtain t' w' where d: "DeliverBody (webhook_postgres (\<lambda>_. None) 8) (\<lambda>_. None) [1] ''message'' (ex_hooks, ex_world) = (t', w')"
    by fastforce
  have "hw_sent ex_world = []" by (simp add: ex_world_def)
  with webhook_calls [OF reach d] rows have "\<exists>d. mk_request (hp_row 7 ''http://h'' ''s3'' (Some [''message'']) 1) [1] ''message'' d \<in> set (hw_sent w')"
    by (auto simp: matchesFilter_def hp_row_def)
  then show ?thesis using d by (auto simp: mk_request_def hp_row_def)
qed





text \<open>
  C39: Publishing an update and extracting the event from what the stream returns gives back the
  session, the worker, the type, the payload and the time of publication.
\<close>

theorem publish_extract:
  assumes "- (2 ^ 63) \<le> now" and "now < 2 ^ 63"
  shows "extractEvent (encode_vals (publish_values workerID upd now)) =
    \<lparr>ev_SessionID = upd_SessionId upd, ev_WorkerID = workerID, ev_Type = upd_Type upd,
     ev_Payload = bytes_of (upd_Payload upd), ev_ReceivedAt = now\<rparr>"
  using Sscan_FormatInt [OF assms]
  by (simp add: extractEvent_def encode_vals_def publish_values_def ev_str_def ev_int64v_def)

theorem publish_extract_witness:
  "ev_ReceivedAt (extractEvent (encode_vals (publish_values ''w1''
     \<lparr>upd_SessionId = ''s1'', upd_Type = ''message'', upd_Payload = ''{}'', upd_ReceivedAt = 5\<rparr> 1700000000000))) = 1700000000000"
  using publish_extract [of 1700000000000 "''w1''"
      "\<lparr>upd_SessionId = ''s1'', upd_Type = ''message'', upd_Payload = ''{}'', upd_ReceivedAt = 5\<rparr>"] by simp

end
