(* ===== verification/Account.thy ===== *)
theory Account
  imports Repository
begin

text \<open>
  Accounts, \<open>internal/account\<close>: the model, the repository interface as a method table, its
  in-memory and PostgreSQL implementations, and the service. Both implementations interpret the
  repository contract.
\<close>

section \<open>Model\<close>

type_synonym acc_status = string

record Account =
  acc_ID :: int
  acc_Phone :: string
  acc_SessionID :: string
  acc_Status :: acc_status
  acc_FirstName :: "string option"
  acc_LastName :: "string option"
  acc_Username :: "string option"
  acc_TGUserID :: "int option"
  acc_WorkerID :: "string option"
  acc_CreatedAt :: int
  acc_UpdatedAt :: int

record UpdateProfileRequest =
  upr_FirstName :: "string option"
  upr_LastName :: "string option"
  upr_Username :: "string option"
  upr_TGUserID :: "int option"
  upr_Status :: acc_status

record 'r AccountRepository =
  ar_Create :: "Account \<Rightarrow> 'r \<Rightarrow> (error + Account) \<times> 'r"
  ar_GetByID :: "int \<Rightarrow> 'r \<Rightarrow> (error + Account) \<times> 'r"
  ar_GetBySessionID :: "string \<Rightarrow> 'r \<Rightarrow> (error + Account) \<times> 'r"
  ar_List :: "ListFilter \<Rightarrow> 'r \<Rightarrow> (error + Account list) \<times> 'r"
  ar_UpdateProfile :: "int \<Rightarrow> UpdateProfileRequest \<Rightarrow> 'r \<Rightarrow> error option \<times> 'r"
  ar_UpdateStatus :: "int \<Rightarrow> acc_status \<Rightarrow> 'r \<Rightarrow> error option \<times> 'r"
  ar_UpdateWorkerID :: "string \<Rightarrow> string \<Rightarrow> 'r \<Rightarrow> error option \<times> 'r"
  ar_ListByWorkerID :: "string \<Rightarrow> 'r \<Rightarrow> (error + Account list) \<times> 'r"
  ar_Delete :: "int \<Rightarrow> 'r \<Rightarrow> error option \<times> 'r"

section \<open>The in-memory repository\<close>

record AccountMemory =
  am_store :: "(int, Account) gomap"
  am_byPhone :: "(string, int) gomap"
  am_bySession :: "(string, int) gomap"
  am_seq :: int

definition am_New :: AccountMemory where
  "am_New = \<lparr>am_store = [], am_byPhone = [], am_bySession = [], am_seq = 0\<rparr>"

definition am_Create :: "Account \<Rightarrow> AccountMemory \<Rightarrow> (error + Account) \<times> AccountMemory" where
  "am_Create a r =
     (case go_get (am_byPhone r) (acc_Phone a) of
        Some _ \<Rightarrow> (Inl (Errorf ''phone %q already exists'' [acc_Phone a]), r)
      | None \<Rightarrow>
          (let i = wrap64 (am_seq r + 1); a' = a\<lparr>acc_ID := i\<rparr> in
           (Inr a',
            r\<lparr>am_seq := i,
              am_store := go_put i a' (am_store r),
              am_byPhone := go_put (acc_Phone a) i (am_byPhone r),
              am_bySession := go_put (acc_SessionID a) i (am_bySession r)\<rparr>)))"

definition am_GetByID :: "int \<Rightarrow> AccountMemory \<Rightarrow> (error + Account) \<times> AccountMemory" where
  "am_GetByID i r = (case go_get (am_store r) i of None \<Rightarrow> Inl ErrNoRows | Some a \<Rightarrow> Inr a, r)"

definition am_GetBySessionID :: "string \<Rightarrow> AccountMemory \<Rightarrow> (error + Account) \<times> AccountMemory" where
  "am_GetBySessionID sid r =
     (case go_get (am_bySession r) sid of
        None \<Rightarrow> Inl ErrNoRows
      | Some i \<Rightarrow> (case go_get (am_store r) i of None \<Rightarrow> Inl (Panic ''nil pointer'') | Some a \<Rightarrow> Inr a), r)"

text \<open>The loop of \<open>List\<close> over the map, which stops once the limit is reached.\<close>

fun am_list_loop :: "(Account \<Rightarrow> bool) \<Rightarrow> int \<Rightarrow> Account list \<Rightarrow> Account list \<Rightarrow> Account list" where
  "am_list_loop P limit [] result = result"
| "am_list_loop P limit (a # rest) result =
     (if \<not> P a then am_list_loop P limit rest result
      else
        (let result' = result @ [a] in
         if int (length result') \<ge> limit then result' else am_list_loop P limit rest result'))"

definition am_List :: "nat list \<Rightarrow> ListFilter \<Rightarrow> AccountMemory \<Rightarrow> (error + Account list) \<times> AccountMemory" where
  "am_List ks f r =
     (let limit = (if lf_Limit f = 0 then 50 else lf_Limit f)
      in (Inr (am_list_loop (\<lambda>a. case lf_Status f of None \<Rightarrow> True | Some st \<Rightarrow> acc_Status a = st) limit
                (arrange ks (map snd (am_store r))) []), r))"

text \<open>An update through the pointer stored under an identifier.\<close>

definition am_modify :: "int \<Rightarrow> (Account \<Rightarrow> Account) \<Rightarrow> AccountMemory \<Rightarrow> error option \<times> AccountMemory" where
  "am_modify i f r =
     (case go_get (am_store r) i of
        None \<Rightarrow> (Some ErrNoRows, r)
      | Some a \<Rightarrow> (None, r\<lparr>am_store := go_put i (f a) (am_store r)\<rparr>))"

definition set_profile :: "UpdateProfileRequest \<Rightarrow> Account \<Rightarrow> Account" where
  "set_profile req a =
     a\<lparr>acc_FirstName := upr_FirstName req, acc_LastName := upr_LastName req,
       acc_Username := upr_Username req, acc_TGUserID := upr_TGUserID req, acc_Status := upr_Status req\<rparr>"

definition am_UpdateProfile ::
  "int \<Rightarrow> UpdateProfileRequest \<Rightarrow> AccountMemory \<Rightarrow> error option \<times> AccountMemory" where
  "am_UpdateProfile i req = am_modify i (set_profile req)"

definition am_UpdateStatus :: "int \<Rightarrow> acc_status \<Rightarrow> AccountMemory \<Rightarrow> error option \<times> AccountMemory" where
  "am_UpdateStatus i st = am_modify i (\<lambda>a. a\<lparr>acc_Status := st\<rparr>)"

definition am_UpdateWorkerID :: "string \<Rightarrow> string \<Rightarrow> AccountMemory \<Rightarrow> error option \<times> AccountMemory" where
  "am_UpdateWorkerID sid wid r =
     (case go_get (am_bySession r) sid of
        None \<Rightarrow> (Some ErrNoRows, r)
      | Some i \<Rightarrow>
          (case go_get (am_store r) i of
             None \<Rightarrow> (Some (Panic ''nil pointer''), r)
           | Some a \<Rightarrow> (None, r\<lparr>am_store := go_put i (a\<lparr>acc_WorkerID := Some wid\<rparr>) (am_store r)\<rparr>)))"

definition am_ListByWorkerID ::
  "nat list \<Rightarrow> string \<Rightarrow> AccountMemory \<Rightarrow> (error + Account list) \<times> AccountMemory" where
  "am_ListByWorkerID ks wid r =
     (Inr (filter (\<lambda>a. acc_WorkerID a = Some wid) (arrange ks (map snd (am_store r)))), r)"

definition am_Delete :: "int \<Rightarrow> AccountMemory \<Rightarrow> error option \<times> AccountMemory" where
  "am_Delete i r =
     (case go_get (am_store r) i of
        None \<Rightarrow> (Some ErrNoRows, r)
      | Some a \<Rightarrow>
          (None,
           r\<lparr>am_byPhone := go_del (acc_Phone a) (am_byPhone r),
             am_bySession := go_del (acc_SessionID a) (am_bySession r),
             am_store := go_del i (am_store r)\<rparr>))"

text \<open>\<open>ks\<close> is the iteration order of the map in the two listings.\<close>

definition account_memory :: "nat list \<Rightarrow> AccountMemory AccountRepository" where
  "account_memory ks =
     \<lparr>ar_Create = am_Create, ar_GetByID = am_GetByID, ar_GetBySessionID = am_GetBySessionID,
      ar_List = am_List ks, ar_UpdateProfile = am_UpdateProfile, ar_UpdateStatus = am_UpdateStatus,
      ar_UpdateWorkerID = am_UpdateWorkerID, ar_ListByWorkerID = am_ListByWorkerID ks,
      ar_Delete = am_Delete\<rparr>"

section \<open>The PostgreSQL repository\<close>

text \<open>
  \<open>check\<close> is the database's check of the column types and lengths, \<open>now\<close> its clock. An insert
  stores phone, session identifier and status, and fills in the key and the time stamps of the
  caller's struct.
\<close>

definition ap_row :: "int \<Rightarrow> Account \<Rightarrow> int \<Rightarrow> Account" where
  "ap_row now a i =
     \<lparr>acc_ID = i, acc_Phone = acc_Phone a, acc_SessionID = acc_SessionID a, acc_Status = acc_Status a,
      acc_FirstName = None, acc_LastName = None, acc_Username = None, acc_TGUserID = None,
      acc_WorkerID = None, acc_CreatedAt = now, acc_UpdatedAt = now\<rparr>"

definition acc_unique :: "Account \<Rightarrow> Account \<Rightarrow> bool" where
  "acc_unique x y \<longleftrightarrow> acc_Phone x = acc_Phone y \<or> acc_SessionID x = acc_SessionID y"

definition ap_Create ::
  "(Account \<Rightarrow> error option) \<Rightarrow> int \<Rightarrow> Account \<Rightarrow> Account table \<Rightarrow> (error + Account) \<times> Account table" where
  "ap_Create check now a t =
     (case tb_insert check acc_unique (ap_row now a) t of
        (Inl e, t') \<Rightarrow> (Inl (Wrapf ''account create: %w'' [] e), t')
      | (Inr row, t') \<Rightarrow>
          (Inr (a\<lparr>acc_ID := acc_ID row, acc_CreatedAt := acc_CreatedAt row, acc_UpdatedAt := acc_UpdatedAt row\<rparr>), t'))"

definition ap_GetByID :: "(int \<Rightarrow> string) \<Rightarrow> int \<Rightarrow> Account table \<Rightarrow> (error + Account) \<times> Account table" where
  "ap_GetByID show_int i t =
     wrap_result ''account get by id %d: %w'' [show_int i] (tb_get (\<lambda>a. acc_ID a = i) t)"

definition ap_GetBySessionID :: "string \<Rightarrow> Account table \<Rightarrow> (error + Account) \<times> Account table" where
  "ap_GetBySessionID sid t =
     wrap_result ''account get by session %s: %w'' [sid] (tb_get (\<lambda>a. acc_SessionID a = sid) t)"

definition ap_List :: "ListFilter \<Rightarrow> Account table \<Rightarrow> (error + Account list) \<times> Account table" where
  "ap_List f t =
     (let f1 = (if lf_Limit f = 0 then f\<lparr>lf_Limit := 50\<rparr> else f)
      in wrap_result ''account list: %w'' []
           (paginate (lf_Limit f1) (lf_Offset f1) (tb_select (list_query f1 acc_Status acc_WorkerID) t)))"

definition ap_UpdateProfile ::
  "(int \<Rightarrow> string) \<Rightarrow> int \<Rightarrow> int \<Rightarrow> UpdateProfileRequest \<Rightarrow> Account table \<Rightarrow> error option \<times> Account table" where
  "ap_UpdateProfile show_int now i req t =
     wrap_error ''account update profile %d: %w'' [show_int i]
       (tb_update (\<lambda>a. acc_ID a = i) (\<lambda>a. (set_profile req a)\<lparr>acc_UpdatedAt := now\<rparr>) t)"

definition ap_UpdateStatus ::
  "(int \<Rightarrow> string) \<Rightarrow> int \<Rightarrow> int \<Rightarrow> acc_status \<Rightarrow> Account table \<Rightarrow> error option \<times> Account table" where
  "ap_UpdateStatus show_int now i st t =
     wrap_error ''account update status %d: %w'' [show_int i]
       (tb_update (\<lambda>a. acc_ID a = i) (\<lambda>a. a\<lparr>acc_Status := st, acc_UpdatedAt := now\<rparr>) t)"

definition ap_UpdateWorkerID ::
  "int \<Rightarrow> string \<Rightarrow> string \<Rightarrow> Account table \<Rightarrow> error option \<times> Account table" where
  "ap_UpdateWorkerID now sid wid t =
     tb_update (\<lambda>a. acc_SessionID a = sid) (\<lambda>a. a\<lparr>acc_WorkerID := Some wid, acc_UpdatedAt := now\<rparr>) t"

definition ap_ListByWorkerID :: "string \<Rightarrow> Account table \<Rightarrow> (error + Account list) \<times> Account table" where
  "ap_ListByWorkerID wid t =
     wrap_result ''account list by worker %s: %w'' [wid] (tb_select (\<lambda>a. acc_WorkerID a = Some wid) t)"

definition ap_Delete :: "(int \<Rightarrow> string) \<Rightarrow> int \<Rightarrow> Account table \<Rightarrow> error option \<times> Account table" where
  "ap_Delete show_int i t = wrap_error ''account delete %d: %w'' [show_int i] (tb_delete i t)"

definition account_postgres ::
  "(Account \<Rightarrow> error option) \<Rightarrow> (int \<Rightarrow> string) \<Rightarrow> int \<Rightarrow> Account table AccountRepository" where
  "account_postgres check show_int now =
     \<lparr>ar_Create = ap_Create check now, ar_GetByID = ap_GetByID show_int,
      ar_GetBySessionID = ap_GetBySessionID, ar_List = ap_List,
      ar_UpdateProfile = ap_UpdateProfile show_int now, ar_UpdateStatus = ap_UpdateStatus show_int now,
      ar_UpdateWorkerID = ap_UpdateWorkerID now, ar_ListByWorkerID = ap_ListByWorkerID,
      ar_Delete = ap_Delete show_int\<rparr>"

section \<open>The service\<close>

text \<open>\<open>uuid\<close> is the identifier \<open>uuid.NewString()\<close> returns.\<close>

definition new_account :: "string \<Rightarrow> string \<Rightarrow> Account" where
  "new_account uuid phone =
     \<lparr>acc_ID = 0, acc_Phone = phone, acc_SessionID = uuid, acc_Status = ''pending'',
      acc_FirstName = None, acc_LastName = None, acc_Username = None, acc_TGUserID = None,
      acc_WorkerID = None, acc_CreatedAt = 0, acc_UpdatedAt = 0\<rparr>"

definition as_Add :: "'r AccountRepository \<Rightarrow> string \<Rightarrow> string \<Rightarrow> 'r \<Rightarrow> (error + Account) \<times> 'r" where
  "as_Add R uuid phone r =
     (case ar_Create R (new_account uuid phone) r of
        (Inl err, r') \<Rightarrow> (Inl (Wrapf ''add account: %w'' [] err), r')
      | (Inr a, r') \<Rightarrow> (Inr a, r'))"

definition as_Get :: "'r AccountRepository \<Rightarrow> int \<Rightarrow> 'r \<Rightarrow> (error + Account) \<times> 'r" where
  "as_Get R i = ar_GetByID R i"

definition as_GetBySessionID :: "'r AccountRepository \<Rightarrow> string \<Rightarrow> 'r \<Rightarrow> (error + Account) \<times> 'r" where
  "as_GetBySessionID R sid = ar_GetBySessionID R sid"

definition as_List :: "'r AccountRepository \<Rightarrow> ListFilter \<Rightarrow> 'r \<Rightarrow> (error + Account list) \<times> 'r" where
  "as_List R f = ar_List R f"

definition as_UpdateStatus :: "'r AccountRepository \<Rightarrow> int \<Rightarrow> acc_status \<Rightarrow> 'r \<Rightarrow> error option \<times> 'r" where
  "as_UpdateStatus R i st = ar_UpdateStatus R i st"

definition as_UpdateWorkerID :: "'r AccountRepository \<Rightarrow> string \<Rightarrow> string \<Rightarrow> 'r \<Rightarrow> error option \<times> 'r" where
  "as_UpdateWorkerID R sid wid = ar_UpdateWorkerID R sid wid"

definition as_ListByWorkerID :: "'r AccountRepository \<Rightarrow> string \<Rightarrow> 'r \<Rightarrow> (error + Account list) \<times> 'r" where
  "as_ListByWorkerID R wid = ar_ListByWorkerID R wid"

definition as_Remove :: "'r AccountRepository \<Rightarrow> int \<Rightarrow> 'r \<Rightarrow> error option \<times> 'r" where
  "as_Remove R i r =
     (case ar_Delete R i r of
        (Some err, r') \<Rightarrow> (Some (Wrapf ''remove account: %w'' [] err), r')
      | (None, r') \<Rightarrow> (None, r'))"

section \<open>The in-memory repository meets the contract\<close>

text \<open>Both index maps point exactly at the stored accounts.\<close>

definition am_ok :: "AccountMemory \<Rightarrow> bool" where
  "am_ok r \<longleftrightarrow> index_ok acc_ID acc_Phone acc_SessionID (am_store r) (am_byPhone r) (am_bySession r) (am_seq r)"

definition am_room :: "AccountMemory \<Rightarrow> bool" where
  "am_room r \<longleftrightarrow> am_seq r < 2 ^ 63 - 1"

definition acc_blank :: "Account \<Rightarrow> bool" where
  "acc_blank a \<longleftrightarrow> acc_FirstName a = None \<and> acc_LastName a = None \<and> acc_Username a = None \<and>
     acc_TGUserID a = None \<and> acc_WorkerID a = None"

lemmas am_ok_parts = index_ok_parts [OF am_ok_def [THEN iffD1]]

lemma am_ok_New: "am_ok am_New"
  by (simp add: am_ok_def am_New_def index_ok_empty)

lemma am_Create_row:
  assumes ok: "am_ok r" and room: "am_room r"
    and new: "\<And>i x. go_get (am_store r) i = Some x \<Longrightarrow> acc_SessionID x \<noteq> acc_SessionID a"
    and c: "am_Create a r = (Inr a', r')"
  shows "am_ok r' \<and> a' = a\<lparr>acc_ID := am_seq r + 1\<rparr> \<and> go_get (am_store r) (am_seq r + 1) = None \<and>
    go_get (am_store r') = (go_get (am_store r))(am_seq r + 1 \<mapsto> a')"
proof -
  note ok' = ok [unfolded am_ok_def] and room' = room [unfolded am_room_def]
  have phone: "go_get (am_byPhone r) (acc_Phone a) = None" using c by (simp add: am_Create_def split: option.splits)
  have r': "a' = a\<lparr>acc_ID := am_seq r + 1\<rparr>"
    "r' = r\<lparr>am_seq := am_seq r + 1, am_store := go_put (am_seq r + 1) a' (am_store r),
      am_byPhone := go_put (acc_Phone a) (am_seq r + 1) (am_byPhone r),
      am_bySession := go_put (acc_SessionID a) (am_seq r + 1) (am_bySession r)\<rparr>"
    using c phone index_ok_seq [OF ok' room'] by (auto simp: am_Create_def Let_def)
  have "index_ok acc_ID acc_Phone acc_SessionID (go_put (am_seq r + 1) a' (am_store r))
      (go_put (acc_Phone a') (am_seq r + 1) (am_byPhone r)) (go_put (acc_SessionID a') (am_seq r + 1) (am_bySession r))
      (am_seq r + 1)"
    by (rule index_ok_insert [OF ok' room']) (use phone new r'(1) in auto)
  then show ?thesis using index_ok_fresh [OF ok'] r' by (auto simp: am_ok_def fun_upd_def)
qed

lemma am_Delete_row:
  assumes ok: "am_ok r" and d: "am_Delete i r = (None, r')"
  shows "am_ok r' \<and> go_get (am_store r') = (go_get (am_store r))(i := None)"
proof -
  obtain a where a: "go_get (am_store r) i = Some a" using d by (auto simp: am_Delete_def split: option.splits)
  with d index_ok_delete [OF ok [unfolded am_ok_def] a] show ?thesis
    by (auto simp: am_Delete_def am_ok_def fun_upd_def)
qed

lemma am_ok_store:
  assumes "am_ok r" "go_get (am_store r) i = Some x"
    and "acc_ID x' = acc_ID x" "acc_Phone x' = acc_Phone x" "acc_SessionID x' = acc_SessionID x"
  shows "am_ok (r\<lparr>am_store := go_put i x' (am_store r)\<rparr>)"
  using index_ok_store [OF assms(1) [unfolded am_ok_def] assms(2-)] by (simp add: am_ok_def)

lemma am_modify_ok:
  assumes "am_ok r" and "\<And>x. acc_ID (f x) = acc_ID x \<and> acc_Phone (f x) = acc_Phone x \<and> acc_SessionID (f x) = acc_SessionID x"
  shows "am_ok (snd (am_modify i f r))"
  using am_ok_store [OF assms(1)] assms by (auto simp: am_modify_def split: option.splits)

lemma am_UpdateWorkerID_row:
  assumes ok: "am_ok r" and x: "go_get (am_store r) i = Some x"
    and u: "am_UpdateWorkerID (acc_SessionID x) w r = (None, r')"
  shows "am_ok r' \<and> go_get (am_store r') = (go_get (am_store r))(i \<mapsto> x\<lparr>acc_WorkerID := Some w\<rparr>)"
proof -
  have "r' = r\<lparr>am_store := go_put i (x\<lparr>acc_WorkerID := Some w\<rparr>) (am_store r)\<rparr>"
    using u am_ok_parts(7) [OF ok x] x by (simp add: am_UpdateWorkerID_def)
  with am_ok_store [OF ok x, of "x\<lparr>acc_WorkerID := Some w\<rparr>"] show ?thesis by (auto simp: fun_upd_def)
qed

interpretation acc_mem: repository am_ok "\<lambda>_. True" "\<lambda>r. go_get (am_store r)" am_room acc_blank
  acc_ID acc_Phone acc_SessionID am_Create am_GetByID am_GetBySessionID am_Delete am_UpdateWorkerID acc_WorkerID
proof (unfold_locales, goal_cases)
  case (2 r i x j y)
  then show ?case using am_ok_parts(6) [OF 2(1,2)] am_ok_parts(6) [OF 2(1,3)] by simp
next
  case (3 r i x j y)
  then show ?case using am_ok_parts(7) [OF 3(1,2)] am_ok_parts(7) [OF 3(1,3)] by simp
next
  case (4 r a a' r')
  then show ?case using am_Create_row [OF 4(1,2) _ 4(5)] by (auto simp: fun_upd_def)
next
  case (8 r i x)
  then show ?case using am_ok_parts(7) [OF 8(1,3)] by (simp add: am_GetBySessionID_def)
next
  case (10 r i r')
  then show ?case using am_Delete_row by blast
next
  case (12 r i x w r')
  let ?x = "x\<lparr>acc_WorkerID := Some w\<rparr>"
  have "acc_WorkerID ?x = Some w" "acc_Phone ?x = acc_Phone x" "acc_SessionID ?x = acc_SessionID x" by simp_all
  then show ?case using am_UpdateWorkerID_row [OF 12] by blast
next
  case (13 r s w e r')
  then show ?case by (auto simp: am_UpdateWorkerID_def split: option.splits)
qed (auto simp: am_Create_def am_GetByID_def am_GetBySessionID_def am_Delete_def Let_def am_ok_parts(4)
    split: option.splits)

section \<open>The PostgreSQL repository meets the contract\<close>

abbreviation ap_ok :: "Account table \<Rightarrow> bool" where
  "ap_ok \<equiv> tb_uniq acc_ID acc_unique"

lemma acc_unique_sym: "acc_unique x y = acc_unique y x"
  by (auto simp: acc_unique_def)

lemma ap_row_id [simp]: "acc_ID (ap_row now a i) = i"
  by (simp add: ap_row_def)

lemma ap_Create_row:
  assumes ok: "ap_ok t" and blank: "acc_blank a" and c: "ap_Create check now a t = (Inr a', t')"
  shows "ap_ok t' \<and> (tb_faults t = [] \<longrightarrow> tb_faults t' = []) \<and> go_get (tb_rows t) (acc_ID a') = None \<and>
    go_get (tb_rows t') = (go_get (tb_rows t))(acc_ID a' \<mapsto> a') \<and>
    acc_Phone a' = acc_Phone a \<and> acc_SessionID a' = acc_SessionID a"
proof -
  obtain row where ins: "tb_insert check acc_unique (ap_row now a) t = (Inr row, t')"
    and a': "a' = a\<lparr>acc_ID := acc_ID row, acc_CreatedAt := acc_CreatedAt row, acc_UpdatedAt := acc_UpdatedAt row\<rparr>"
    using c by (auto simp: ap_Create_def split: prod.splits sum.splits)
  note R = tb_uniq_insert [OF ok ins ap_row_id acc_unique_sym]
  then obtain i where "row = ap_row now a i" by blast
  then have "a' = row" "acc_Phone row = acc_Phone a" "acc_SessionID row = acc_SessionID a"
    using blank by (simp_all add: a' ap_row_def acc_blank_def)
  with R show ?thesis by metis
qed

lemma ap_UpdateWorkerID_row:
  assumes ok: "ap_ok t" and x: "go_get (tb_rows t) i = Some x"
    and u: "ap_UpdateWorkerID now (acc_SessionID x) w t = (None, t')"
  shows "ap_ok t' \<and> (tb_faults t = [] \<longrightarrow> tb_faults t' = []) \<and>
    go_get (tb_rows t') = (go_get (tb_rows t))(i \<mapsto> x\<lparr>acc_WorkerID := Some w, acc_UpdatedAt := now\<rparr>)"
proof -
  note u' = u [unfolded ap_UpdateWorkerID_def]
  have "ap_ok t'" by (rule tb_uniq_update [OF ok u']) (simp_all add: acc_unique_def)
  moreover have "go_get (tb_rows t') j = ((go_get (tb_rows t))(i \<mapsto> x\<lparr>acc_WorkerID := Some w, acc_UpdatedAt := now\<rparr>)) j" for j
    using tb_update_get [OF u', of j] x tb_uniqD(2) [OF ok x, of j]
    by (cases "go_get (tb_rows t) j") (auto simp: acc_unique_def)
  ultimately show ?thesis using tb_update_rows [OF u'] by auto
qed

interpretation acc_pg: repository ap_ok "\<lambda>t. tb_faults t = []" "\<lambda>t. go_get (tb_rows t)" "\<lambda>_. True" acc_blank
  acc_ID acc_Phone acc_SessionID "ap_Create check now" "ap_GetByID show_int" ap_GetBySessionID "ap_Delete show_int"
  "ap_UpdateWorkerID now" acc_WorkerID
proof (unfold_locales, goal_cases)
  case (1 r i x)
  then show ?case using tb_okD [OF tb_uniqD(1) [OF 1(1)] 1(2)] by simp
next
  case (2 r i x j y)
  then show ?case by (intro tb_uniqD(2) [OF 2(1-3)]) (simp add: acc_unique_def)
next
  case (3 r i x j y)
  then show ?case by (intro tb_uniqD(2) [OF 3(1-3)]) (simp add: acc_unique_def)
next
  case (4 r a a' r')
  then show ?case using ap_Create_row [OF 4(1,3,5)] by blast
next
  case (5 r a e r')
  then obtain e0 where "tb_insert check acc_unique (ap_row now a) r = (Inl e0, r')"
    by (auto simp: ap_Create_def split: prod.splits sum.splits)
  from tb_uniq_insert_error [OF 5(1) this] show ?case by simp
next
  case (6 r i x)
  have "fst (tb_get (\<lambda>a. acc_ID a = i) r) = Inr x"
    by (rule tb_get_by [OF 6(1,2,3)]) (use tb_okD [OF tb_uniqD(1) [OF 6(1)]] 6(3) in auto)
  then show ?case by (auto simp: ap_GetByID_def wrap_result_def split: prod.splits sum.splits)
next
  case (7 r i)
  have "fst (tb_get (\<lambda>a. acc_ID a = i) r) = Inl ErrNoRows"
    by (rule tb_get_none [OF 7(1,2)]) (use tb_okD [OF tb_uniqD(1) [OF 7(1)]] 7(3) in auto)
  then show ?case by (auto simp: ap_GetByID_def wrap_result_def split: prod.splits sum.splits)
next
  case (8 r i x)
  have "fst (tb_get (\<lambda>a. acc_SessionID a = acc_SessionID x) r) = Inr x"
    by (rule tb_get_by [OF 8(1,2,3)]) (use tb_uniqD(2) [OF 8(1) _ 8(3)] in \<open>auto simp: acc_unique_def\<close>)
  then show ?case by (auto simp: ap_GetBySessionID_def wrap_result_def split: prod.splits sum.splits)
next
  case (9 r i s)
  have "tb_rows (snd (tb_get P r)) = tb_rows r" for P using tb_get_frame [of P r] by (metis prod.collapse)
  then show ?case using tb_uniq_get [OF 9] by (simp add: ap_GetByID_def ap_GetBySessionID_def)
next
  case (10 r i r')
  then have "tb_delete i r = (None, r')" by (simp add: ap_Delete_def)
  from tb_uniq_delete [OF 10(1) this] show ?case by (simp add: fun_upd_def)
next
  case (11 r i e r')
  then obtain e0 where "tb_delete i r = (Some e0, r')" by (auto simp: ap_Delete_def)
  from tb_uniq_delete [OF 11(1) this] show ?case by simp
next
  case (12 r i x w r')
  let ?x = "x\<lparr>acc_WorkerID := Some w, acc_UpdatedAt := now\<rparr>"
  have "acc_WorkerID ?x = Some w" "acc_Phone ?x = acc_Phone x" "acc_SessionID ?x = acc_SessionID x" by simp_all
  then show ?case using ap_UpdateWorkerID_row [OF 12] by blast
next
  case (13 r s w e r')
  note u = 13(2) [unfolded ap_UpdateWorkerID_def]
  have "ap_ok r'" by (rule tb_uniq_update [OF 13(1) u]) (simp_all add: acc_unique_def)
  then show ?case using tb_update_rows [OF u] by simp
qed

section \<open>Reachable repositories\<close>

text \<open>
  Everything the program does to a repository, through the methods of any table of \<open>Rs\<close> (one per
  clock reading or iteration order). \<open>view\<close> gives the stored accounts: a new session identifier
  is one that no stored account has, which is what \<open>uuid.NewString\<close> is used for. The states
  passed through have \<open>room\<close> for another identifier.
\<close>

inductive acc_step :: "'r AccountRepository set \<Rightarrow> ('r \<Rightarrow> int \<Rightarrow> Account option) \<Rightarrow> 'r \<Rightarrow> 'r \<Rightarrow> bool"
  for Rs view where
  adds: "R \<in> Rs \<Longrightarrow> (\<And>i x. view r i = Some x \<Longrightarrow> acc_SessionID x \<noteq> uuid) \<Longrightarrow>
    acc_step Rs view r (snd (as_Add R uuid phone r))"
| gets: "R \<in> Rs \<Longrightarrow> acc_step Rs view r (snd (as_Get R i r))"
| finds: "R \<in> Rs \<Longrightarrow> acc_step Rs view r (snd (as_GetBySessionID R sid r))"
| lists: "R \<in> Rs \<Longrightarrow> acc_step Rs view r (snd (as_List R f r))"
| lists_worker: "R \<in> Rs \<Longrightarrow> acc_step Rs view r (snd (as_ListByWorkerID R wid r))"
| sets_status: "R \<in> Rs \<Longrightarrow> acc_step Rs view r (snd (as_UpdateStatus R i st r))"
| sets_worker: "R \<in> Rs \<Longrightarrow> acc_step Rs view r (snd (as_UpdateWorkerID R sid wid r))"
| sets_profile: "R \<in> Rs \<Longrightarrow> acc_step Rs view r (snd (ar_UpdateProfile R i req r))"
| removes: "R \<in> Rs \<Longrightarrow> acc_step Rs view r (snd (as_Remove R i r))"

inductive acc_reach ::
  "'r AccountRepository set \<Rightarrow> ('r \<Rightarrow> int \<Rightarrow> Account option) \<Rightarrow> ('r \<Rightarrow> bool) \<Rightarrow> 'r \<Rightarrow> 'r \<Rightarrow> bool"
  for Rs view room r0 where
  start: "acc_reach Rs view room r0 r0"
| step: "acc_reach Rs view room r0 r \<Longrightarrow> room r \<Longrightarrow> acc_step Rs view r r' \<Longrightarrow> acc_reach Rs view room r0 r'"

abbreviation am_view :: "AccountMemory \<Rightarrow> int \<Rightarrow> Account option" where
  "am_view r \<equiv> go_get (am_store r)"

abbreviation ap_view :: "Account table \<Rightarrow> int \<Rightarrow> Account option" where
  "ap_view t \<equiv> go_get (tb_rows t)"

abbreviation am_methods :: "AccountMemory AccountRepository set" where
  "am_methods \<equiv> range account_memory"

abbreviation ap_methods :: "(Account \<Rightarrow> error option) \<Rightarrow> (int \<Rightarrow> string) \<Rightarrow> Account table AccountRepository set" where
  "ap_methods check show_int \<equiv> range (account_postgres check show_int)"

lemma as_Add_snd: "snd (as_Add R uuid phone r) = snd (ar_Create R (new_account uuid phone) r)"
  by (simp add: as_Add_def split: prod.splits sum.splits)

lemma as_Remove_snd: "snd (as_Remove R i r) = snd (ar_Delete R i r)"
  by (simp add: as_Remove_def split: prod.splits option.splits)

lemma blank_new_account [simp]: "acc_blank (new_account uuid phone)" "acc_SessionID (new_account uuid phone) = uuid"
  "acc_Phone (new_account uuid phone) = phone" "acc_Status (new_account uuid phone) = ''pending''"
  by (simp_all add: acc_blank_def new_account_def)

text \<open>The in-memory repository is kept while its 63-bit counter lasts.\<close>

lemma am_ok_step:
  assumes "acc_step am_methods am_view r r'" and "am_ok r" and "am_room r"
  shows "am_ok r'"
  using assms(1)
proof cases
  case (adds R uuid phone)
  then have r': "r' = snd (am_Create (new_account uuid phone) r)" by (auto simp: as_Add_snd account_memory_def)
  show ?thesis
  proof (cases "fst (am_Create (new_account uuid phone) r)")
    case (Inl e)
    then show ?thesis using acc_mem.create_error [OF assms(2)] r' by (metis prod.collapse)
  next
    case (Inr a')
    then have c: "am_Create (new_account uuid phone) r = (Inr a', r')" using r' by (metis prod.collapse)
    show ?thesis using am_Create_row [OF assms(2,3) _ c] adds(3) by simp
  qed
next
  case (sets_worker R sid wid)
  then have r': "r' = snd (am_UpdateWorkerID sid wid r)" by (auto simp: as_UpdateWorkerID_def account_memory_def)
  show ?thesis unfolding r' using am_ok_store [OF assms(2)] assms(2)
    by (auto simp: am_UpdateWorkerID_def split: option.splits)
next
  case (removes R i)
  then have r': "r' = snd (am_Delete i r)" by (auto simp: as_Remove_snd account_memory_def)
  then show ?thesis using am_Delete_row [OF assms(2), of i r'] assms(2)
    by (cases "go_get (am_store r) i") (auto simp: am_Delete_def)
qed (use assms(2) in \<open>auto simp: as_Get_def as_GetBySessionID_def as_List_def as_ListByWorkerID_def as_UpdateStatus_def
    account_memory_def am_GetByID_def am_GetBySessionID_def am_List_def am_ListByWorkerID_def am_UpdateStatus_def
    am_UpdateProfile_def set_profile_def am_modify_ok\<close>)

lemma ap_ok_step:
  assumes "acc_step (ap_methods check show_int) ap_view t t'" and "ap_ok t"
  shows "ap_ok t'"
  using assms(1)
proof cases
  case (adds R uuid phone)
  then obtain now where t': "t' = snd (ap_Create check now (new_account uuid phone) t)"
    by (auto simp: as_Add_snd account_postgres_def)
  then show ?thesis
    using acc_pg.create_error [OF assms(2)] ap_Create_row [OF assms(2) blank_new_account(1)]
    by (cases "fst (ap_Create check now (new_account uuid phone) t)") (metis prod.collapse)+
next
  case (gets R i)
  then show ?thesis using acc_pg.get_frame [OF assms(2)] by (auto simp: as_Get_def account_postgres_def)
next
  case (finds R sid)
  then show ?thesis using acc_pg.get_frame [OF assms(2)] by (auto simp: as_GetBySessionID_def account_postgres_def)
next
  case (lists R f)
  then show ?thesis using tb_uniq_select [OF assms(2)] by (auto simp: as_List_def account_postgres_def ap_List_def Let_def)
next
  case (lists_worker R wid)
  then show ?thesis using tb_uniq_select [OF assms(2)]
    by (auto simp: as_ListByWorkerID_def account_postgres_def ap_ListByWorkerID_def)
next
  case (sets_status R i st)
  then show ?thesis
    by (auto simp: as_UpdateStatus_def account_postgres_def ap_UpdateStatus_def wrap_error_def
        acc_unique_def intro!: tb_uniq_update [OF assms(2) prod.collapse [symmetric]])
next
  case (sets_worker R sid wid)
  then show ?thesis
    by (auto simp: as_UpdateWorkerID_def account_postgres_def ap_UpdateWorkerID_def
        acc_unique_def intro!: tb_uniq_update [OF assms(2) prod.collapse [symmetric]])
next
  case (sets_profile R i req)
  then show ?thesis
    by (auto simp: account_postgres_def ap_UpdateProfile_def wrap_error_def set_profile_def
        acc_unique_def intro!: tb_uniq_update [OF assms(2) prod.collapse [symmetric]])
next
  case (removes R i)
  then have t': "t' = snd (ap_Delete show_int i t)" by (auto simp: as_Remove_snd account_postgres_def)
  then show ?thesis
    using acc_pg.delete_row [OF assms(2), of show_int i t'] acc_pg.delete_error [OF assms(2), of show_int i _ t']
    by (cases "fst (ap_Delete show_int i t)") (metis prod.collapse)+
qed

lemma ap_reach_ok: "acc_reach (ap_methods check show_int) ap_view (\<lambda>_. True) (tb_empty\<lparr>tb_faults := fs\<rparr>) t \<Longrightarrow> ap_ok t"
proof (induction rule: acc_reach.induct)
  case start
  show ?case by (rule tb_uniq_empty)
qed (rule ap_ok_step)

lemma am_reach_ok: "acc_reach am_methods am_view am_room am_New r \<Longrightarrow> am_ok r"
  by (induction rule: acc_reach.induct) (auto intro: am_ok_New am_ok_step)

section \<open>Properties\<close>

lemma as_Add_Inr: "as_Add R uuid phone r = (Inr a, r') \<longleftrightarrow> ar_Create R (new_account uuid phone) r = (Inr a, r')"
  by (auto simp: as_Add_def split: prod.splits sum.splits)

lemma ap_Create_status: "ap_Create check now a t = (Inr a', t') \<Longrightarrow> acc_Status a' = acc_Status a"
  by (auto simp: ap_Create_def split: prod.splits sum.splits)

text \<open>
  C21: registering an account in the database. In every reachable table whose next statements do
  not fail, an account that the service reports as added is pending under the given phone and a
  new identifier; reading it back by identifier or by session identifier gives exactly it; and
  another registration of the same phone is refused without changing a row.
\<close>

theorem account_add_get:
  assumes "acc_reach (ap_methods check show_int) ap_view (\<lambda>_. True) (tb_empty\<lparr>tb_faults := fs\<rparr>) t"
    and "tb_faults t = []" and "\<And>i x. ap_view t i = Some x \<Longrightarrow> acc_SessionID x \<noteq> uuid"
    and "as_Add (account_postgres check show_int now) uuid phone t = (Inr a, t')"
    and "uuid' \<noteq> uuid" and "\<And>i x. ap_view t i = Some x \<Longrightarrow> acc_SessionID x \<noteq> uuid'"
  shows "acc_Phone a = phone \<and> acc_SessionID a = uuid \<and> acc_Status a = ''pending'' \<and> ap_view t (acc_ID a) = None \<and>
    fst (as_Get (account_postgres check show_int now) (acc_ID a) t') = Inr a \<and>
    fst (as_GetBySessionID (account_postgres check show_int now) uuid t') = Inr a \<and>
    (\<exists>e. fst (as_Add (account_postgres check show_int now') uuid' phone t') = Inl e) \<and>
    ap_view (snd (as_Add (account_postgres check show_int now') uuid' phone t')) = ap_view t'"
proof -
  let ?a = "new_account uuid phone" and ?b = "new_account uuid' phone"
  have ok: "ap_ok t" using assms(1) by (rule ap_reach_ok)
  have c: "ap_Create check now ?a t = (Inr a, t')"
    using assms(4) by (simp add: as_Add_Inr account_postgres_def)
  note R = ap_Create_row [OF ok blank_new_account(1) c]
  have t': "ap_ok t'" "ap_view t' (acc_ID a) = Some a" using R by auto
  have fresh: "acc_SessionID x \<noteq> uuid'" if "ap_view t' i = Some x" for i x
    using that R assms(5) assms(6) [of i x] by (auto split: if_splits)
  have found: "fst (ap_GetByID show_int (acc_ID a) t') = Inr a" "fst (ap_GetBySessionID uuid t') = Inr a"
    using acc_pg.created_is_found [OF ok _ blank_new_account(1) assms(2) _ c, of show_int] assms(3) by auto
  obtain e where e: "fst (ap_Create check now' ?b t') = Inl e"
    using acc_pg.duplicate_refused [OF t'(1) _ blank_new_account(1) _ t'(2), of uuid' phone check now'] fresh R by auto
  then have "ap_view (snd (ap_Create check now' ?b t')) = ap_view t'"
    using acc_pg.create_error [OF t'(1), of check now' ?b e] by (metis prod.collapse)
  moreover have "\<exists>e. fst (as_Add (account_postgres check show_int now') uuid' phone t') = Inl e"
    using e by (auto simp: as_Add_def account_postgres_def split: prod.splits sum.splits)
  ultimately show ?thesis
    using found R ap_Create_status [OF c] by (simp add: as_Get_def as_GetBySessionID_def as_Add_snd account_postgres_def)
qed

abbreviation ex_check :: "'a \<Rightarrow> error option" where
  "ex_check \<equiv> (\<lambda>_. None)"

abbreviation ex_show :: "int \<Rightarrow> string" where
  "ex_show \<equiv> (\<lambda>_. ''1'')"

theorem account_add_get_witness:
  "\<exists>a t'. as_Add (account_postgres ex_check ex_show 7) ''u1'' ''+1'' tb_empty = (Inr a, t') \<and>
     fst (as_Get (account_postgres ex_check ex_show 7) (acc_ID a) t') = Inr a \<and>
     (\<exists>e. fst (as_Add (account_postgres ex_check ex_show 8) ''u2'' ''+1'' t') = Inl e)"
proof -
  have e: "tb_empty\<lparr>tb_faults := []\<rparr> = (tb_empty :: Account table)" by (simp add: tb_empty_def)
  have reach: "acc_reach (ap_methods ex_check ex_show) ap_view (\<lambda>_. True) (tb_empty\<lparr>tb_faults := []\<rparr>) tb_empty"
    unfolding e by (rule acc_reach.start)
  obtain a t' where c: "as_Add (account_postgres ex_check ex_show 7) ''u1'' ''+1'' tb_empty = (Inr a, t')"
    by (simp add: as_Add_def account_postgres_def ap_Create_def tb_insert_def tb_empty_def Let_def)
  have "tb_faults tb_empty = []" "ap_view tb_empty i = None" for i by (simp_all add: tb_empty_def)
  with account_add_get [OF reach _ _ c, of "''u2''" 8] c show ?thesis by (auto simp: tb_empty_def)
qed

text \<open>
  C22: the indexes of the in-memory repository. After any sequence of operations in which session
  identifiers are not reused and the identifier counter does not overflow, an account is stored
  under its identifier exactly when both index maps point at it by its phone and by its session
  identifier; so no two stored accounts share a phone, and a look-up by session never meets a
  dangling entry.
\<close>

theorem account_memory_indexes:
  assumes "acc_reach am_methods am_view am_room am_New r"
  shows "(am_view r i = Some x \<longrightarrow> acc_ID x = i \<and> go_get (am_byPhone r) (acc_Phone x) = Some i \<and>
      fst (am_GetBySessionID (acc_SessionID x) r) = Inr x) \<and>
    (go_get (am_byPhone r) p = Some i \<longrightarrow> (\<exists>y. am_view r i = Some y \<and> acc_Phone y = p)) \<and>
    fst (am_GetBySessionID q r) \<noteq> Inl (Panic ''nil pointer'')"
proof -
  note P = am_ok_parts [OF am_reach_ok [OF assms]]
  show ?thesis
    using P(4,6,7) [of i x] P(8) [of p i] P(9) [of q]
    by (auto simp: am_GetBySessionID_def ErrNoRows_def split: option.splits)
qed

definition ex_accounts :: AccountMemory where
  "ex_accounts = snd (as_Add (account_memory []) ''u1'' ''+1'' am_New)"

lemma ex_accounts_reach: "acc_reach am_methods am_view am_room am_New ex_accounts"
  unfolding ex_accounts_def
  by (rule acc_reach.step [OF acc_reach.start], simp add: am_room_def am_New_def, rule acc_step.adds)
    (simp_all add: am_New_def)

lemma ex_accounts_eq: "ex_accounts =
    \<lparr>am_store = [(1, (new_account ''u1'' ''+1'')\<lparr>acc_ID := 1\<rparr>)], am_byPhone = [(''+1'', 1)],
     am_bySession = [(''u1'', 1)], am_seq = 1\<rparr>"
  by (simp add: ex_accounts_def as_Add_def account_memory_def am_Create_def am_New_def wrap64_def Let_def)

theorem account_memory_indexes_witness:
  "fst (am_GetBySessionID ''u1'' ex_accounts) = Inr ((new_account ''u1'' ''+1'')\<lparr>acc_ID := 1\<rparr>)"
  using account_memory_indexes [OF ex_accounts_reach, of 1 "(new_account ''u1'' ''+1'')\<lparr>acc_ID := 1\<rparr>"]
  by (simp add: ex_accounts_eq)

text \<open>
  Paging. Over a database whose statements do not fail, the first \<open>p\<close> pages of size \<open>n\<close> that
  \<open>List\<close> returns for a filter, put together, are the first \<open>p * n\<close> matching accounts in the order
  of their identifiers: no account is skipped or repeated; a limit of zero is a page of 50.
\<close>

theorem account_pages:
  assumes "tb_faults t = []" and "0 < n"
  shows "concat (map (\<lambda>k. case fst (ap_List (f\<lparr>lf_Limit := int n, lf_Offset := int (k * n)\<rparr>) t) of
        Inr xs \<Rightarrow> xs | Inl _ \<Rightarrow> []) [0..<p]) =
      take (p * n) (filter (list_query f acc_Status acc_WorkerID) (map snd (sort_key fst (tb_rows t)))) \<and>
    fst (ap_List (f\<lparr>lf_Limit := 0, lf_Offset := 0\<rparr>) t) =
      Inr (take 50 (filter (list_query f acc_Status acc_WorkerID) (map snd (sort_key fst (tb_rows t)))))"
proof -
  have q: "list_query (f\<lparr>lf_Limit := l, lf_Offset := off\<rparr>) = (list_query f :: (Account \<Rightarrow> _) \<Rightarrow> _)"
    "list_query (f\<lparr>lf_Offset := off, lf_Limit := l\<rparr>) = (list_query f :: (Account \<Rightarrow> _) \<Rightarrow> _)" for l off
    by (simp_all add: list_query_def fun_eq_iff)
  let ?xs = "filter (list_query f acc_Status acc_WorkerID) (map snd (sort_key fst (tb_rows t)))"
  have "fst (ap_List (f\<lparr>lf_Limit := int n, lf_Offset := int (k * n)\<rparr>) t) = Inr (take n (drop (k * n) ?xs))" for k
    using assms by (simp add: ap_List_def q tb_select_def tb_stmt_def paginate_def Let_def del: of_nat_mult)
  moreover have "fst (ap_List (f\<lparr>lf_Limit := 0, lf_Offset := 0\<rparr>) t) = Inr (take 50 ?xs)"
    using assms by (simp add: ap_List_def q tb_select_def tb_stmt_def paginate_def)
  ultimately show ?thesis by (simp add: concat_pages)
qed

theorem account_pages_witness:
  "fst (ap_List \<lparr>lf_Status = None, lf_WorkerID = None, lf_Limit = 0, lf_Offset = 0\<rparr> tb_empty) = Inr []"
  using account_pages [of tb_empty 1 "\<lparr>lf_Status = None, lf_WorkerID = None, lf_Limit = 9, lf_Offset = 9\<rparr>" 1]
  by (simp add: tb_empty_def)

end
