(* ===== verification/Token.thy ===== *)
theory Token
  imports Go_Crypto
begin

text \<open>
  Encryption of bot tokens, \<open>internal/crypto/token.go\<close>: AES-256-GCM with a random nonce in front
  of the ciphertext, base64-encoded; without a key, or through a nil encryptor, tokens pass
  through unchanged.
\<close>

section \<open>The encryptor\<close>

text \<open>\<open>te_key\<close> is the key behind the \<open>gcm\<close> field.\<close>

record TokenEncryptor =
  te_key :: bytes
  te_enabled :: bool

text \<open>
  \<open>aes.NewCipher\<close> accepts every key of 32 bytes and \<open>cipher.NewGCM\<close> every 16-byte block cipher,
  so the two error branches after the length check cannot be taken.
\<close>

definition NewTokenEncryptor :: "string \<Rightarrow> error + TokenEncryptor" where
  "NewTokenEncryptor hexKey =
     (if hexKey = [] then Inr \<lparr>te_key = [], te_enabled = False\<rparr>
      else
        (case hex_DecodeString hexKey of
           Inl err \<Rightarrow> Inl (Wrapf ''crypto: invalid hex key: %w'' [] err)
         | Inr key \<Rightarrow>
             (if length key \<noteq> 32
              then Inl (Errorf ''crypto: key must be 32 bytes (64 hex chars), got %d bytes'' [])
              else Inr \<lparr>te_key = key, te_enabled = True\<rparr>)))"

text \<open>A \<open>*TokenEncryptor\<close> may be nil.\<close>

definition IsEnabled :: "TokenEncryptor option \<Rightarrow> bool" where
  "IsEnabled e = (case e of None \<Rightarrow> False | Some x \<Rightarrow> te_enabled x)"

definition te_gcm :: "TokenEncryptor option \<Rightarrow> bytes \<Rightarrow> bytes" where
  "te_gcm e = (case e of None \<Rightarrow> (\<lambda>blk. blk) | Some x \<Rightarrow> aes_encrypt (te_key x))"

text \<open>\<open>rnd\<close> is what reading 12 bytes from the random source gives.\<close>

definition Encrypt :: "TokenEncryptor option \<Rightarrow> error + bytes \<Rightarrow> string \<Rightarrow> error + string" where
  "Encrypt e rnd plaintext =
     (if \<not> IsEnabled e then Inr plaintext
      else
        (case rnd of
           Inl err \<Rightarrow> Inl (Wrapf ''crypto: generate nonce: %w'' [] err)
         | Inr nonce \<Rightarrow>
             Inr (b64_EncodeToString (nonce @ gcm_Seal (te_gcm e) nonce (bytes_of plaintext)))))"

definition Decrypt :: "TokenEncryptor option \<Rightarrow> string \<Rightarrow> error + string" where
  "Decrypt e ciphertext =
     (if \<not> IsEnabled e then Inr ciphertext
      else
        (case b64_DecodeString ciphertext of
           Inl err \<Rightarrow> Inl (Wrapf ''crypto: base64 decode: %w'' [] err)
         | Inr data \<Rightarrow>
             (if length data < gcm_NonceSize then Inl (Errorf ''crypto: ciphertext too short'' [])
              else
                (case gcm_Open (te_gcm e) (take gcm_NonceSize data) (drop gcm_NonceSize data) of
                   Inl err \<Rightarrow> Inl (Wrapf ''crypto: decrypt: %w'' [] err)
                 | Inr plaintext \<Rightarrow> Inr (string_of plaintext)))))"

section \<open>Properties\<close>

lemma decrypt_encrypt:
  assumes "length nonce = gcm_NonceSize" and "Encrypt e (Inr nonce) plaintext = Inr c"
  shows "Decrypt e c = Inr plaintext"
proof (cases "IsEnabled e")
  case True
  then have "c = b64_EncodeToString (nonce @ gcm_Seal (te_gcm e) nonce (bytes_of plaintext))"
    using assms(2) by (simp add: Encrypt_def)
  with True assms(1) show ?thesis by (simp add: Decrypt_def b64_roundtrip gcm_open_seal)
qed (use assms(2) in \<open>simp add: Encrypt_def Decrypt_def\<close>)

lemma encrypt_nonce:
  assumes "IsEnabled e" "length n1 = gcm_NonceSize" "length n2 = gcm_NonceSize"
    and "Encrypt e (Inr n1) p = Inr c" "Encrypt e (Inr n2) q = Inr c"
  shows "n1 = n2 \<and> p = q"
proof -
  have "b64_EncodeToString (n1 @ gcm_Seal (te_gcm e) n1 (bytes_of p)) =
      b64_EncodeToString (n2 @ gcm_Seal (te_gcm e) n2 (bytes_of q))"
    using assms(1,4,5) by (simp add: Encrypt_def)
  then have "n1 @ gcm_Seal (te_gcm e) n1 (bytes_of p) = n2 @ gcm_Seal (te_gcm e) n2 (bytes_of q)"
    by (metis b64_roundtrip sum.inject(2))
  then have "n1 = n2" using assms(2,3) by simp
  moreover have "Decrypt e c = Inr p" "Decrypt e c = Inr q"
    using decrypt_encrypt [OF assms(2,4)] decrypt_encrypt [OF assms(3,5)] by simp_all
  ultimately show ?thesis by simp
qed

lemma length_b64_encode: "length (b64_encode_nats ns) = 4 * ((length ns + 2) div 3)"
proof (induction ns rule: b64_encode_nats.induct)
  case (4 a b c rest)
  have "(5 + length rest) div 3 = Suc ((length rest + 2) div 3)" by simp
  with 4 show ?case by simp
qed simp_all

lemma length_Encrypt:
  assumes "IsEnabled e" "length nonce = gcm_NonceSize" "Encrypt e (Inr nonce) p = Inr c"
  shows "length c = 4 * ((length p + 30) div 3)"
proof -
  have "c = b64_EncodeToString (nonce @ gcm_Seal (te_gcm e) nonce (bytes_of p))"
    using assms(1,3) by (simp add: Encrypt_def)
  then show ?thesis using assms(2)
    by (simp add: b64_EncodeToString_def length_b64_encode length_gcm_Seal gcm_NonceSize_def add.commute)
qed

text \<open>
  C18: the token round trip. For every encryptor, also the nil one and one without a key, and
  every 12-byte nonce, what \<open>Encrypt\<close> returns decrypts to the token; with a key the ciphertext
  has \<open>4 * ((n + 30) div 3)\<close> characters, and it fits the 128-character column exactly for tokens
  of at most 68 characters.
\<close>

theorem token_roundtrip:
  assumes "length nonce = 12"
  shows "\<exists>c. Encrypt e (Inr nonce) token = Inr c \<and> Decrypt e c = Inr token \<and>
    length c = (if IsEnabled e then 4 * ((length token + 30) div 3) else length token) \<and>
    (IsEnabled e \<longrightarrow> (length c \<le> 128 \<longleftrightarrow> length token \<le> 68))"
proof -
  have n: "length nonce = gcm_NonceSize" using assms by (simp add: gcm_NonceSize_def)
  obtain c where c: "Encrypt e (Inr nonce) token = Inr c" by (cases "IsEnabled e") (simp_all add: Encrypt_def)
  have "length c = length token" if "\<not> IsEnabled e" using c that by (simp add: Encrypt_def)
  then show ?thesis using c decrypt_encrypt [OF n c] length_Encrypt [OF _ n c] by auto
qed

theorem token_roundtrip_witness:
  "\<exists>c. Encrypt (Some \<lparr>te_key = replicate 32 7, te_enabled = True\<rparr>) (Inr (replicate 12 1)) ''123456:ABC'' = Inr c \<and>
     Decrypt (Some \<lparr>te_key = replicate 32 7, te_enabled = True\<rparr>) c = Inr ''123456:ABC'' \<and> length c = 52"
  using token_roundtrip [of "replicate 12 1" "Some \<lparr>te_key = replicate 32 7, te_enabled = True\<rparr>" "''123456:ABC''"]
  by (auto simp: IsEnabled_def)

text \<open>
  C19: authenticity. With a key, \<open>Decrypt\<close> accepts an input only if its base64 decoding is a
  12-byte nonce followed by exactly what sealing the returned token under that nonce gives;
  everything else is an error.
\<close>

theorem Decrypt_accepts_sealed:
  assumes "IsEnabled e" and "Decrypt e c = Inr token"
  shows "\<exists>nonce. length nonce = 12 \<and>
    b64_DecodeString c = Inr (nonce @ gcm_Seal (te_gcm e) nonce (bytes_of token))"
proof -
  obtain data where data: "b64_DecodeString c = Inr data" "12 \<le> length data"
    using assms by (auto simp: Decrypt_def gcm_NonceSize_def split: sum.splits if_splits)
  obtain plain where p: "gcm_Open (te_gcm e) (take 12 data) (drop 12 data) = Inr plain" "token = string_of plain"
    using assms data by (auto simp: Decrypt_def gcm_NonceSize_def split: sum.splits if_splits)
  have "data = take 12 data @ gcm_Seal (te_gcm e) (take 12 data) plain"
    using gcm_seal_open [OF p(1)] by (metis append_take_drop_id)
  with data p(2) show ?thesis by (intro exI [of _ "take 12 data"]) simp
qed

theorem Decrypt_accepts_sealed_witness:
  "\<exists>c nonce. Encrypt (Some \<lparr>te_key = replicate 32 7, te_enabled = True\<rparr>) (Inr (replicate 12 1)) ''t'' = Inr c \<and>
     b64_DecodeString c = Inr (nonce @ gcm_Seal (aes_encrypt (replicate 32 7)) nonce (bytes_of ''t''))"
proof -
  let ?e = "Some \<lparr>te_key = replicate 32 7, te_enabled = True\<rparr>"
  have en: "IsEnabled ?e" by (simp add: IsEnabled_def)
  obtain c where c: "Encrypt ?e (Inr (replicate 12 1)) ''t'' = Inr c" by (simp add: Encrypt_def IsEnabled_def)
  have "Decrypt ?e c = Inr ''t''" by (rule decrypt_encrypt [OF _ c]) (simp add: gcm_NonceSize_def)
  from Decrypt_accepts_sealed [OF en this] c show ?thesis by (auto simp: te_gcm_def)
qed

lemma hex_decode_cases:
  "(case hex_DecodeString s of
      Inr bs \<Rightarrow> length s = 2 * length bs \<and> list_all (\<lambda>c. hex_val c \<noteq> None) s
    | Inl _ \<Rightarrow> odd (length s) \<or> (\<exists>c \<in> set s. hex_val c = None))"
  by (induction s rule: hex_DecodeString.induct) (auto split: option.splits sum.splits)

text \<open>
  Construction of the encryptor. An empty key gives a pass-through encryptor; a key of 64
  hexadecimal digits, in either case, gives an enabled one; every other key is refused.
\<close>

theorem NewTokenEncryptor_outcomes:
  "case NewTokenEncryptor k of
     Inl _ \<Rightarrow> k \<noteq> [] \<and> (length k \<noteq> 64 \<or> (\<exists>c \<in> set k. hex_val c = None))
   | Inr e \<Rightarrow> (if te_enabled e then length k = 64 \<and> list_all (\<lambda>c. hex_val c \<noteq> None) k \<and> hex_DecodeString k = Inr (te_key e)
       else k = [])"
  using hex_decode_cases [of k] by (auto simp: NewTokenEncryptor_def split: sum.splits)

theorem NewTokenEncryptor_outcomes_witness:
  "NewTokenEncryptor (replicate 64 (CHR ''A'')) = Inr \<lparr>te_key = replicate 32 0xAA, te_enabled = True\<rparr> \<and>
   (\<exists>e. NewTokenEncryptor ''xyz'' = Inl e)"
proof -
  have "hex_DecodeString (replicate 64 (CHR ''A'')) = Inr (replicate 32 0xAA)"
    by (simp add: numeral_eq_Suc hex_val_def)
  then show ?thesis
    using NewTokenEncryptor_outcomes [of "''xyz''"]
    by (auto simp: NewTokenEncryptor_def split: sum.splits if_splits)
qed

end
