(* ===== verification/Bot.thy ===== *)
theory Bot
  imports Repository Token
begin

text \<open>
  Bots, \<open>internal/bot\<close>: the model, the repository interface as a method table, its in-memory
  and PostgreSQL implementations, and the service, which encrypts tokens on the way in and
  decrypts them on the way out. Both implementations interpret the repository contract.
\<close>

section \<open>Model\<close>

type_synonym bot_status = string

record Bot =
  bot_ID :: int
  bot_Token :: string
  bot_SessionID :: string
  bot_Status :: bot_status
  bot_Username :: "string option"
  bot_TGUserID :: "int option"
  bot_WorkerID :: "string option"
  bot_CreatedAt :: int
  bot_UpdatedAt :: int

record BotProfileRequest =
  bpr_Username :: "string option"
  bpr_TGUserID :: "int option"
  bpr_Status :: bot_status

record 'r BotRepository =
  br_Create :: "Bot \<Rightarrow> 'r \<Rightarrow> (error + Bot) \<times> 'r"
  br_GetByID :: "int \<Rightarrow> 'r \<Rightarrow> (error + Bot) \<times> 'r"
  br_GetBySessionID :: "string \<Rightarrow> 'r \<Rightarrow> (error + Bot) \<times> 'r"
  br_List :: "ListFilter \<Rightarrow> 'r \<Rightarrow> (error + Bot list) \<times> 'r"
  br_UpdateProfile :: "int \<Rightarrow> BotProfileRequest \<Rightarrow> 'r \<Rightarrow> error option \<times> 'r"
  br_UpdateStatus :: "int \<Rightarrow> bot_status \<Rightarrow> 'r \<Rightarrow> error option \<times> 'r"
  br_UpdateWorkerID :: "string \<Rightarrow> string \<Rightarrow> 'r \<Rightarrow> error option \<times> 'r"
  br_ListByWorkerID :: "string \<Rightarrow> 'r \<Rightarrow> (error + Bot list) \<times> 'r"
  br_Delete :: "int \<Rightarrow> 'r \<Rightarrow> error option \<times> 'r"

section \<open>The in-memory repository\<close>

record BotMemory =
  bm_store :: "(int, Bot) gomap"
  bm_byToken :: "(string, int) gomap"
  bm_bySession :: "(string, int) gomap"
  bm_seq :: int

definition bm_New :: BotMemory where
  "bm_New = \<lparr>bm_store = [], bm_byToken = [], bm_bySession = [], bm_seq = 0\<rparr>"

definition bm_Create :: "Bot \<Rightarrow> BotMemory \<Rightarrow> (error + Bot) \<times> BotMemory" where
  "bm_Create a r =
     (case go_get (bm_byToken r) (bot_Token a) of
        Some _ \<Rightarrow> (Inl (Errorf ''token already exists'' []), r)
      | None \<Rightarrow>
          (let i = wrap64 (bm_seq r + 1); a' = a\<lparr>bot_ID := i\<rparr> in
           (Inr a',
            r\<lparr>bm_seq := i,
              bm_store := go_put i a' (bm_store r),
              bm_byToken := go_put (bot_Token a) i (bm_byToken r),
              bm_bySession := go_put (bot_SessionID a) i (bm_bySession r)\<rparr>)))"

definition bm_GetByID :: "int \<Rightarrow> BotMemory \<Rightarrow> (error + Bot) \<times> BotMemory" where
  "bm_GetByID i r = (case go_get (bm_store r) i of None \<Rightarrow> Inl ErrNoRows | Some a \<Rightarrow> Inr a, r)"

definition bm_GetBySessionID :: "string \<Rightarrow> BotMemory \<Rightarrow> (error + Bot) \<times> BotMemory" where
  "bm_GetBySessionID sid r =
     (case go_get (bm_bySession r) sid of
        None \<Rightarrow> Inl ErrNoRows
      | Some i \<Rightarrow> (case go_get (bm_store r) i of None \<Rightarrow> Inl (Panic ''nil pointer'') | Some a \<Rightarrow> Inr a), r)"

text \<open>The loop of \<open>List\<close> over the map, which stops once the limit is reached.\<close>

fun bm_list_loop :: "(Bot \<Rightarrow> bool) \<Rightarrow> int \<Rightarrow> Bot list \<Rightarrow> Bot list \<Rightarrow> Bot list" where
  "bm_list_loop P limit [] result = result"
| "bm_list_loop P limit (a # rest) result =
     (if \<not> P a then bm_list_loop P limit rest result
      else
        (let result' = result @ [a] in
         if int (length result') \<ge> limit then result' else bm_list_loop P limit rest result'))"

definition bm_List :: "nat list \<Rightarrow> ListFilter \<Rightarrow> BotMemory \<Rightarrow> (error + Bot list) \<times> BotMemory" where
  "bm_List ks f r =
     (let limit = (if lf_Limit f = 0 then 50 else lf_Limit f)
      in (Inr (bm_list_loop (\<lambda>a. case lf_Status f of None \<Rightarrow> True | Some st \<Rightarrow> bot_Status a = st) limit
                (arrange ks (map snd (bm_store r))) []), r))"

text \<open>An update through the pointer stored under an identifier.\<close>

definition bm_modify :: "int \<Rightarrow> (Bot \<Rightarrow> Bot) \<Rightarrow> BotMemory \<Rightarrow> error option \<times> BotMemory" where
  "bm_modify i f r =
     (case go_get (bm_store r) i of
        None \<Rightarrow> (Some ErrNoRows, r)
      | Some a \<Rightarrow> (None, r\<lparr>bm_store := go_put i (f a) (bm_store r)\<rparr>))"

definition set_bot_profile :: "BotProfileRequest \<Rightarrow> Bot \<Rightarrow> Bot" where
  "set_bot_profile req a =
     a\<lparr>bot_Username := bpr_Username req, bot_TGUserID := bpr_TGUserID req, bot_Status := bpr_Status req\<rparr>"

definition bm_UpdateProfile ::
  "int \<Rightarrow> BotProfileRequest \<Rightarrow> BotMemory \<Rightarrow> error option \<times> BotMemory" where
  "bm_UpdateProfile i req = bm_modify i (set_bot_profile req)"

definition bm_UpdateStatus :: "int \<Rightarrow> bot_status \<Rightarrow> BotMemory \<Rightarrow> error option \<times> BotMemory" where
  "bm_UpdateStatus i st = bm_modify i (\<lambda>a. a\<lparr>bot_Status := st\<rparr>)"

definition bm_UpdateWorkerID :: "string \<Rightarrow> string \<Rightarrow> BotMemory \<Rightarrow> error option \<times> BotMemory" where
  "bm_UpdateWorkerID sid wid r =
     (case go_get (bm_bySession r) sid of
        None \<Rightarrow> (Some ErrNoRows, r)
      | Some i \<Rightarrow>
          (case go_get (bm_store r) i of
             None \<Rightarrow> (Some (Panic ''nil pointer''), r)
           | Some a \<Rightarrow> (None, r\<lparr>bm_store := go_put i (a\<lparr>bot_WorkerID := Some wid\<rparr>) (bm_store r)\<rparr>)))"

definition bm_ListByWorkerID ::
  "nat list \<Rightarrow> string \<Rightarrow> BotMemory \<Rightarrow> (error + Bot list) \<times> BotMemory" where
  "bm_ListByWorkerID ks wid r =
     (Inr (filter (\<lambda>a. bot_WorkerID a = Some wid) (arrange ks (map snd (bm_store r)))), r)"

definition bm_Delete :: "int \<Rightarrow> BotMemory \<Rightarrow> error option \<times> BotMemory" where
  "bm_Delete i r =
     (case go_get (bm_store r) i of
        None \<Rightarrow> (Some ErrNoRows, r)
      | Some a \<Rightarrow>
          (None,
           r\<lparr>bm_byToken := go_del (bot_Token a) (bm_byToken r),
             bm_bySession := go_del (bot_SessionID a) (bm_bySession r),
             bm_store := go_del i (bm_store r)\<rparr>))"

text \<open>\<open>ks\<close> is the iteration order of the map in the two listings.\<close>

definition bot_memory :: "nat list \<Rightarrow> BotMemory BotRepository" where
  "bot_memory ks =
     \<lparr>br_Create = bm_Create, br_GetByID = bm_GetByID, br_GetBySessionID = bm_GetBySessionID,
      br_List = bm_List ks, br_UpdateProfile = bm_UpdateProfile, br_UpdateStatus = bm_UpdateStatus,
      br_UpdateWorkerID = bm_UpdateWorkerID, br_ListByWorkerID = bm_ListByWorkerID ks,
      br_Delete = bm_Delete\<rparr>"

section \<open>The PostgreSQL repository\<close>

text \<open>
  \<open>check\<close> is the database's check of the column types and lengths, \<open>now\<close> its clock. An insert
  stores token, session identifier and status, and fills in the key and the time stamps of the
  caller's struct.
\<close>

definition bp_row :: "int \<Rightarrow> Bot \<Rightarrow> int \<Rightarrow> Bot" where
  "bp_row now a i =
     \<lparr>bot_ID = i, bot_Token = bot_Token a, bot_SessionID = bot_SessionID a, bot_Status = bot_Status a,
      bot_Username = None, bot_TGUserID = None,
      bot_WorkerID = None, bot_CreatedAt = now, bot_UpdatedAt = now\<rparr>"

definition bot_unique :: "Bot \<Rightarrow> Bot \<Rightarrow> bool" where
  "bot_unique x y \<longleftrightarrow> bot_Token x = bot_Token y \<or> bot_SessionID x = bot_SessionID y"

definition bp_Create ::
  "(Bot \<Rightarrow> error option) \<Rightarrow> int \<Rightarrow> Bot \<Rightarrow> Bot table \<Rightarrow> (error + Bot) \<times> Bot table" where
  "bp_Create check now a t =
     (case tb_insert check bot_unique (bp_row now a) t of
        (Inl e, t') \<Rightarrow> (Inl (Wrapf ''bot create: %w'' [] e), t')
      | (Inr row, t') \<Rightarrow>
          (Inr (a\<lparr>bot_ID := bot_ID row, bot_CreatedAt := bot_CreatedAt row, bot_UpdatedAt := bot_UpdatedAt row\<rparr>), t'))"

definition bp_GetByID :: "(int \<Rightarrow> string) \<Rightarrow> int \<Rightarrow> Bot table \<Rightarrow> (error + Bot) \<times> Bot table" where
  "bp_GetByID show_int i t =
     wrap_result ''bot get by id %d: %w'' [show_int i] (tb_get (\<lambda>a. bot_ID a = i) t)"

definition bp_GetBySessionID :: "string \<Rightarrow> Bot table \<Rightarrow> (error + Bot) \<times> Bot table" where
  "bp_GetBySessionID sid t =
     wrap_result ''bot get by session %s: %w'' [sid] (tb_get (\<lambda>a. bot_SessionID a = sid) t)"

definition bp_List :: "ListFilter \<Rightarrow> Bot table \<Rightarrow> (error + Bot list) \<times> Bot table" where
  "bp_List f t =
     (let f1 = (if lf_Limit f = 0 then f\<lparr>lf_Limit := 50\<rparr> else f)
      in wrap_result ''bot list: %w'' []
           (paginate (lf_Limit f1) (lf_Offset f1) (tb_select (list_query f1 bot_Status bot_WorkerID) t)))"

definition bp_UpdateProfile ::
  "int \<Rightarrow> int \<Rightarrow> BotProfileRequest \<Rightarrow> Bot table \<Rightarrow> error option \<times> Bot table" where
  "bp_UpdateProfile now i req t =
     tb_update (\<lambda>a. bot_ID a = i) (\<lambda>a. (set_bot_profile req a)\<lparr>bot_UpdatedAt := now\<rparr>) t"

definition bp_UpdateStatus :: "int \<Rightarrow> int \<Rightarrow> bot_status \<Rightarrow> Bot table \<Rightarrow> error option \<times> Bot table" where
  "bp_UpdateStatus now i st t =
     tb_update (\<lambda>a. bot_ID a = i) (\<lambda>a. a\<lparr>bot_Status := st, bot_UpdatedAt := now\<rparr>) t"

definition bp_UpdateWorkerID ::
  "int \<Rightarrow> string \<Rightarrow> string \<Rightarrow> Bot table \<Rightarrow> error option \<times> Bot table" where
  "bp_UpdateWorkerID now sid wid t =
     tb_update (\<lambda>a. bot_SessionID a = sid) (\<lambda>a. a\<lparr>bot_WorkerID := Some wid, bot_UpdatedAt := now\<rparr>) t"

definition bp_ListByWorkerID :: "string \<Rightarrow> Bot table \<Rightarrow> (error + Bot list) \<times> Bot table" where
  "bp_ListByWorkerID wid t =
     wrap_result ''bot list by worker %s: %w'' [wid] (tb_select (\<lambda>a. bot_WorkerID a = Some wid) t)"

definition bp_Delete :: "int \<Rightarrow> Bot table \<Rightarrow> error option \<times> Bot table" where
  "bp_Delete i t = tb_delete i t"

definition bot_postgres ::
  "(Bot \<Rightarrow> error option) \<Rightarrow> (int \<Rightarrow> string) \<Rightarrow> int \<Rightarrow> Bot table BotRepository" where
  "bot_postgres check show_int now =
     \<lparr>br_Create = bp_Create check now, br_GetByID = bp_GetByID show_int,
      br_GetBySessionID = bp_GetBySessionID, br_List = bp_List,
      br_UpdateProfile = bp_UpdateProfile now, br_UpdateStatus = bp_UpdateStatus now,
      br_UpdateWorkerID = bp_UpdateWorkerID now, br_ListByWorkerID = bp_ListByWorkerID,
      br_Delete = bp_Delete\<rparr>"

section \<open>The service\<close>

text \<open>
  \<open>enc\<close> is the service's encryptor (nil without one), \<open>rnd\<close> the random source's answer to the
  request for a nonce, \<open>uuid\<close> the new session identifier.
\<close>

definition new_bot :: "string \<Rightarrow> string \<Rightarrow> Bot" where
  "new_bot uuid encToken =
     \<lparr>bot_ID = 0, bot_Token = encToken, bot_SessionID = uuid, bot_Status = ''pending'', bot_Username = None,
      bot_TGUserID = None, bot_WorkerID = None, bot_CreatedAt = 0, bot_UpdatedAt = 0\<rparr>"

definition bs_Add ::
  "'r BotRepository \<Rightarrow> TokenEncryptor option \<Rightarrow> error + bytes \<Rightarrow> string \<Rightarrow> string \<Rightarrow> 'r \<Rightarrow> (error + Bot) \<times> 'r" where
  "bs_Add R enc rnd uuid token r =
     (case Encrypt enc rnd token of
        Inl err \<Rightarrow> (Inl (Wrapf ''encrypt token: %w'' [] err), r)
      | Inr encToken \<Rightarrow>
          (case br_Create R (new_bot uuid encToken) r of
             (Inl err, r') \<Rightarrow> (Inl (Wrapf ''add bot: %w'' [] err), r')
           | (Inr b, r') \<Rightarrow> (Inr (b\<lparr>bot_Token := token\<rparr>), r')))"

definition decryptToken :: "TokenEncryptor option \<Rightarrow> Bot \<Rightarrow> error + Bot" where
  "decryptToken enc b =
     (case Decrypt enc (bot_Token b) of
        Inl err \<Rightarrow> Inl (Wrapf ''decrypt token: %w'' [] err)
      | Inr plain \<Rightarrow> Inr (b\<lparr>bot_Token := plain\<rparr>))"

definition bs_Get :: "'r BotRepository \<Rightarrow> TokenEncryptor option \<Rightarrow> int \<Rightarrow> 'r \<Rightarrow> (error + Bot) \<times> 'r" where
  "bs_Get R enc i r =
     (case br_GetByID R i r of
        (Inl err, r') \<Rightarrow> (Inl err, r')
      | (Inr b, r') \<Rightarrow> (decryptToken enc b, r'))"

definition bs_GetBySessionID ::
  "'r BotRepository \<Rightarrow> TokenEncryptor option \<Rightarrow> string \<Rightarrow> 'r \<Rightarrow> (error + Bot) \<times> 'r" where
  "bs_GetBySessionID R enc sid r =
     (case br_GetBySessionID R sid r of
        (Inl err, r') \<Rightarrow> (Inl err, r')
      | (Inr b, r') \<Rightarrow> (decryptToken enc b, r'))"

text \<open>The loop that decrypts a listing, up to the first failure.\<close>

fun decrypt_all :: "TokenEncryptor option \<Rightarrow> Bot list \<Rightarrow> error + Bot list" where
  "decrypt_all enc [] = Inr []"
| "decrypt_all enc (b # bs) =
     (case decryptToken enc b of
        Inl err \<Rightarrow> Inl err
      | Inr b' \<Rightarrow> (case decrypt_all enc bs of Inl err \<Rightarrow> Inl err | Inr bs' \<Rightarrow> Inr (b' # bs')))"

definition bs_List ::
  "'r BotRepository \<Rightarrow> TokenEncryptor option \<Rightarrow> ListFilter \<Rightarrow> 'r \<Rightarrow> (error + Bot list) \<times> 'r" where
  "bs_List R enc f r =
     (case br_List R f r of
        (Inl err, r') \<Rightarrow> (Inl err, r')
      | (Inr bs, r') \<Rightarrow> (decrypt_all enc bs, r'))"

definition bs_UpdateStatus :: "'r BotRepository \<Rightarrow> int \<Rightarrow> bot_status \<Rightarrow> 'r \<Rightarrow> error option \<times> 'r" where
  "bs_UpdateStatus R i st = br_UpdateStatus R i st"

definition bs_UpdateWorkerID :: "'r BotRepository \<Rightarrow> string \<Rightarrow> string \<Rightarrow> 'r \<Rightarrow> error option \<times> 'r" where
  "bs_UpdateWorkerID R sid wid = br_UpdateWorkerID R sid wid"

definition bs_ListByWorkerID ::
  "'r BotRepository \<Rightarrow> TokenEncryptor option \<Rightarrow> string \<Rightarrow> 'r \<Rightarrow> (error + Bot list) \<times> 'r" where
  "bs_ListByWorkerID R enc wid r =
     (case br_ListByWorkerID R wid r of
        (Inl err, r') \<Rightarrow> (Inl err, r')
      | (Inr bs, r') \<Rightarrow> (decrypt_all enc bs, r'))"

definition bs_Remove :: "'r BotRepository \<Rightarrow> int \<Rightarrow> 'r \<Rightarrow> error option \<times> 'r" where
  "bs_Remove R i r =
     (case br_Delete R i r of
        (Some err, r') \<Rightarrow> (Some (Wrapf ''remove bot: %w'' [] err), r')
      | (None, r') \<Rightarrow> (None, r'))"

section \<open>The in-memory repository meets the contract\<close>

text \<open>Both index maps point exactly at the stored bots.\<close>

definition bm_ok :: "BotMemory \<Rightarrow> bool" where
  "bm_ok r \<longleftrightarrow> index_ok bot_ID bot_Token bot_SessionID (bm_store r) (bm_byToken r) (bm_bySession r) (bm_seq r)"

definition bm_room :: "BotMemory \<Rightarrow> bool" where
  "bm_room r \<longleftrightarrow> bm_seq r < 2 ^ 63 - 1"

definition bot_blank :: "Bot \<Rightarrow> bool" where
  "bot_blank a \<longleftrightarrow> bot_Username a = None \<and>
     bot_TGUserID a = None \<and> bot_WorkerID a = None"

lemmas bm_ok_parts = index_ok_parts [OF bm_ok_def [THEN iffD1]]

lemma bm_ok_New: "bm_ok bm_New"
  by (simp add: bm_ok_def bm_New_def index_ok_empty)

lemma bm_Create_row:
  assumes ok: "bm_ok r" and room: "bm_room r"
    and new: "\<And>i x. go_get (bm_store r) i = Some x \<Longrightarrow> bot_SessionID x \<noteq> bot_SessionID a"
    and c: "bm_Create a r = (Inr a', r')"
  shows "bm_ok r' \<and> a' = a\<lparr>bot_ID := bm_seq r + 1\<rparr> \<and> go_get (bm_store r) (bm_seq r + 1) = None \<and>
    go_get (bm_store r') = (go_get (bm_store r))(bm_seq r + 1 \<mapsto> a')"
proof -
  note ok' = ok [unfolded bm_ok_def] and room' = room [unfolded bm_room_def]
  have token: "go_get (bm_byToken r) (bot_Token a) = None" using c by (simp add: bm_Create_def split: option.splits)
  have r': "a' = a\<lparr>bot_ID := bm_seq r + 1\<rparr>"
    "r' = r\<lparr>bm_seq := bm_seq r + 1, bm_store := go_put (bm_seq r + 1) a' (bm_store r),
      bm_byToken := go_put (bot_Token a) (bm_seq r + 1) (bm_byToken r),
      bm_bySession := go_put (bot_SessionID a) (bm_seq r + 1) (bm_bySession r)\<rparr>"
    using c token index_ok_seq [OF ok' room'] by (auto simp: bm_Create_def Let_def)
  have "index_ok bot_ID bot_Token bot_SessionID (go_put (bm_seq r + 1) a' (bm_store r))
      (go_put (bot_Token a') (bm_seq r + 1) (bm_byToken r)) (go_put (bot_SessionID a') (bm_seq r + 1) (bm_bySession r))
      (bm_seq r + 1)"
    by (rule index_ok_insert [OF ok' room']) (use token new r'(1) in auto)
  then show ?thesis using index_ok_fresh [OF ok'] r' by (auto simp: bm_ok_def fun_upd_def)
qed

lemma bm_Delete_row:
  assumes ok: "bm_ok r" and d: "bm_Delete i r = (None, r')"
  shows "bm_ok r' \<and> go_get (bm_store r') = (go_get (bm_store r))(i := None)"
proof -
  obtain a where a: "go_get (bm_store r) i = Some a" using d by (auto simp: bm_Delete_def split: option.splits)
  with d index_ok_delete [OF ok [unfolded bm_ok_def] a] show ?thesis
    by (auto simp: bm_Delete_def bm_ok_def fun_upd_def)
qed

lemma bm_ok_store:
  assumes "bm_ok r" "go_get (bm_store r) i = Some x"
    and "bot_ID x' = bot_ID x" "bot_Token x' = bot_Token x" "bot_SessionID x' = bot_SessionID x"
  shows "bm_ok (r\<lparr>bm_store := go_put i x' (bm_store r)\<rparr>)"
  using index_ok_store [OF assms(1) [unfolded bm_ok_def] assms(2-)] by (simp add: bm_ok_def)

lemma bm_modify_ok:
  assumes "bm_ok r" and "\<And>x. bot_ID (f x) = bot_ID x \<and> bot_Token (f x) = bot_Token x \<and> bot_SessionID (f x) = bot_SessionID x"
  shows "bm_ok (snd (bm_modify i f r))"
  using bm_ok_store [OF assms(1)] assms by (auto simp: bm_modify_def split: option.splits)

lemma bm_UpdateWorkerID_row:
  assumes ok: "bm_ok r" and x: "go_get (bm_store r) i = Some x"
    and u: "bm_UpdateWorkerID (bot_SessionID x) w r = (None, r')"
  shows "bm_ok r' \<and> go_get (bm_store r') = (go_get (bm_store r))(i \<mapsto> x\<lparr>bot_WorkerID := Some w\<rparr>)"
proof -
  have "r' = r\<lparr>bm_store := go_put i (x\<lparr>bot_WorkerID := Some w\<rparr>) (bm_store r)\<rparr>"
    using u bm_ok_parts(7) [OF ok x] x by (simp add: bm_UpdateWorkerID_def)
  with bm_ok_store [OF ok x, of "x\<lparr>bot_WorkerID := Some w\<rparr>"] show ?thesis by (auto simp: fun_upd_def)
qed

interpretation bot_mem: repository bm_ok "\<lambda>_. True" "\<lambda>r. go_get (bm_store r)" bm_room bot_blank
  bot_ID bot_Token bot_SessionID bm_Create bm_GetByID bm_GetBySessionID bm_Delete bm_UpdateWorkerID bot_WorkerID
proof (unfold_locales, goal_cases)
  case (2 r i x j y)
  then show ?case using bm_ok_parts(6) [OF 2(1,2)] bm_ok_parts(6) [OF 2(1,3)] by simp
next
  case (3 r i x j y)
  then show ?case using bm_ok_parts(7) [OF 3(1,2)] bm_ok_parts(7) [OF 3(1,3)] by simp
next
  case (4 r a a' r')
  then show ?case using bm_Create_row [OF 4(1,2) _ 4(5)] by (auto simp: fun_upd_def)
next
  case (8 r i x)
  then show ?case using bm_ok_parts(7) [OF 8(1,3)] by (simp add: bm_GetBySessionID_def)
next
  case (10 r i r')
  then show ?case using bm_Delete_row by blast
next
  case (12 r i x w r')
  let ?x = "x\<lparr>bot_WorkerID := Some w\<rparr>"
  have "bot_WorkerID ?x = Some w" "bot_Token ?x = bot_Token x" "bot_SessionID ?x = bot_SessionID x" by simp_all
  then show ?case using bm_UpdateWorkerID_row [OF 12] by blast
next
  case (13 r s w e r')
  then show ?case by (auto simp: bm_UpdateWorkerID_def split: option.splits)
qed (auto simp: bm_Create_def bm_GetByID_def bm_GetBySessionID_def bm_Delete_def Let_def bm_ok_parts(4)
    split: option.splits)

section \<open>The PostgreSQL repository meets the contract\<close>

abbreviation bp_ok :: "Bot table \<Rightarrow> bool" where
  "bp_ok \<equiv> tb_uniq bot_ID bot_unique"

lemma bot_unique_sym: "bot_unique x y = bot_unique y x"
  by (auto simp: bot_unique_def)

lemma bp_row_id [simp]: "bot_ID (bp_row now a i) = i"
  by (simp add: bp_row_def)

lemma bp_Create_row:
  assumes ok: "bp_ok t" and blank: "bot_blank a" and c: "bp_Create check now a t = (Inr a', t')"
  shows "bp_ok t' \<and> (tb_faults t = [] \<longrightarrow> tb_faults t' = []) \<and> go_get (tb_rows t) (bot_ID a') = None \<and>
    go_get (tb_rows t') = (go_get (tb_rows t))(bot_ID a' \<mapsto> a') \<and>
    bot_Token a' = bot_Token a \<and> bot_SessionID a' = bot_SessionID a"
proof -
  obtain row where ins: "tb_insert check bot_unique (bp_row now a) t = (Inr row, t')"
    and a': "a' = a\<lparr>bot_ID := bot_ID row, bot_CreatedAt := bot_CreatedAt row, bot_UpdatedAt := bot_UpdatedAt row\<rparr>"
    using c by (auto simp: bp_Create_def split: prod.splits sum.splits)
  note R = tb_uniq_insert [OF ok ins bp_row_id bot_unique_sym]
  then obtain i where "row = bp_row now a i" by blast
  then have "a' = row" "bot_Token row = bot_Token a" "bot_SessionID row = bot_SessionID a"
    using blank by (simp_all add: a' bp_row_def bot_blank_def)
  with R show ?thesis by metis
qed

lemma bp_UpdateWorkerID_row:
  assumes ok: "bp_ok t" and x: "go_get (tb_rows t) i = Some x"
    and u: "bp_UpdateWorkerID now (bot_SessionID x) w t = (None, t')"
  shows "bp_ok t' \<and> (tb_faults t = [] \<longrightarrow> tb_faults t' = []) \<and>
    go_get (tb_rows t') = (go_get (tb_rows t))(i \<mapsto> x\<lparr>bot_WorkerID := Some w, bot_UpdatedAt := now\<rparr>)"
proof -
  note u' = u [unfolded bp_UpdateWorkerID_def]
  have "bp_ok t'" by (rule tb_uniq_update [OF ok u']) (simp_all add: bot_unique_def)
  moreover have "go_get (tb_rows t') j = ((go_get (tb_rows t))(i \<mapsto> x\<lparr>bot_WorkerID := Some w, bot_UpdatedAt := now\<rparr>)) j" for j
    using tb_update_get [OF u', of j] x tb_uniqD(2) [OF ok x, of j]
    by (cases "go_get (tb_rows t) j") (auto simp: bot_unique_def)
  ultimately show ?thesis using tb_update_rows [OF u'] by auto
qed

interpretation bot_pg: repository bp_ok "\<lambda>t. tb_faults t = []" "\<lambda>t. go_get (tb_rows t)" "\<lambda>_. True" bot_blank
  bot_ID bot_Token bot_SessionID "bp_Create check now" "bp_GetByID show_int" bp_GetBySessionID bp_Delete
  "bp_UpdateWorkerID now" bot_WorkerID
proof (unfold_locales, goal_cases)
  case (1 r i x)
  then show ?case using tb_okD [OF tb_uniqD(1) [OF 1(1)] 1(2)] by simp
next
  case (2 r i x j y)
  then show ?case by (intro tb_uniqD(2) [OF 2(1-3)]) (simp add: bot_unique_def)
next
  case (3 r i x j y)
  then show ?case by (intro tb_uniqD(2) [OF 3(1-3)]) (simp add: bot_unique_def)
next
  case (4 r a a' r')
  then show ?case using bp_Create_row [OF 4(1,3,5)] by blast
next
  case (5 r a e r')
  then obtain e0 where "tb_insert check bot_unique (bp_row now a) r = (Inl e0, r')"
    by (auto simp: bp_Create_def split: prod.splits sum.splits)
  from tb_uniq_insert_error [OF 5(1) this] show ?case by simp
next
  case (6 r i x)
  have "fst (tb_get (\<lambda>a. bot_ID a = i) r) = Inr x"
    by (rule tb_get_by [OF 6(1,2,3)]) (use tb_okD [OF tb_uniqD(1) [OF 6(1)]] 6(3) in auto)
  then show ?case by (auto simp: bp_GetByID_def wrap_result_def split: prod.splits sum.splits)
next
  case (7 r i)
  have "fst (tb_get (\<lambda>a. bot_ID a = i) r) = Inl ErrNoRows"
    by (rule tb_get_none [OF 7(1,2)]) (use tb_okD [OF tb_uniqD(1) [OF 7(1)]] 7(3) in auto)
  then show ?case by (auto simp: bp_GetByID_def wrap_result_def split: prod.splits sum.splits)
next
  case (8 r i x)
  have "fst (tb_get (\<lambda>a. bot_SessionID a = bot_SessionID x) r) = Inr x"
    by (rule tb_get_by [OF 8(1,2,3)]) (use tb_uniqD(2) [OF 8(1) _ 8(3)] in \<open>auto simp: bot_unique_def\<close>)
  then show ?case by (auto simp: bp_GetBySessionID_def wrap_result_def split: prod.splits sum.splits)
next
  case (9 r i s)
  have "tb_rows (snd (tb_get P r)) = tb_rows r" for P using tb_get_frame [of P r] by (metis prod.collapse)
  then show ?case using tb_uniq_get [OF 9] by (simp add: bp_GetByID_def bp_GetBySessionID_def)
next
  case (10 r i r')
  then have "tb_delete i r = (None, r')" by (simp add: bp_Delete_def)
  from tb_uniq_delete [OF 10(1) this] show ?case by (simp add: fun_upd_def)
next
  case (11 r i e r')
  then have "tb_delete i r = (Some e, r')" by (simp add: bp_Delete_def)
  from tb_uniq_delete [OF 11(1) this] show ?case by simp
next
  case (12 r i x w r')
  let ?x = "x\<lparr>bot_WorkerID := Some w, bot_UpdatedAt := now\<rparr>"
  have "bot_WorkerID ?x = Some w" "bot_Token ?x = bot_Token x" "bot_SessionID ?x = bot_SessionID x" by simp_all
  then show ?case using bp_UpdateWorkerID_row [OF 12] by blast
next
  case (13 r s w e r')
  note u = 13(2) [unfolded bp_UpdateWorkerID_def]
  have "bp_ok r'" by (rule tb_uniq_update [OF 13(1) u]) (simp_all add: bot_unique_def)
  then show ?case using tb_update_rows [OF u] by simp
qed

section \<open>Reachable tables\<close>

text \<open>
  Everything the program does to the table of bots: the calls of the service and the profile
  update of the repository, at any time of the database clock.
\<close>

abbreviation bp_view :: "Bot table \<Rightarrow> int \<Rightarrow> Bot option" where
  "bp_view t \<equiv> go_get (tb_rows t)"

inductive bot_step :: "(Bot \<Rightarrow> error option) \<Rightarrow> (int \<Rightarrow> string) \<Rightarrow> TokenEncryptor option \<Rightarrow> Bot table \<Rightarrow> Bot table \<Rightarrow> bool"
  for check show_int enc where
  adds: "bot_step check show_int enc t (snd (bs_Add (bot_postgres check show_int now) enc rnd uuid token t))"
| gets: "bot_step check show_int enc t (snd (bs_Get (bot_postgres check show_int now) enc i t))"
| finds: "bot_step check show_int enc t (snd (bs_GetBySessionID (bot_postgres check show_int now) enc sid t))"
| lists: "bot_step check show_int enc t (snd (bs_List (bot_postgres check show_int now) enc f t))"
| lists_worker: "bot_step check show_int enc t (snd (bs_ListByWorkerID (bot_postgres check show_int now) enc wid t))"
| sets_status: "bot_step check show_int enc t (snd (bs_UpdateStatus (bot_postgres check show_int now) i st t))"
| sets_worker: "bot_step check show_int enc t (snd (bs_UpdateWorkerID (bot_postgres check show_int now) sid wid t))"
| sets_profile: "bot_step check show_int enc t (snd (br_UpdateProfile (bot_postgres check show_int now) i req t))"
| removes: "bot_step check show_int enc t (snd (bs_Remove (bot_postgres check show_int now) i t))"

inductive bot_reach :: "(Bot \<Rightarrow> error option) \<Rightarrow> (int \<Rightarrow> string) \<Rightarrow> TokenEncryptor option \<Rightarrow> Bot table \<Rightarrow> bool"
  for check show_int enc where
  start: "bot_reach check show_int enc (tb_empty\<lparr>tb_faults := fs\<rparr>)"
| step: "bot_reach check show_int enc t \<Longrightarrow> bot_step check show_int enc t t' \<Longrightarrow> bot_reach check show_int enc t'"

lemma bs_Add_snd:
  "snd (bs_Add R enc rnd uuid token r) =
     (case Encrypt enc rnd token of Inl _ \<Rightarrow> r | Inr c \<Rightarrow> snd (br_Create R (new_bot uuid c) r))"
  by (simp add: bs_Add_def split: prod.splits sum.splits)

lemma bs_reads_snd:
  "snd (bs_Get R enc i r) = snd (br_GetByID R i r)"
  "snd (bs_GetBySessionID R enc sid r) = snd (br_GetBySessionID R sid r)"
  "snd (bs_List R enc f r) = snd (br_List R f r)"
  "snd (bs_ListByWorkerID R enc wid r) = snd (br_ListByWorkerID R wid r)"
  "snd (bs_Remove R i r) = snd (br_Delete R i r)"
  by (simp_all add: bs_Get_def bs_GetBySessionID_def bs_List_def bs_ListByWorkerID_def bs_Remove_def
      split: prod.splits sum.splits option.splits)

lemma blank_new_bot [simp]: "bot_blank (new_bot uuid c)" "bot_SessionID (new_bot uuid c) = uuid"
  "bot_Token (new_bot uuid c) = c" "bot_Status (new_bot uuid c) = ''pending''"
  by (simp_all add: bot_blank_def new_bot_def)

lemma bp_Create_ok: "bp_ok t \<Longrightarrow> bp_ok (snd (bp_Create check now (new_bot uuid c) t))"
  using bot_pg.create_error [of t check now "new_bot uuid c"] bp_Create_row [of t "new_bot uuid c" check now]
  by (cases "fst (bp_Create check now (new_bot uuid c) t)") (metis blank_new_bot(1) prod.collapse)+

lemma bp_ok_step: "bot_step check show_int enc t t' \<Longrightarrow> bp_ok t \<Longrightarrow> bp_ok t'"
proof (induction rule: bot_step.induct)
  case (adds t now rnd uuid token)
  then show ?case by (simp add: bs_Add_snd bot_postgres_def bp_Create_ok split: sum.split)
next
  case (gets t now i)
  then show ?case using bot_pg.get_frame by (simp add: bs_reads_snd bot_postgres_def)
next
  case (finds t now sid)
  then show ?case using bot_pg.get_frame by (simp add: bs_reads_snd bot_postgres_def)
next
  case (lists t now f)
  then show ?case by (simp add: bs_reads_snd bot_postgres_def bp_List_def Let_def tb_uniq_select)
next
  case (lists_worker t now wid)
  then show ?case by (simp add: bs_reads_snd bot_postgres_def bp_ListByWorkerID_def tb_uniq_select)
next
  case (sets_status t now i st)
  have "bp_ok (snd (tb_update (\<lambda>a. bot_ID a = i) (\<lambda>a. a\<lparr>bot_Status := st, bot_UpdatedAt := now\<rparr>) t))"
    by (rule tb_uniq_update [OF sets_status prod.collapse [symmetric]]) (simp_all add: bot_unique_def)
  then show ?case by (simp add: bs_UpdateStatus_def bot_postgres_def bp_UpdateStatus_def)
next
  case (sets_worker t now sid wid)
  have "bp_ok (snd (tb_update (\<lambda>a. bot_SessionID a = sid) (\<lambda>a. a\<lparr>bot_WorkerID := Some wid, bot_UpdatedAt := now\<rparr>) t))"
    by (rule tb_uniq_update [OF sets_worker prod.collapse [symmetric]]) (simp_all add: bot_unique_def)
  then show ?case by (simp add: bs_UpdateWorkerID_def bot_postgres_def bp_UpdateWorkerID_def)
next
  case (sets_profile t now i req)
  have "bp_ok (snd (tb_update (\<lambda>a. bot_ID a = i) (\<lambda>a. (set_bot_profile req a)\<lparr>bot_UpdatedAt := now\<rparr>) t))"
    by (rule tb_uniq_update [OF sets_profile prod.collapse [symmetric]]) (simp_all add: bot_unique_def set_bot_profile_def)
  then show ?case by (simp add: bot_postgres_def bp_UpdateProfile_def)
next
  case (removes t now i)
  then show ?case using tb_uniq_delete [OF removes prod.collapse [symmetric]]
    by (simp add: bs_reads_snd bot_postgres_def bp_Delete_def)
qed

lemma bot_reach_ok: "bot_reach check show_int enc t \<Longrightarrow> bp_ok t"
  by (induction rule: bot_reach.induct) (auto intro: tb_uniq_empty bp_ok_step)

section \<open>Properties\<close>

lemma bs_Add_Inr:
  "bs_Add R enc rnd uuid token r = (Inr b, r') \<longleftrightarrow>
   (\<exists>c b0. Encrypt enc rnd token = Inr c \<and> br_Create R (new_bot uuid c) r = (Inr b0, r') \<and> b = b0\<lparr>bot_Token := token\<rparr>)"
  by (auto simp: bs_Add_def split: prod.splits sum.splits)

text \<open>
  C20: bots at rest. In every reachable table whose next statements do not fail, a bot that the
  service reports as added with a 12-byte nonce carries the plain token in the reply; the stored
  row has the output of \<open>Encrypt\<close> instead, and reading the bot back by identifier or session gives
  the reply again, with the token decrypted.
\<close>

theorem bot_add_get:
  assumes "bot_reach check show_int enc t" and "tb_faults t = []" and "length nonce = 12"
    and "\<And>i x. bp_view t i = Some x \<Longrightarrow> bot_SessionID x \<noteq> uuid"
    and "bs_Add (bot_postgres check show_int now) enc (Inr nonce) uuid token t = (Inr b, t')"
  shows "bot_Token b = token \<and> bot_SessionID b = uuid \<and>
    map_option (\<lambda>x. Inr (bot_Token x)) (bp_view t' (bot_ID b)) = Some (Encrypt enc (Inr nonce) token) \<and>
    fst (bs_Get (bot_postgres check show_int now) enc (bot_ID b) t') = Inr b \<and>
    fst (bs_GetBySessionID (bot_postgres check show_int now) enc uuid t') = Inr b"
proof -
  have ok: "bp_ok t" using assms(1) by (rule bot_reach_ok)
  obtain c b0 where c: "Encrypt enc (Inr nonce) token = Inr c"
    and cr: "bp_Create check now (new_bot uuid c) t = (Inr b0, t')" and b: "b = b0\<lparr>bot_Token := token\<rparr>"
    using assms(5) by (auto simp: bs_Add_Inr bot_postgres_def)
  note R = bp_Create_row [OF ok blank_new_bot(1) cr]
  have found: "fst (bp_GetByID show_int (bot_ID b0) t') = Inr b0" "fst (bp_GetBySessionID uuid t') = Inr b0"
    using bot_pg.created_is_found [OF ok _ blank_new_bot(1) assms(2) _ cr, of show_int] assms(4) by auto
  have "Decrypt enc c = Inr token" using decrypt_encrypt [OF _ c] assms(3) by (simp add: gcm_NonceSize_def)
  then have dec: "decryptToken enc b0 = Inr b" using R b by (simp add: decryptToken_def)
  have "fst (bs_Get (bot_postgres check show_int now) enc (bot_ID b) t') = Inr b"
    "fst (bs_GetBySessionID (bot_postgres check show_int now) enc uuid t') = Inr b"
    using found dec b by (auto simp: bs_Get_def bs_GetBySessionID_def bot_postgres_def split: prod.splits sum.splits)
  with R b c show ?thesis by auto
qed

abbreviation ex_enc :: "TokenEncryptor option" where
  "ex_enc \<equiv> Some \<lparr>te_key = replicate 32 7, te_enabled = True\<rparr>"

theorem bot_add_get_witness:
  "\<exists>b t'. bs_Add (bot_postgres (\<lambda>_. None) (\<lambda>_. ''1'') 7) ex_enc (Inr (replicate 12 1)) ''u1'' ''1:A'' tb_empty = (Inr b, t') \<and>
     fst (bs_Get (bot_postgres (\<lambda>_. None) (\<lambda>_. ''1'') 7) ex_enc (bot_ID b) t') = Inr b \<and> bot_Token b = ''1:A''"
proof -
  have reach: "bot_reach (\<lambda>_. None) (\<lambda>_. ''1'') ex_enc tb_empty"
    using bot_reach.start [of "\<lambda>_. None" "\<lambda>_. ''1''" ex_enc "[]"] by (simp add: tb_empty_def)
  obtain b t' where c: "bs_Add (bot_postgres (\<lambda>_. None) (\<lambda>_. ''1'') 7) ex_enc (Inr (replicate 12 1)) ''u1'' ''1:A'' tb_empty = (Inr b, t')"
    by (simp add: bs_Add_def bot_postgres_def bp_Create_def tb_insert_def tb_empty_def Encrypt_def IsEnabled_def Let_def)
  have "bp_view tb_empty i = None" "tb_faults tb_empty = []" for i by (simp_all add: tb_empty_def)
  with bot_add_get [OF reach _ _ _ c] c show ?thesis by (auto simp: tb_empty_def)
qed

text \<open>
  C37: the uniqueness of tokens. Without encryption a token that is stored already is refused. With
  encryption the uniqueness constraint is on the ciphertext: under another nonce the same token is
  accepted again whenever the statement itself succeeds, so one bot can be registered twice.
\<close>

theorem bot_token_uniqueness:
  assumes "bot_reach check show_int enc t" and "bp_view t i = Some x" and "length n1 = 12" and "length n2 = 12"
    and "Encrypt enc (Inr n1) token = Inr (bot_Token x)"
    and "\<And>j y. bp_view t j = Some y \<Longrightarrow> bot_SessionID y \<noteq> uuid"
  shows "if IsEnabled enc
    then (n1 \<noteq> n2 \<and> tb_faults t = [] \<and> tb_seq t < 2 ^ 63 - 1 \<and> (\<forall>y. check y = None) \<and>
        (\<forall>j y. bp_view t j = Some y \<longrightarrow> Encrypt enc (Inr n2) token \<noteq> Inr (bot_Token y)) \<longrightarrow>
        (\<exists>b. fst (bs_Add (bot_postgres check show_int now) enc (Inr n2) uuid token t) = Inr b)) \<and>
      (n1 \<noteq> n2 \<longrightarrow> Encrypt enc (Inr n2) token \<noteq> Inr (bot_Token x))
    else (\<exists>e. fst (bs_Add (bot_postgres check show_int now) enc (Inr n2) uuid token t) = Inl e)"
proof (cases "IsEnabled enc")
  case True
  obtain c where c: "Encrypt enc (Inr n2) token = Inr c" using True by (simp add: Encrypt_def)
  have ok: "bp_ok t" using assms(1) by (rule bot_reach_ok)
  have "n1 \<noteq> n2 \<Longrightarrow> c \<noteq> bot_Token x"
    using encrypt_nonce [OF True, of n1 n2 token "bot_Token x" token] assms(3-5) c by (auto simp: gcm_NonceSize_def)
  moreover have "\<exists>b. fst (bs_Add (bot_postgres check show_int now) enc (Inr n2) uuid token t) = Inr b"
    if h: "tb_faults t = []" "tb_seq t < 2 ^ 63 - 1" "\<forall>y. check y = None"
      "\<forall>j y. bp_view t j = Some y \<longrightarrow> c \<noteq> bot_Token y"
  proof -
    have "gomap_ok (tb_rows t)" using tb_uniqD(1) [OF ok] by (simp add: tb_ok_def)
    then have "\<not> list_ex (\<lambda>(_, y). bot_unique y (bp_row now (new_bot uuid c) k)) (tb_rows t)" for k
      using h(4) assms(6) by (auto simp: list_ex_iff bot_unique_def bp_row_def go_get_Some_iff)
    then show ?thesis
      using h(1-3) c by (simp add: bs_Add_def bot_postgres_def bp_Create_def tb_insert_def Let_def)
  qed
  ultimately show ?thesis using True c by auto
next
  case False
  then have tok: "bot_Token x = token" and enc2: "Encrypt enc (Inr n2) token = Inr token"
    using assms(5) by (simp_all add: Encrypt_def)
  have "\<exists>e. fst (bp_Create check now (new_bot uuid token) t) = Inl e"
    by (rule bot_pg.duplicate_refused [OF bot_reach_ok [OF assms(1)] _ blank_new_bot(1) _ assms(2)])
      (use assms(6) tok in auto)
  then show ?thesis using False enc2
    by (auto simp: bs_Add_def bot_postgres_def split: prod.splits sum.splits)
qed

definition ex_bots :: "Bot table" where
  "ex_bots = snd (bs_Add (bot_postgres (\<lambda>_. None) (\<lambda>_. ''1'') 7) None (Inr (replicate 12 1)) ''u1'' ''1:A'' tb_empty)"

theorem bot_token_uniqueness_witness:
  "\<exists>e. fst (bs_Add (bot_postgres (\<lambda>_. None) (\<lambda>_. ''1'') 8) None (Inr (replicate 12 2)) ''u2'' ''1:A'' ex_bots) = Inl e"
proof -
  have "bot_reach (\<lambda>_. None) (\<lambda>_. ''1'') None tb_empty"
    using bot_reach.start [of "\<lambda>_. None" "\<lambda>_. ''1''" None "[]"] by (simp add: tb_empty_def)
  then have reach: "bot_reach (\<lambda>_. None) (\<lambda>_. ''1'') None ex_bots"
    unfolding ex_bots_def by (rule bot_reach.step) (rule bot_step.adds)
  obtain x where x: "tb_rows ex_bots = [(1, x)]" "bot_Token x = ''1:A''" "bot_SessionID x = ''u1''"
    by (simp add: ex_bots_def bs_Add_def bot_postgres_def bp_Create_def tb_insert_def tb_empty_def Encrypt_def
        IsEnabled_def Let_def bp_row_def new_bot_def)
  then have "bp_view ex_bots 1 = Some x" "Encrypt None (Inr (replicate 12 1)) ''1:A'' = Inr (bot_Token x)"
    by (simp_all add: Encrypt_def IsEnabled_def)
  moreover have "bot_SessionID y \<noteq> ''u2''" if "bp_view ex_bots j = Some y" for j y
    using that x by (simp split: if_splits)
  ultimately show ?thesis
    using bot_token_uniqueness [OF reach, of 1 x "replicate 12 1" "replicate 12 2" "''1:A''" "''u2''" 8]
    by (simp add: IsEnabled_def)
qed

end
