(* ===== verification/Worker_Client.thy ===== *)
theory Worker_Client
  imports Worker_Server
begin

text \<open>
  The main node's client of one worker, \<open>internal/worker/client/client.go\<close>, over a network of
  worker nodes. The gRPC transport is not part of the program: what it does to a call is a
  script (the call is carried out and answered, never arrives, or is carried out and the reply
  is lost), the dial check of an address is a parameter, and a call on a closed connection or to
  an address where no worker runs fails.
\<close>

section \<open>The network\<close>

datatype wire = Delivered | RequestLost error | ReplyLost error

text \<open>
  \<open>net_nodes\<close> are the running workers by address, \<open>net_open\<close> the open client connections.
\<close>

record 'c net =
  net_nodes :: "string \<rightharpoonup> 'c server"
  net_wire :: "wire list"
  net_open :: "nat list"
  net_next :: nat

text \<open>
  The environment of the nodes: the dial check of the transport, the TDLib client factory of the
  worker at an address, the method table of its clients, and the clock.
\<close>

record 'c env =
  env_dial :: "string \<Rightarrow> error option"
  env_factory :: "string \<Rightarrow> 'c ClientFactory"
  env_ifc :: "'c TDClient"
  env_now :: "nat \<Rightarrow> int"

record wclient =
  wc_id :: string
  wc_addr :: string
  wc_conn :: nat

definition ErrConnClosing :: error where
  "ErrConnClosing = StatusErr Canceled ''%v'' (Errorf ''grpc: the client connection is closing'' [])"

definition ErrUnavailable :: error where
  "ErrUnavailable = StatusErr Unavailable ''%v'' (Errorf ''connection error'' [])"

definition is_panic :: "error + 'a \<Rightarrow> bool" where
  "is_panic r = (case r of Inl (Panic p) \<Rightarrow> True | _ \<Rightarrow> False)"

lemma is_panic_iff: "is_panic r \<longleftrightarrow> (\<exists>p. r = Inl (Panic p))"
  by (simp add: is_panic_def split: sum.split error.split)

lemma is_panic_Inr [simp]: "\<not> is_panic (Inr x)"
  by (simp add: is_panic_def)

text \<open>
  One remote call \<open>h\<close>. A handler that panics takes the worker process down, since the server
  installs no recovery interceptor.
\<close>

definition wc_call ::
  "wclient \<Rightarrow> ('c server \<Rightarrow> (error + 'r) \<times> 'c server) \<Rightarrow> 'c net \<Rightarrow> (error + 'r) \<times> 'c net" where
  "wc_call c h n =
     (if wc_conn c \<notin> set (net_open n) then (Inl ErrConnClosing, n)
      else
        (let (f, rest) = pop Delivered (net_wire n); n1 = n\<lparr>net_wire := rest\<rparr> in
         case f of
           RequestLost e \<Rightarrow> (Inl e, n1)
         | _ \<Rightarrow>
             (case net_nodes n1 (wc_addr c) of
                None \<Rightarrow> (Inl ErrUnavailable, n1)
              | Some s \<Rightarrow>
                  (let (r, s') = h s in
                   if is_panic r
                   then (Inl ErrUnavailable, n1\<lparr>net_nodes := (net_nodes n1)(wc_addr c := None)\<rparr>)
                   else
                     (case f of ReplyLost e \<Rightarrow> Inl e | _ \<Rightarrow> r,
                      n1\<lparr>net_nodes := (net_nodes n1)(wc_addr c \<mapsto> s')\<rparr>)))))"

section \<open>The client\<close>

definition wc_New ::
  "'c env \<Rightarrow> string \<Rightarrow> string \<Rightarrow> 'c net \<Rightarrow> (error + wclient) \<times> 'c net" where
  "wc_New E wid addr n =
     (case env_dial E addr of
        Some err \<Rightarrow> (Inl (Wrapf ''dial worker %s at %s: %w'' [wid, addr] err), n)
      | None \<Rightarrow>
          (Inr \<lparr>wc_id = wid, wc_addr = addr, wc_conn = net_next n\<rparr>,
           n\<lparr>net_open := net_next n # net_open n, net_next := Suc (net_next n)\<rparr>))"

definition wc_Close :: "wclient \<Rightarrow> 'c net \<Rightarrow> 'c net" where
  "wc_Close c n = n\<lparr>net_open := filter (\<lambda>k. k \<noteq> wc_conn c) (net_open n)\<rparr>"

definition wc_Health :: "wclient \<Rightarrow> 'c net \<Rightarrow> error option \<times> 'c net" where
  "wc_Health c n =
     (case wc_call c (\<lambda>s. (Inr (srv_Health s), s)) n of
        (Inl err, n') \<Rightarrow> (Some err, n')
      | (Inr (ok, version), n') \<Rightarrow>
          (if ok then None else Some (Errorf ''worker %s reports unhealthy'' [wc_id c]), n'))"

definition wc_AddAccount ::
  "'c env \<Rightarrow> wclient \<Rightarrow> string \<Rightarrow> string \<Rightarrow> 'c net \<Rightarrow> (error + SessionInfo) \<times> 'c net" where
  "wc_AddAccount E c sessionID phone =
     wc_call c (srv_AddAccount (env_factory E (wc_addr c)) (env_now E) sessionID phone)"

definition wc_AddBot ::
  "'c env \<Rightarrow> wclient \<Rightarrow> string \<Rightarrow> string \<Rightarrow> 'c net \<Rightarrow> (error + SessionInfo) \<times> 'c net" where
  "wc_AddBot E c sessionID token =
     wc_call c (srv_AddBot (env_factory E (wc_addr c)) (env_now E) sessionID token)"

definition result_error :: "error + 'a \<Rightarrow> error option" where
  "result_error r = (case r of Inl e \<Rightarrow> Some e | Inr _ \<Rightarrow> None)"

lemma result_error_simps [simp]:
  "result_error (Inl e) = Some e" "result_error (Inr x) = None"
  by (simp_all add: result_error_def)

definition wc_RemoveSession :: "'c env \<Rightarrow> wclient \<Rightarrow> string \<Rightarrow> 'c net \<Rightarrow> error option \<times> 'c net" where
  "wc_RemoveSession E c sessionID n =
     (let (r, n') = wc_call c (srv_RemoveSession (env_ifc E) sessionID) n in (result_error r, n'))"

definition wc_ListSessions :: "wclient \<Rightarrow> 'c net \<Rightarrow> (error + SessionInfo list) \<times> 'c net" where
  "wc_ListSessions c = wc_call c (\<lambda>s. (Inr (srv_ListSessions s), s))"

definition wc_GetMetrics :: "'c env \<Rightarrow> wclient \<Rightarrow> 'c net \<Rightarrow> (error + WorkerMetrics) \<times> 'c net" where
  "wc_GetMetrics E c = wc_call c (\<lambda>s. (Inr (srv_GetMetrics (env_now E 0) s), s))"

definition wc_SendAuthCode ::
  "'c env \<Rightarrow> wclient \<Rightarrow> string \<Rightarrow> string \<Rightarrow> 'c net \<Rightarrow> (error + SessionInfo) \<times> 'c net" where
  "wc_SendAuthCode E c sessionID code = wc_call c (srv_SendAuthCode (env_ifc E) sessionID code)"

definition wc_SendPassword ::
  "'c env \<Rightarrow> wclient \<Rightarrow> string \<Rightarrow> string \<Rightarrow> 'c net \<Rightarrow> (error + SessionInfo) \<times> 'c net" where
  "wc_SendPassword E c sessionID password = wc_call c (srv_SendPassword (env_ifc E) sessionID password)"

definition wc_GetAuthState ::
  "'c env \<Rightarrow> wclient \<Rightarrow> string \<Rightarrow> 'c net \<Rightarrow> (error + string \<times> string) \<times> 'c net" where
  "wc_GetAuthState E c sessionID = wc_call c (\<lambda>s. (srv_GetAuthState (env_ifc E) sessionID s, s))"

text \<open>
  \<open>Subscribe\<close> on one stream: the outcome of opening it and the events it receives. The handler
  calls made, and the returned error; \<open>None\<close> for a stream that is still open.
\<close>

datatype recv_event = RecvUpdate TelegramUpdate | RecvEOF | RecvError error

fun recv_loop ::
  "string \<Rightarrow> recv_event list \<Rightarrow> (string \<times> TelegramUpdate) list \<times> error option option" where
  "recv_loop wid [] = ([], None)"
| "recv_loop wid (RecvUpdate upd # evs) = (let (calls, r) = recv_loop wid evs in ((wid, upd) # calls, r))"
| "recv_loop wid (RecvEOF # evs) = ([], Some None)"
| "recv_loop wid (RecvError e # evs) = ([], Some (Some (Wrapf ''worker %s stream error: %w'' [wid] e)))"

definition wc_Subscribe ::
  "wclient \<Rightarrow> error option \<Rightarrow> recv_event list \<Rightarrow> (string \<times> TelegramUpdate) list \<times> error option option" where
  "wc_Subscribe c open_err evs =
     (case open_err of
        Some e \<Rightarrow> ([], Some (Some (Wrapf ''subscribe to worker %s: %w'' [wc_id c] e)))
      | None \<Rightarrow> recv_loop (wc_id c) evs)"

section \<open>What a call does to the network\<close>

text \<open>
  \<open>net_ok\<close>: every node's pool satisfies its invariant and connection numbers are below the
  counter. A call keeps it when the handler keeps the pool invariant.
\<close>

definition net_ok :: "'c net \<Rightarrow> bool" where
  "net_ok n \<longleftrightarrow> (\<forall>a s. net_nodes n a = Some s \<longrightarrow> pool_ok (srv_pool s)) \<and>
     (\<forall>k \<in> set (net_open n). k < net_next n)"

lemma net_okD: "net_ok n \<Longrightarrow> net_nodes n a = Some s \<Longrightarrow> pool_ok (srv_pool s)"
  by (simp add: net_ok_def)

lemma wc_call_conns [simp]:
  "net_open (snd (wc_call c h n)) = net_open n" "net_next (snd (wc_call c h n)) = net_next n"
  by (simp_all add: wc_call_def Let_def split: prod.splits wire.splits option.splits)

lemma wc_call_elsewhere: "a \<noteq> wc_addr c \<Longrightarrow> net_nodes (snd (wc_call c h n)) a = net_nodes n a"
  by (simp add: wc_call_def Let_def split: prod.splits wire.splits option.splits)

text \<open>The node at the called address: untouched, gone after a panic, or moved by the handler.\<close>

lemma wc_call_cases:
  assumes "wc_call c h n = (r, n')"
  obtains (untouched) e where "r = Inl e" "net_nodes n' = net_nodes n"
  | (crashed) e s r' s' where "r = Inl e" "net_nodes n (wc_addr c) = Some s" "h s = (r', s')"
      "is_panic r'" "net_nodes n' = (net_nodes n)(wc_addr c := None)"
  | (ran) s s' r' where "net_nodes n (wc_addr c) = Some s" "h s = (r', s')" "\<not> is_panic r'"
      "net_nodes n' = (net_nodes n)(wc_addr c \<mapsto> s')" "r = r' \<or> (\<exists>e. r = Inl e)"
proof -
  obtain f rest where f: "pop Delivered (net_wire n) = (f, rest)" by (cases "pop Delivered (net_wire n)")
  show thesis
  proof (cases "wc_conn c \<notin> set (net_open n) \<or> (\<exists>e. f = RequestLost e) \<or> net_nodes n (wc_addr c) = None")
    case True
    then have "\<exists>e. r = Inl e" and "net_nodes n' = net_nodes n"
      using assms f by (auto simp: wc_call_def Let_def split: wire.splits if_splits)
    then show thesis using untouched by blast
  next
    case False
    then obtain s where s: "net_nodes n (wc_addr c) = Some s" by blast
    obtain r' s' where h: "h s = (r', s')" by (cases "h s")
    show thesis
    proof (cases "is_panic r'")
      case True
      with assms f h s False show thesis
        by (intro crashed [OF _ s h]) (auto simp: wc_call_def Let_def split: wire.splits)
    next
      case noPanic: False
      with assms f h s False show thesis
        by (intro ran [OF s h]) (auto simp: wc_call_def Let_def split: wire.splits)
    qed
  qed
qed

lemma net_ok_call:
  assumes "net_ok n" and "\<And>s. pool_ok (srv_pool s) \<Longrightarrow> pool_ok (srv_pool (snd (h s)))"
  shows "net_ok (snd (wc_call c h n))"
proof -
  obtain r n' where call: "wc_call c h n = (r, n')" by (cases "wc_call c h n")
  have "\<forall>a s. net_nodes n' a = Some s \<longrightarrow> pool_ok (srv_pool s)"
    using call
  proof (cases rule: wc_call_cases)
    case (ran s s' r')
    then have "pool_ok (srv_pool s')" using assms(2) [of s] net_okD [OF assms(1)] by simp
    with ran assms(1) show ?thesis by (simp add: net_ok_def)
  qed (use assms(1) in \<open>simp_all add: net_ok_def\<close>)
  moreover have "\<forall>k \<in> set (net_open n'). k < net_next n'"
    using wc_call_conns [of c h n] assms(1) by (simp add: call net_ok_def)
  ultimately show ?thesis by (simp add: call net_ok_def)
qed

text \<open>A delivered call to a running node whose handler does not panic.\<close>

lemma wc_call_delivered:
  assumes "wc_conn c \<in> set (net_open n)" and "net_wire n = []"
    and "net_nodes n (wc_addr c) = Some s" and "h s = (Inr x, s')"
  shows "wc_call c h n = (Inr x, n\<lparr>net_nodes := (net_nodes n)(wc_addr c \<mapsto> s')\<rparr>)"
proof -
  have "n\<lparr>net_wire := [], net_nodes := f\<rparr> = n\<lparr>net_nodes := f\<rparr>" for f using assms(2) by (cases n) simp
  with assms show ?thesis by (simp add: wc_call_def)
qed

lemma wc_call_no_node:
  assumes "wc_conn c \<in> set (net_open n)" and "net_wire n = []" and "net_nodes n (wc_addr c) = None"
  shows "wc_call c h n = (Inl ErrUnavailable, n)"
  using assms by (cases n) (simp add: wc_call_def)

lemma net_ok_Close: "net_ok n \<Longrightarrow> net_ok (wc_Close c n)"
  by (simp add: net_ok_def wc_Close_def)

lemma net_ok_New: "net_ok n \<Longrightarrow> net_ok (snd (wc_New E wid addr n))"
  by (auto simp: net_ok_def wc_New_def split: option.splits)

end
