(* ===== verification/Worker_Manager.thy ===== *)
theory Worker_Manager
  imports Worker_Client "HOL-Library.List_Lexorder" "HOL-Library.Char_ord"
begin

text \<open>
  The main node's registry of workers: \<open>internal/worker/manager/manager.go\<close> and the table of
  registrations \<open>internal/worker/repository.go\<close>. The manager's state carries the network it
  talks to. Orders that Go leaves open (ranging over the worker map, goroutines finishing) are
  scheduler scripts; the outcome of every database statement is a fault script.
\<close>

section \<open>The table of registrations\<close>

text \<open>
  The table \<open>workers (id PRIMARY KEY, addr)\<close> and the driver errors of the statements to come;
  a failed statement changes nothing.
\<close>

record worker_table =
  wt_rows :: "(string, string) gomap"
  wt_faults :: "error option list"

definition wt_exec :: "((string, string) gomap \<Rightarrow> (string, string) gomap) \<Rightarrow> worker_table \<Rightarrow>
    error option \<times> worker_table" where
  "wt_exec stmt t =
     (let (f, rest) = pop None (wt_faults t); t1 = t\<lparr>wt_faults := rest\<rparr> in
      case f of
        Some e \<Rightarrow> (Some e, t1)
      | None \<Rightarrow> (None, t1\<lparr>wt_rows := stmt (wt_rows t1)\<rparr>))"

definition wr_Upsert :: "string \<Rightarrow> string \<Rightarrow> worker_table \<Rightarrow> error option \<times> worker_table" where
  "wr_Upsert wid addr t =
     (let (err, t') = wt_exec (go_put wid addr) t
      in (map_option (Wrapf ''upsert worker %s: %w'' [wid]) err, t'))"

definition wr_Delete :: "string \<Rightarrow> worker_table \<Rightarrow> error option \<times> worker_table" where
  "wr_Delete wid t = wt_exec (go_del wid) t"

text \<open>\<open>ORDER BY id\<close> in the byte order of the identifiers.\<close>

definition wr_List :: "worker_table \<Rightarrow> (error + (string \<times> string) list) \<times> worker_table" where
  "wr_List t =
     (let (err, t') = wt_exec (\<lambda>rows. rows) t in
      case err of
        Some e \<Rightarrow> (Inl (Wrapf ''list workers: %w'' [] e), t')
      | None \<Rightarrow> (Inr (sort_key fst (wt_rows t')), t'))"

section \<open>The manager\<close>

text \<open>
  \<open>mgr_ready_set\<close> says whether a ready callback is registered, \<open>mgr_loops\<close> are the clients whose
  subscribe loop has been started and \<open>mgr_ready_calls\<close> the worker identifiers the callback has
  been started for, latest first.
\<close>

record 'c manager =
  mgr_workers :: "(string, wclient) gomap"
  mgr_ready_set :: bool
  mgr_store :: "worker_table option"
  mgr_loops :: "wclient list"
  mgr_ready_calls :: "string list"
  mgr_net :: "'c net"

definition NewManager :: "worker_table option \<Rightarrow> 'c net \<Rightarrow> 'c manager" where
  "NewManager store n =
     \<lparr>mgr_workers = [], mgr_ready_set = False, mgr_store = store, mgr_loops = [],
      mgr_ready_calls = [], mgr_net = n\<rparr>"

definition SetOnWorkerReady :: "'c manager \<Rightarrow> 'c manager" where
  "SetOnWorkerReady m = m\<lparr>mgr_ready_set := True\<rparr>"

record WorkerConfig =
  cfg_ID :: string
  cfg_Addr :: string

text \<open>
  \<open>AddWorker\<close> up to the health check, without the lock: the registration check, the dial and the
  health check. The result is the error returned, or the connected client.
\<close>

definition AddWorker_connect ::
  "'c env \<Rightarrow> WorkerConfig \<Rightarrow> 'c manager \<Rightarrow> (error + wclient) \<times> 'c manager" where
  "AddWorker_connect E cfg m =
     (case go_get (mgr_workers m) (cfg_ID cfg) of
        Some _ \<Rightarrow> (Inl (Errorf ''worker %q already registered'' [cfg_ID cfg]), m)
      | None \<Rightarrow>
          (case wc_New E (cfg_ID cfg) (cfg_Addr cfg) (mgr_net m) of
             (Inl err, n) \<Rightarrow> (Inl err, m\<lparr>mgr_net := n\<rparr>)
           | (Inr c, n) \<Rightarrow>
               (case wc_Health c n of
                  (Some err, n') \<Rightarrow>
                    (Inl (Wrapf ''worker %s health check failed: %w'' [cfg_ID cfg] err),
                     m\<lparr>mgr_net := wc_Close c n'\<rparr>)
                | (None, n') \<Rightarrow> (Inr c, m\<lparr>mgr_net := n'\<rparr>))))"

text \<open>
  The rest of \<open>AddWorker\<close>: the registration under the lock, then, without it, the store and the
  goroutines it starts.
\<close>

definition AddWorker_insert :: "wclient \<Rightarrow> 'c manager \<Rightarrow> 'c manager" where
  "AddWorker_insert c m = m\<lparr>mgr_workers := go_put (wc_id c) c (mgr_workers m)\<rparr>"

definition AddWorker_publish :: "wclient \<Rightarrow> 'c manager \<Rightarrow> 'c manager" where
  "AddWorker_publish c m =
     (let m1 = m\<lparr>mgr_store := map_option (\<lambda>t. snd (wr_Upsert (wc_id c) (wc_addr c) t)) (mgr_store m)\<rparr>;
          m2 = m1\<lparr>mgr_loops := c # mgr_loops m1\<rparr>
      in if mgr_ready_set m2 then m2\<lparr>mgr_ready_calls := wc_id c # mgr_ready_calls m2\<rparr> else m2)"

definition AddWorker ::
  "'c env \<Rightarrow> WorkerConfig \<Rightarrow> 'c manager \<Rightarrow> error option \<times> 'c manager" where
  "AddWorker E cfg m =
     (case AddWorker_connect E cfg m of
        (Inl err, m') \<Rightarrow> (Some err, m')
      | (Inr c, m') \<Rightarrow> (None, AddWorker_publish c (AddWorker_insert c m')))"

definition RemoveWorker :: "string \<Rightarrow> 'c manager \<Rightarrow> error option \<times> 'c manager" where
  "RemoveWorker wid m =
     (case go_get (mgr_workers m) wid of
        None \<Rightarrow> (Some (Errorf ''worker %q not found'' [wid]), m)
      | Some c \<Rightarrow>
          (None,
           m\<lparr>mgr_net := wc_Close c (mgr_net m),
             mgr_workers := go_del wid (mgr_workers m),
             mgr_store := map_option (\<lambda>t. snd (wr_Delete wid t)) (mgr_store m)\<rparr>))"

fun restore_entries :: "'c env \<Rightarrow> (string \<times> string) list \<Rightarrow> nat \<Rightarrow> 'c manager \<Rightarrow> nat \<times> 'c manager" where
  "restore_entries E [] restored m = (restored, m)"
| "restore_entries E ((wid, addr) # es) restored m =
     (case AddWorker E \<lparr>cfg_ID = wid, cfg_Addr = addr\<rparr> m of
        (Some err, m') \<Rightarrow> restore_entries E es restored m'
      | (None, m') \<Rightarrow> restore_entries E es (Suc restored) m')"

definition RestoreWorkers :: "'c env \<Rightarrow> 'c manager \<Rightarrow> nat \<times> 'c manager" where
  "RestoreWorkers E m =
     (case mgr_store m of
        None \<Rightarrow> (0, m)
      | Some t \<Rightarrow>
          (let (r, t') = wr_List t; m1 = m\<lparr>mgr_store := Some t'\<rparr> in
           case r of
             Inl err \<Rightarrow> (0, m1)
           | Inr entries \<Rightarrow> restore_entries E entries 0 m1))"

section \<open>Choosing a worker\<close>

text \<open>One goroutine per client asks for its sessions; a failed call counts as no sessions.\<close>

fun score_clients :: "wclient list \<Rightarrow> 'c net \<Rightarrow> (wclient \<times> nat) list \<times> 'c net" where
  "score_clients [] n = ([], n)"
| "score_clients (c # cs) n =
     (let (r, n') = wc_ListSessions c n;
          count = (case r of Inl _ \<Rightarrow> 0 | Inr infos \<Rightarrow> length infos);
          (rest, n'') = score_clients cs n'
      in ((c, count) # rest, n''))"

fun pick_best :: "wclient \<times> nat \<Rightarrow> (wclient \<times> nat) list \<Rightarrow> wclient \<times> nat" where
  "pick_best best [] = best"
| "pick_best best (s # rest) = pick_best (if snd s < snd best then s else best) rest"

text \<open>\<open>scores[0]\<close> and the loop over \<open>scores[1:]\<close>; the list is never empty where it is called.\<close>

definition best_client :: "(wclient \<times> nat) list \<Rightarrow> error + wclient" where
  "best_client scores =
     (case scores of
        [] \<Rightarrow> Inl (Panic ''index out of range [0] with length 0'')
      | s # rest \<Rightarrow> Inr (fst (pick_best s rest)))"

definition leastLoaded :: "nat list \<Rightarrow> 'c manager \<Rightarrow> (error + wclient) \<times> 'c manager" where
  "leastLoaded ks m =
     (let clients = arrange ks (map snd (mgr_workers m)) in
      if clients = [] then (Inl (Errorf ''no workers available'' []), m)
      else
        (let (scores, n) = score_clients clients (mgr_net m)
         in (best_client scores, m\<lparr>mgr_net := n\<rparr>)))"

definition leastLoadedExcluding ::
  "nat list \<Rightarrow> string \<Rightarrow> 'c manager \<Rightarrow> (error + wclient) \<times> 'c manager" where
  "leastLoadedExcluding ks excludeID m =
     (let clients = arrange ks (map snd (filter (\<lambda>(wid, c). wid \<noteq> excludeID) (mgr_workers m))) in
      if clients = [] then (Inl (Errorf ''no other workers available'' []), m)
      else
        (let (scores, n) = score_clients clients (mgr_net m)
         in (best_client scores, m\<lparr>mgr_net := n\<rparr>)))"

text \<open>A call through a client from inside the manager.\<close>

abbreviation on_net :: "('c net \<Rightarrow> 'r \<times> 'c net) \<Rightarrow> 'c manager \<Rightarrow> 'r \<times> 'c manager" where
  "on_net f m \<equiv> (let (r, n) = f (mgr_net m) in (r, m\<lparr>mgr_net := n\<rparr>))"

definition AssignAccount ::
  "'c env \<Rightarrow> nat list \<Rightarrow> string \<Rightarrow> string \<Rightarrow> 'c manager \<Rightarrow> (error + string) \<times> 'c manager" where
  "AssignAccount E ks sessionID phone m =
     (case leastLoaded ks m of
        (Inl err, m1) \<Rightarrow> (Inl err, m1)
      | (Inr c, m1) \<Rightarrow>
          (case on_net (wc_AddAccount E c sessionID phone) m1 of
             (Inl err, m2) \<Rightarrow> (Inl (Wrapf ''add account on worker %s: %w'' [wc_id c] err), m2)
           | (Inr _, m2) \<Rightarrow> (Inr (wc_id c), m2)))"

definition AssignBot ::
  "'c env \<Rightarrow> nat list \<Rightarrow> string \<Rightarrow> string \<Rightarrow> 'c manager \<Rightarrow> (error + string) \<times> 'c manager" where
  "AssignBot E ks sessionID token m =
     (case leastLoaded ks m of
        (Inl err, m1) \<Rightarrow> (Inl err, m1)
      | (Inr c, m1) \<Rightarrow>
          (case on_net (wc_AddBot E c sessionID token) m1 of
             (Inl err, m2) \<Rightarrow> (Inl (Wrapf ''add bot on worker %s: %w'' [wc_id c] err), m2)
           | (Inr _, m2) \<Rightarrow> (Inr (wc_id c), m2)))"

section \<open>Calls routed to a named worker\<close>

text \<open>The look-up that every routed call starts with.\<close>

definition with_worker ::
  "string \<Rightarrow> (wclient \<Rightarrow> 'c net \<Rightarrow> (error + 'a) \<times> 'c net) \<Rightarrow> 'c manager \<Rightarrow> (error + 'a) \<times> 'c manager" where
  "with_worker workerID f m =
     (case go_get (mgr_workers m) workerID of
        None \<Rightarrow> (Inl (Errorf ''worker %q not found'' [workerID]), m)
      | Some c \<Rightarrow> on_net (f c) m)"

definition AssignBotToWorker ::
  "'c env \<Rightarrow> string \<Rightarrow> string \<Rightarrow> string \<Rightarrow> 'c manager \<Rightarrow> (error + string) \<times> 'c manager" where
  "AssignBotToWorker E workerID sessionID token =
     with_worker workerID (\<lambda>c n.
       case wc_AddBot E c sessionID token n of
         (Inl err, n') \<Rightarrow> (Inl (Wrapf ''add bot on worker %s: %w'' [workerID] err), n')
       | (Inr _, n') \<Rightarrow> (Inr workerID, n'))"

definition AssignAccountToWorker ::
  "'c env \<Rightarrow> string \<Rightarrow> string \<Rightarrow> string \<Rightarrow> 'c manager \<Rightarrow> (error + string) \<times> 'c manager" where
  "AssignAccountToWorker E workerID sessionID phone =
     with_worker workerID (\<lambda>c n.
       case wc_AddAccount E c sessionID phone n of
         (Inl err, n') \<Rightarrow> (Inl (Wrapf ''add account on worker %s: %w'' [workerID] err), n')
       | (Inr _, n') \<Rightarrow> (Inr workerID, n'))"

text \<open>A client call that returns only an error, as a sum.\<close>

definition as_sum :: "error option \<times> 'n \<Rightarrow> (error + unit) \<times> 'n" where
  "as_sum x = (case x of (Some e, n) \<Rightarrow> (Inl e, n) | (None, n) \<Rightarrow> (Inr (), n))"

definition mgr_RemoveSession ::
  "'c env \<Rightarrow> string \<Rightarrow> string \<Rightarrow> 'c manager \<Rightarrow> (error + unit) \<times> 'c manager" where
  "mgr_RemoveSession E workerID sessionID =
     with_worker workerID (\<lambda>c n. as_sum (wc_RemoveSession E c sessionID n))"

definition mgr_SendAuthCode ::
  "'c env \<Rightarrow> string \<Rightarrow> string \<Rightarrow> string \<Rightarrow> 'c manager \<Rightarrow> (error + unit) \<times> 'c manager" where
  "mgr_SendAuthCode E workerID sessionID code =
     with_worker workerID (\<lambda>c n.
       let (r, n') = wc_SendAuthCode E c sessionID code n in as_sum (result_error r, n'))"

definition mgr_SendPassword ::
  "'c env \<Rightarrow> string \<Rightarrow> string \<Rightarrow> string \<Rightarrow> 'c manager \<Rightarrow> (error + unit) \<times> 'c manager" where
  "mgr_SendPassword E workerID sessionID password =
     with_worker workerID (\<lambda>c n.
       let (r, n') = wc_SendPassword E c sessionID password n in as_sum (result_error r, n'))"

definition mgr_GetAuthState ::
  "'c env \<Rightarrow> string \<Rightarrow> string \<Rightarrow> 'c manager \<Rightarrow> (error + string) \<times> 'c manager" where
  "mgr_GetAuthState E workerID sessionID =
     with_worker workerID (\<lambda>c n.
       case wc_GetAuthState E c sessionID n of
         (Inl err, n') \<Rightarrow> (Inl err, n')
       | (Inr (_, state), n') \<Rightarrow> (Inr state, n'))"

definition Workers :: "nat list \<Rightarrow> 'c manager \<Rightarrow> string list" where
  "Workers ks m = arrange ks (go_keys (mgr_workers m))"

text \<open>\<open>CollectMetrics\<close>: the replies in the order they arrive; failed calls are left out.\<close>

fun collect_from :: "'c env \<Rightarrow> wclient list \<Rightarrow> 'c net \<Rightarrow> WorkerMetrics list \<times> 'c net" where
  "collect_from E [] n = ([], n)"
| "collect_from E (c # cs) n =
     (let (r, n') = wc_GetMetrics E c n; (rest, n'') = collect_from E cs n'
      in (case r of Inl _ \<Rightarrow> rest | Inr wm \<Rightarrow> wm # rest, n''))"

definition CollectMetrics :: "'c env \<Rightarrow> nat list \<Rightarrow> 'c manager \<Rightarrow> WorkerMetrics list \<times> 'c manager" where
  "CollectMetrics E ks m = on_net (collect_from E (arrange ks (map snd (mgr_workers m)))) m"

section \<open>Draining\<close>

text \<open>A \<open>SessionError\<close> keeps the error value whose text the code records.\<close>

record SessionError =
  se_SessionID :: string
  se_Error :: error

record DrainResult =
  dr_Migrated :: nat
  dr_Failed :: nat
  dr_Errors :: "SessionError list"

definition drain_fail :: "string \<Rightarrow> error \<Rightarrow> DrainResult \<Rightarrow> DrainResult" where
  "drain_fail sid err res =
     res\<lparr>dr_Failed := Suc (dr_Failed res),
         dr_Errors := dr_Errors res @ [\<lparr>se_SessionID = sid, se_Error = err\<rparr>]\<rparr>"

text \<open>One round of the migration loop.\<close>

definition drain_one ::
  "'c env \<Rightarrow> nat list \<Rightarrow> string \<Rightarrow> wclient \<Rightarrow> SessionInfo \<Rightarrow> DrainResult \<times> 'c manager \<Rightarrow>
   DrainResult \<times> 'c manager" where
  "drain_one E ks wid target sess acc =
     (let (res, m) = acc in
      case leastLoadedExcluding ks wid m of
        (Inl pickErr, m1) \<Rightarrow> (drain_fail (si_SessionId sess) pickErr res, m1)
      | (Inr dest, m1) \<Rightarrow>
          (case on_net (if si_Type sess = ''bot'' then wc_AddBot E dest (si_SessionId sess) []
                        else wc_AddAccount E dest (si_SessionId sess) []) m1 of
             (Inl assignErr, m2) \<Rightarrow> (drain_fail (si_SessionId sess) assignErr res, m2)
           | (Inr _, m2) \<Rightarrow>
               (let (rmErr, m3) = on_net (wc_RemoveSession E target (si_SessionId sess)) m2
                in (res\<lparr>dr_Migrated := Suc (dr_Migrated res)\<rparr>, m3))))"

fun drain_loop ::
  "'c env \<Rightarrow> (nat \<Rightarrow> nat list) \<Rightarrow> string \<Rightarrow> wclient \<Rightarrow> SessionInfo list \<Rightarrow> DrainResult \<times> 'c manager \<Rightarrow>
   DrainResult \<times> 'c manager" where
  "drain_loop E sched wid target [] acc = acc"
| "drain_loop E sched wid target (sess # rest) acc =
     drain_loop E sched wid target rest (drain_one E (sched (length rest)) wid target sess acc)"

text \<open>The result comes with the error of the final removal.\<close>

definition DrainWorker ::
  "'c env \<Rightarrow> (nat \<Rightarrow> nat list) \<Rightarrow> string \<Rightarrow> 'c manager \<Rightarrow>
   (error + DrainResult \<times> error option) \<times> 'c manager" where
  "DrainWorker E sched wid m =
     (case go_get (mgr_workers m) wid of
        None \<Rightarrow> (Inl (Errorf ''worker %q not found'' [wid]), m)
      | Some target \<Rightarrow>
          (case on_net (wc_ListSessions target) m of
             (Inl err, m1) \<Rightarrow> (Inl (Wrapf ''list sessions on %s: %w'' [wid] err), m1)
           | (Inr infos, m1) \<Rightarrow>
               (let (result, m2) = drain_loop E sched wid target infos
                      (\<lparr>dr_Migrated = 0, dr_Failed = 0, dr_Errors = []\<rparr>, m1);
                    (err, m3) = RemoveWorker wid m2
                in (Inr (result, err), m3))))"

section \<open>The subscribe loop\<close>

text \<open>
  One round of \<open>subscribeLoop\<close>: when the context is cancelled (before the round, when
  \<open>Subscribe\<close> has returned, or during the wait), and what the stream does. Durations are in
  nanoseconds. The results are the handler calls, the waits, and whether the loop has returned.
\<close>

datatype ctx_done = NotDone | DoneBefore | DoneAfter | DoneWaiting

record attempt =
  at_ctx :: ctx_done
  at_open :: "error option"
  at_events :: "recv_event list"

fun subscribeLoop ::
  "wclient \<Rightarrow> int \<Rightarrow> attempt list \<Rightarrow> (string \<times> TelegramUpdate) list \<times> int list \<times> bool" where
  "subscribeLoop c backoff [] = ([], [], False)"
| "subscribeLoop c backoff (a # rest) =
     (if at_ctx a = DoneBefore then ([], [], True)
      else
        (case wc_Subscribe c (at_open a) (at_events a) of
           (calls, None) \<Rightarrow> (calls, [], False)
         | (calls, Some err) \<Rightarrow>
             (if at_ctx a = DoneAfter then (calls, [], True)
              else
                (case err of
                   None \<Rightarrow>
                     (let (calls', waits, ret) = subscribeLoop c backoff rest
                      in (calls @ calls', waits, ret))
                 | Some e \<Rightarrow>
                     (if at_ctx a = DoneWaiting then (calls, [backoff], True)
                      else
                        (let backoff' = (if backoff < 30 * Second then backoff * 2 else backoff);
                             (calls', waits, ret) = subscribeLoop c backoff' rest
                         in (calls @ calls', backoff # waits, ret)))))))"

section \<open>Load balancing\<close>

text \<open>What a delivered \<open>ListSessions\<close> call contributes to the score: an unreachable worker counts as empty.\<close>

definition node_load :: "'c net \<Rightarrow> wclient \<Rightarrow> nat" where
  "node_load n c = (case net_nodes n (wc_addr c) of None \<Rightarrow> 0 | Some s \<Rightarrow> length (srv_ListSessions s))"

lemma pick_best_mem: "pick_best b rest \<in> set (b # rest)"
  by (induction b rest rule: pick_best.induct) (auto split: if_splits)

lemma pick_best_min: "\<forall>x \<in> set (b # rest). snd (pick_best b rest) \<le> snd x"
proof (induction b rest rule: pick_best.induct)
  case (2 b s rest)
  then show ?case by (cases "snd s < snd b") (auto intro: le_trans)
qed simp

lemma best_client_min:
  assumes "scores \<noteq> []"
  obtains c k where "best_client scores = Inr c" "(c, k) \<in> set scores"
    "\<And>c' k'. (c', k') \<in> set scores \<Longrightarrow> k \<le> k'"
proof -
  obtain s rest where s: "scores = s # rest" using assms by (cases scores) auto
  show thesis
    using that [of "fst (pick_best s rest)" "snd (pick_best s rest)"] pick_best_mem [of s rest]
      pick_best_min [of s rest] by (force simp: best_client_def s)
qed

lemma wc_ListSessions_frame:
  "net_nodes (snd (wc_ListSessions c n)) = net_nodes n"
proof -
  obtain r n' where "wc_ListSessions c n = (r, n')" by (cases "wc_ListSessions c n")
  then have "net_nodes n' = net_nodes n" unfolding wc_ListSessions_def
    by (cases rule: wc_call_cases) (auto simp: fun_upd_idem)
  with \<open>wc_ListSessions c n = (r, n')\<close> show ?thesis by simp
qed

lemma wc_ListSessions_conns:
  "net_open (snd (wc_ListSessions c n)) = net_open n" "net_next (snd (wc_ListSessions c n)) = net_next n"
  by (simp_all add: wc_ListSessions_def)

text \<open>Two networks that differ at most in the transport's script.\<close>

definition same_net :: "'c net \<Rightarrow> 'c net \<Rightarrow> bool" where
  "same_net n n' \<longleftrightarrow> net_nodes n = net_nodes n' \<and> net_open n = net_open n' \<and> net_next n = net_next n'"

lemma same_net_refl [simp]: "same_net n n"
  by (simp add: same_net_def)

lemma same_net_ok: "same_net n n' \<Longrightarrow> net_ok n \<longleftrightarrow> net_ok n'"
  by (simp add: same_net_def net_ok_def)

lemma same_net_ListSessions: "same_net (snd (wc_ListSessions c n)) n"
  by (simp add: same_net_def wc_ListSessions_frame wc_ListSessions_conns)

lemma same_net_trans: "same_net n1 n2 \<Longrightarrow> same_net n2 n3 \<Longrightarrow> same_net n1 n3"
  by (simp add: same_net_def)

lemma score_clients_frame:
  "map fst (fst (score_clients cs n)) = cs \<and> same_net (snd (score_clients cs n)) n"
proof (induction cs arbitrary: n)
  case (Cons c cs)
  then show ?case
    using same_net_ListSessions [of c n] same_net_trans by (fastforce simp: split_beta Let_def)
qed simp

lemma wc_ListSessions_quiet:
  assumes "net_wire n = []" and "wc_conn c \<in> set (net_open n)"
  shows "wc_ListSessions c n =
    (case net_nodes n (wc_addr c) of None \<Rightarrow> Inl ErrUnavailable | Some s \<Rightarrow> Inr (srv_ListSessions s), n)"
  unfolding wc_ListSessions_def using assms
  by (auto simp: wc_call_delivered wc_call_no_node fun_upd_idem split: option.splits)

lemma score_clients_quiet:
  assumes "net_wire n = []" and "\<And>c. c \<in> set cs \<Longrightarrow> wc_conn c \<in> set (net_open n)"
  shows "score_clients cs n = (map (\<lambda>c. (c, node_load n c)) cs, n)"
  using assms(2)
proof (induction cs)
  case (Cons c cs)
  then show ?case
    by (auto simp: wc_ListSessions_quiet assms(1) node_load_def split: option.splits)
qed simp

lemma leastLoaded_cases:
  assumes "leastLoaded ks m = (r, m')"
  obtains (none) "mgr_workers m = []" "r = Inl (Errorf ''no workers available'' [])" "m' = m"
  | (chosen) wid c n where "r = Inr c" "(wid, c) \<in> set (mgr_workers m)" "m' = m\<lparr>mgr_net := n\<rparr>"
      "same_net n (mgr_net m)"
proof (cases "mgr_workers m = []")
  case True
  with assms show thesis by (intro none) (simp_all add: leastLoaded_def)
next
  case False
  let ?cs = "arrange ks (map snd (mgr_workers m))"
  obtain scores n where sc: "score_clients ?cs (mgr_net m) = (scores, n)"
    by (cases "score_clients ?cs (mgr_net m)")
  then have fst: "map fst scores = ?cs" and n: "same_net n (mgr_net m)"
    using score_clients_frame [of ?cs "mgr_net m"] by simp_all
  have "scores \<noteq> []" using fst False by (metis arrange_Nil_iff list.map_disc_iff)
  then obtain c k where best: "best_client scores = Inr c" "(c, k) \<in> set scores" by (rule best_client_min)
  then have "c \<in> set ?cs" using fst by (metis fst_conv image_eqI list.set_map)
  then obtain wid where "(wid, c) \<in> set (mgr_workers m)" by auto
  with assms False sc best n show thesis by (intro chosen [of c wid n]) (simp_all add: leastLoaded_def)
qed

lemma leastLoadedExcluding_cases:
  assumes "leastLoadedExcluding ks wid m = (r, m')"
  obtains (none) e where "r = Inl e" "m' = m"
  | (chosen) wid' c n where "r = Inr c" "(wid', c) \<in> set (mgr_workers m)" "wid' \<noteq> wid" "m' = m\<lparr>mgr_net := n\<rparr>"
      "same_net n (mgr_net m)"
proof -
  let ?m = "m\<lparr>mgr_workers := filter (\<lambda>(w, c). w \<noteq> wid) (mgr_workers m)\<rparr>"
  show thesis
  proof (cases "mgr_workers ?m = []")
    case True
    with assms show thesis by (auto intro!: none simp: leastLoadedExcluding_def)
  next
    case False
    obtain r1 m1 where ll: "leastLoaded ks ?m = (r1, m1)" by (cases "leastLoaded ks ?m")
    then have "r1 = r \<and> m' = m\<lparr>mgr_net := mgr_net m1\<rparr>"
      using assms False by (auto simp: leastLoadedExcluding_def leastLoaded_def split: prod.splits)
    with ll False show thesis
      by (cases rule: leastLoaded_cases) (auto intro!: chosen)
  qed
qed

section \<open>Handlers keep the pools well-formed\<close>

lemma srv_AddBot_pool [simp]:
  "srv_pool (snd (srv_AddBot factory now sid token s)) = snd (Pool_AddBot factory now sid token (srv_pool s))"
  by (simp add: srv_AddBot_def Let_def split: prod.splits option.splits)

lemma srv_AddAccount_pool [simp]:
  "srv_pool (snd (srv_AddAccount factory now sid phone s)) = snd (Pool_Add factory now sid phone (srv_pool s))"
  by (simp add: srv_AddAccount_def Let_def split: prod.splits option.splits)

lemma srv_RemoveSession_pool [simp]:
  "srv_pool (snd (srv_RemoveSession ifc sid s)) = snd (Pool_Remove ifc sid (srv_pool s))"
  by (simp add: srv_RemoveSession_def Let_def split: prod.splits option.splits)

lemma pool_ok_step_or_same: "p' = p \<or> pool_step ifc p p' \<Longrightarrow> pool_ok p \<Longrightarrow> pool_ok p'"
  using pool_ok_step by blast

lemma net_ok_AddBot: "net_ok n \<Longrightarrow> net_ok (snd (wc_AddBot E c sid token n))"
  unfolding wc_AddBot_def by (rule net_ok_call) (simp_all add: Pool_AddBot_def pool_ok_add)

lemma net_ok_AddAccount: "net_ok n \<Longrightarrow> net_ok (snd (wc_AddAccount E c sid phone n))"
  unfolding wc_AddAccount_def by (rule net_ok_call) (simp_all add: Pool_Add_def pool_ok_add)

lemma net_ok_RemoveSession: "net_ok n \<Longrightarrow> net_ok (snd (wc_RemoveSession E c sid n))"
  unfolding wc_RemoveSession_def Let_def split_beta snd_conv
  by (rule net_ok_call) (simp_all add: pool_ok_Remove)

lemma net_ok_ListSessions: "net_ok n \<Longrightarrow> net_ok (snd (wc_ListSessions c n))"
  unfolding wc_ListSessions_def by (rule net_ok_call) simp_all

lemma net_ok_GetMetrics: "net_ok n \<Longrightarrow> net_ok (snd (wc_GetMetrics E c n))"
  unfolding wc_GetMetrics_def by (rule net_ok_call) simp_all

lemma net_ok_GetAuthState: "net_ok n \<Longrightarrow> net_ok (snd (wc_GetAuthState E c sid n))"
  unfolding wc_GetAuthState_def by (rule net_ok_call) simp_all

lemma net_ok_SendAuthCode: "net_ok n \<Longrightarrow> net_ok (snd (wc_SendAuthCode E c sid code n))"
  unfolding wc_SendAuthCode_def
proof (rule net_ok_call)
  fix s :: "'a server"
  assume ok: "pool_ok (srv_pool s)"
  obtain err p where p: "Pool_SendAuthCode (env_ifc E) sid code (srv_pool s) = (err, p)"
    by (cases "Pool_SendAuthCode (env_ifc E) sid code (srv_pool s)")
  with pool_step_SendAuthCode [OF p] ok
  show "pool_ok (srv_pool (snd (srv_SendAuthCode (env_ifc E) sid code s)))"
    by (auto simp: Let_def srv_SendAuthCode_def split: option.splits intro: pool_ok_step)
qed

lemma net_ok_SendPassword: "net_ok n \<Longrightarrow> net_ok (snd (wc_SendPassword E c sid password n))"
  unfolding wc_SendPassword_def
proof (rule net_ok_call)
  fix s :: "'a server"
  assume ok: "pool_ok (srv_pool s)"
  obtain err p where p: "Pool_SendPassword (env_ifc E) sid password (srv_pool s) = (err, p)"
    by (cases "Pool_SendPassword (env_ifc E) sid password (srv_pool s)")
  with pool_step_SendPassword [OF p] ok
  show "pool_ok (srv_pool (snd (srv_SendPassword (env_ifc E) sid password s)))"
    by (auto simp: Let_def srv_SendPassword_def split: option.splits intro: pool_ok_step)
qed

lemma net_ok_Health: "net_ok n \<Longrightarrow> net_ok (snd (wc_Health c n))"
  using net_ok_call [of n "\<lambda>s. (Inr (srv_Health s), s)" c]
  by (auto simp: wc_Health_def split: prod.splits sum.splits)

lemmas net_ok_intros = net_ok_AddBot net_ok_AddAccount net_ok_RemoveSession net_ok_ListSessions
  net_ok_GetMetrics net_ok_GetAuthState net_ok_SendAuthCode net_ok_SendPassword net_ok_Health
  net_ok_Close net_ok_New

lemma wc_conns:
  "net_open (snd (wc_AddBot E c sid token n)) = net_open n"
  "net_open (snd (wc_AddAccount E c sid phone n)) = net_open n"
  "net_open (snd (wc_RemoveSession E c sid n)) = net_open n"
  "net_open (snd (wc_Health c n)) = net_open n"
  "net_next (snd (wc_Health c n)) = net_next n"
  using wc_call_conns [of c "\<lambda>s. (Inr (srv_Health s), s)" n]
  by (auto simp: wc_AddBot_def wc_AddAccount_def wc_RemoveSession_def wc_Health_def split_beta
      split: sum.splits prod.splits)

section \<open>Where sessions live\<close>

text \<open>Some running worker has the session in its pool.\<close>

definition hosted :: "'c net \<Rightarrow> string \<Rightarrow> bool" where
  "hosted n sid \<longleftrightarrow> (\<exists>a s. net_nodes n a = Some s \<and> go_get (sessions (srv_pool s)) sid \<noteq> None)"

lemma hosted_cong: "net_nodes n' = net_nodes n \<Longrightarrow> hosted n' sid = hosted n sid"
  by (simp add: hosted_def)

lemma hosted_at: "net_nodes n a = Some s \<Longrightarrow> go_get (sessions (srv_pool s)) sid \<noteq> None \<Longrightarrow> hosted n sid"
  by (auto simp: hosted_def)

text \<open>A start of a session, by either procedure: what it registers and what it leaves alone.\<close>

lemma Pool_add_sessions:
  "go_get (sessions (snd (Pool_add factory now sid phone token t p))) a =
     (if fst (Pool_add factory now sid phone token t p) = None \<and> a = sid
      then Some (next_ref p) else go_get (sessions p) a)"
  by (simp add: Pool_add_def Let_def split: option.splits sum.splits)

lemma Pool_add_None_new:
  "fst (Pool_add factory now sid phone token t p) = None \<Longrightarrow> go_get (sessions p) sid = None"
  by (simp add: Pool_add_def split: option.splits)

definition starts ::
  "('c server \<Rightarrow> (error + SessionInfo) \<times> 'c server) \<Rightarrow> string \<Rightarrow> bool" where
  "starts h sid \<longleftrightarrow> (\<forall>s r s'. h s = (r, s') \<longrightarrow> \<not> is_panic r \<and>
     (\<forall>a. go_get (sessions (srv_pool s')) a =
        (if (\<exists>x. r = Inr x) \<and> a = sid then Some (next_ref (srv_pool s)) else go_get (sessions (srv_pool s)) a)) \<and>
     ((\<exists>x. r = Inr x) \<longrightarrow> go_get (sessions (srv_pool s)) sid = None))"

lemma Pool_add_not_panic: "Pool_add factory now sid phone token t p \<noteq> (Some (Panic x), p')"
  by (simp add: Pool_add_def Let_def split: option.splits sum.splits)

lemma wrap_status_not_panic: "\<forall>x. e \<noteq> Panic x \<Longrightarrow> \<not> is_panic (Inl (wrap_status code f e))"
  by (cases e) (simp_all add: wrap_status_def is_panic_def)

lemma starts_AddBot: "starts (srv_AddBot factory now sid token) sid"
  unfolding starts_def
proof (intro allI impI)
  fix s r s'
  assume call: "srv_AddBot factory now sid token s = (r, s')"
  obtain err p where p: "Pool_add factory now sid [] token TypeBot (srv_pool s) = (err, p)"
    by (cases "Pool_add factory now sid [] token TypeBot (srv_pool s)")
  have "s' = s\<lparr>srv_pool := p\<rparr>" and "err = None \<longleftrightarrow> (\<exists>x. r = Inr x)" and "\<not> is_panic r"
    using call p Pool_add_not_panic [of factory now sid "[]" token TypeBot "srv_pool s" _ p]
    by (auto simp: Let_def srv_AddBot_def Pool_AddBot_def wrap_status_not_panic split: option.splits)
  then show "\<not> is_panic r \<and>
     (\<forall>a. go_get (sessions (srv_pool s')) a =
        (if (\<exists>x. r = Inr x) \<and> a = sid then Some (next_ref (srv_pool s)) else go_get (sessions (srv_pool s)) a)) \<and>
     ((\<exists>x. r = Inr x) \<longrightarrow> go_get (sessions (srv_pool s)) sid = None)"
    using Pool_add_sessions [of factory now sid "[]" token TypeBot "srv_pool s"]
      Pool_add_None_new [of factory now sid "[]" token TypeBot "srv_pool s"] p by simp
qed

lemma starts_AddAccount: "starts (srv_AddAccount factory now sid phone) sid"
  unfolding starts_def
proof (intro allI impI)
  fix s r s'
  assume call: "srv_AddAccount factory now sid phone s = (r, s')"
  obtain err p where p: "Pool_add factory now sid phone [] TypeAccount (srv_pool s) = (err, p)"
    by (cases "Pool_add factory now sid phone [] TypeAccount (srv_pool s)")
  have "s' = s\<lparr>srv_pool := p\<rparr>" and "err = None \<longleftrightarrow> (\<exists>x. r = Inr x)" and "\<not> is_panic r"
    using call p Pool_add_not_panic [of factory now sid phone "[]" TypeAccount "srv_pool s" _ p]
    by (auto simp: Let_def srv_AddAccount_def Pool_Add_def wrap_status_not_panic split: option.splits)
  then show "\<not> is_panic r \<and>
     (\<forall>a. go_get (sessions (srv_pool s')) a =
        (if (\<exists>x. r = Inr x) \<and> a = sid then Some (next_ref (srv_pool s)) else go_get (sessions (srv_pool s)) a)) \<and>
     ((\<exists>x. r = Inr x) \<longrightarrow> go_get (sessions (srv_pool s)) sid = None)"
    using Pool_add_sessions [of factory now sid phone "[]" TypeAccount "srv_pool s"]
      Pool_add_None_new [of factory now sid phone "[]" TypeAccount "srv_pool s"] p by simp
qed

lemma hosted_start:
  assumes "wc_call c h n = (r, n')" and "starts h sid" and "hosted n a"
  shows "hosted n' a"
  using assms(1)
proof (cases rule: wc_call_cases)
  case untouched
  with assms(3) show ?thesis by (simp add: hosted_def)
next
  case (crashed e s r' s')
  with assms(2) show ?thesis by (simp add: starts_def)
next
  case (ran s s' r')
  have keep: "go_get (sessions (srv_pool s)) a \<noteq> None \<Longrightarrow> go_get (sessions (srv_pool s')) a \<noteq> None"
    using assms(2) ran(2) by (simp add: starts_def)
  from assms(3) obtain b t where "net_nodes n b = Some t" "go_get (sessions (srv_pool t)) a \<noteq> None"
    by (auto simp: hosted_def)
  then show ?thesis
    using hosted_at [of n' b "if b = wc_addr c then s' else t" a] keep ran(1,4)
    by (cases "b = wc_addr c") simp_all
qed

lemma started_at:
  assumes "wc_call c h n = (Inr x, n')" and "starts h sid"
  obtains s s' where "net_nodes n (wc_addr c) = Some s" "go_get (sessions (srv_pool s)) sid = None"
    "net_nodes n' = (net_nodes n)(wc_addr c \<mapsto> s')" "go_get (sessions (srv_pool s')) sid \<noteq> None"
  using assms(1)
proof (cases rule: wc_call_cases)
  case (ran s s' r')
  then have "h s = (Inr x, s')" by auto
  with assms(2) have "go_get (sessions (srv_pool s)) sid = None" "go_get (sessions (srv_pool s')) sid \<noteq> None"
    unfolding starts_def by (metis option.discI)+
  with ran show thesis by (intro that) auto
qed auto

lemma srv_RemoveSession_not_panic:
  assumes "pool_ok (srv_pool s)"
  shows "\<not> is_panic (fst (srv_RemoveSession ifc sid s))"
proof (cases "go_get (sessions (srv_pool s)) sid")
  case (Some r)
  with assms obtain e where "heap (srv_pool s) r = Some e" by (rule pool_ok_getD)
  with Some show ?thesis by (simp add: srv_RemoveSession_def Pool_Remove_def Let_def)
qed (simp add: srv_RemoveSession_def Pool_Remove_def wrap_status_def is_panic_def)

text \<open>A removal takes at most the named session away, and only at the called address.\<close>

lemma hosted_remove:
  assumes "net_ok n" and "wc_RemoveSession E c sid n = (err, n')"
    and "net_nodes n a = Some s" "go_get (sessions (srv_pool s)) x \<noteq> None"
    and "a = wc_addr c \<Longrightarrow> x \<noteq> sid"
  shows "hosted n' x"
proof -
  let ?h = "srv_RemoveSession (env_ifc E) sid"
  obtain r where call: "wc_call c ?h n = (r, n')"
    using assms(2) by (auto simp: wc_RemoveSession_def split: prod.splits)
  then show ?thesis
  proof (cases rule: wc_call_cases)
    case untouched
    with assms show ?thesis by (intro hosted_at) simp_all
  next
    case (crashed e t r' t')
    with srv_RemoveSession_not_panic [OF net_okD [OF assms(1)], of "wc_addr c" t "env_ifc E" sid]
    show ?thesis by simp
  next
    case (ran t t' r')
    have "srv_pool t' = snd (Pool_Remove (env_ifc E) sid (srv_pool t))"
      using srv_RemoveSession_pool [of "env_ifc E" sid t] ran(2) by simp
    then have "x \<noteq> sid \<Longrightarrow> go_get (sessions (srv_pool t')) x = go_get (sessions (srv_pool t)) x"
      by (simp add: Pool_Remove_def Let_def split: option.splits)
    with ran(1,4) assms(3-5) show ?thesis
      using hosted_at [of n' a "if a = wc_addr c then t' else s" x]
      by (cases "a = wc_addr c") simp_all
  qed
qed

section \<open>The migration loop\<close>

text \<open>The start call of one round, as a handler on the destination.\<close>

definition restart_handler ::
  "'c env \<Rightarrow> wclient \<Rightarrow> SessionInfo \<Rightarrow> 'c server \<Rightarrow> (error + SessionInfo) \<times> 'c server" where
  "restart_handler E dest sess =
     (if si_Type sess = ''bot''
      then srv_AddBot (env_factory E (wc_addr dest)) (env_now E) (si_SessionId sess) []
      else srv_AddAccount (env_factory E (wc_addr dest)) (env_now E) (si_SessionId sess) [])"

lemma starts_restart: "starts (restart_handler E dest sess) (si_SessionId sess)"
  by (simp add: restart_handler_def starts_AddBot starts_AddAccount)

lemma restart_call:
  "(if si_Type sess = ''bot'' then wc_AddBot E dest (si_SessionId sess) []
    else wc_AddAccount E dest (si_SessionId sess) []) = wc_call dest (restart_handler E dest sess)"
  by (simp add: restart_handler_def wc_AddBot_def wc_AddAccount_def)

lemma drain_one_cases:
  assumes "drain_one E ks wid target sess (res, m) = (res', m')"
  obtains (failed) e n where "res' = drain_fail (si_SessionId sess) e res" "m' = m\<lparr>mgr_net := n\<rparr>"
      "n = mgr_net m \<or> (\<exists>dest n1. same_net n1 (mgr_net m) \<and>
         wc_call dest (restart_handler E dest sess) n1 = (Inl e, n))"
  | (migrated) dest n1 n2 n3 x err where "res' = res\<lparr>dr_Migrated := Suc (dr_Migrated res)\<rparr>"
      "m' = m\<lparr>mgr_net := n3\<rparr>" "same_net n1 (mgr_net m)"
      "wc_call dest (restart_handler E dest sess) n1 = (Inr x, n2)"
      "wc_RemoveSession E target (si_SessionId sess) n2 = (err, n3)"
proof -
  obtain r m1 where pick: "leastLoadedExcluding ks wid m = (r, m1)" by (cases "leastLoadedExcluding ks wid m")
  then show thesis
  proof (cases rule: leastLoadedExcluding_cases)
    case (none e)
    with assms pick show thesis
      by (intro failed [of e "mgr_net m"]) (simp_all add: drain_one_def)
  next
    case (chosen wid' dest n1)
    obtain q n2 where q: "wc_call dest (restart_handler E dest sess) n1 = (q, n2)"
      by (cases "wc_call dest (restart_handler E dest sess) n1")
    show thesis
    proof (cases q)
      case (Inl e)
      with assms pick chosen q show thesis
        by (intro failed [of e n2]) (auto simp: drain_one_def restart_call)
    next
      case (Inr x)
      obtain err n3 where "wc_RemoveSession E target (si_SessionId sess) n2 = (err, n3)"
        by (cases "wc_RemoveSession E target (si_SessionId sess) n2")
      with assms pick chosen q Inr show thesis
        by (intro migrated [of n3 n1 dest x n2 err]) (auto simp: drain_one_def restart_call)
    qed
  qed
qed

lemma drain_one_frame:
  assumes "drain_one E ks wid target sess (res, m) = (res', m')"
  shows "mgr_workers m' = mgr_workers m \<and> mgr_store m' = mgr_store m"
  using assms by (cases rule: drain_one_cases) simp_all

lemma net_ok_restart: "net_ok n \<Longrightarrow> net_ok (snd (wc_call dest (restart_handler E dest sess) n))"
  unfolding restart_call [symmetric] by (simp add: net_ok_AddBot net_ok_AddAccount)

lemma drain_one_hosted:
  assumes "drain_one E ks wid target sess (res, m) = (res', m')" and ok: "net_ok (mgr_net m)"
  shows "net_ok (mgr_net m') \<and> (hosted (mgr_net m) a \<longrightarrow> hosted (mgr_net m') a)"
  using assms(1)
proof (cases rule: drain_one_cases)
  case (failed e n)
  show ?thesis
  proof (cases "n = mgr_net m")
    case False
    then obtain dest n1 where n1: "same_net n1 (mgr_net m)"
      and call: "wc_call dest (restart_handler E dest sess) n1 = (Inl e, n)" using failed(3) by blast
    have "net_ok n" using net_ok_restart [of n1 dest E sess] ok same_net_ok [OF n1] by (simp add: call)
    moreover have "hosted n1 a = hosted (mgr_net m) a" using n1 by (simp add: hosted_def same_net_def)
    ultimately show ?thesis using failed(2) hosted_start [OF call starts_restart] by simp
  qed (use failed(2) ok in simp)
next
  case (migrated dest n1 n2 n3 x err)
  let ?sid = "si_SessionId sess"
  have n1: "net_ok n1" "hosted n1 a = hosted (mgr_net m) a"
    using migrated(3) ok by (simp_all add: hosted_def same_net_def net_ok_def)
  have n2: "net_ok n2" using net_ok_restart [of n1 dest E sess] n1 migrated(4) by simp
  have n3: "net_ok n3" using net_ok_RemoveSession [of n2 E target ?sid] n2 migrated(5) by simp
  have "hosted n3 a" if "hosted n1 a"
  proof (cases "a = ?sid")
    case False
    then have "hosted n2 a" using hosted_start [OF migrated(4) starts_restart that] by simp
    then obtain b t where "net_nodes n2 b = Some t" "go_get (sessions (srv_pool t)) a \<noteq> None"
      unfolding hosted_def by blast
    then show ?thesis using False by (rule hosted_remove [OF n2 migrated(5)])
  next
    case True
    obtain s s' where s: "net_nodes n1 (wc_addr dest) = Some s" "go_get (sessions (srv_pool s)) ?sid = None"
      "net_nodes n2 = (net_nodes n1)(wc_addr dest \<mapsto> s')" "go_get (sessions (srv_pool s')) ?sid \<noteq> None"
      using started_at [OF migrated(4) starts_restart] by blast
    show ?thesis
    proof (cases "wc_addr dest = wc_addr target")
      case False
      with s True show ?thesis by (intro hosted_remove [OF n2 migrated(5), of "wc_addr dest" s']) simp_all
    next
      case same: True
      from that obtain b t where b: "net_nodes n1 b = Some t" "go_get (sessions (srv_pool t)) a \<noteq> None"
        unfolding hosted_def by blast
      then have "b \<noteq> wc_addr dest" using s(1,2) True by auto
      with b s(3) same show ?thesis by (intro hosted_remove [OF n2 migrated(5), of b t]) simp_all
    qed
  qed
  with n1 n3 migrated(2) show ?thesis by simp
qed

lemma drain_loop_hosted:
  "drain_loop E sched wid target infos (res, m) = (res', m') \<Longrightarrow> net_ok (mgr_net m) \<Longrightarrow>
   net_ok (mgr_net m') \<and> (hosted (mgr_net m) a \<longrightarrow> hosted (mgr_net m') a)"
proof (induction infos arbitrary: res m)
  case (Cons sess infos)
  obtain res1 m1 where one: "drain_one E (sched (length infos)) wid target sess (res, m) = (res1, m1)"
    by (cases "drain_one E (sched (length infos)) wid target sess (res, m)")
  with drain_one_hosted [OF one Cons.prems(2), of a] Cons.IH [of res1 m1] Cons.prems(1)
  show ?case by simp
qed simp

lemma drain_loop_counts:
  "drain_loop E sched wid target infos (res, m) = (res', m') \<Longrightarrow>
   dr_Migrated res' + dr_Failed res' = dr_Migrated res + dr_Failed res + length infos \<and>
   length (dr_Errors res') + dr_Failed res = length (dr_Errors res) + dr_Failed res' \<and>
   (\<exists>es. dr_Errors res' = dr_Errors res @ es \<and> subseq (map se_SessionID es) (map si_SessionId infos)) \<and>
   mgr_workers m' = mgr_workers m \<and> mgr_store m' = mgr_store m"
proof (induction infos arbitrary: res m)
  case (Cons sess infos)
  obtain res1 m1 where one: "drain_one E (sched (length infos)) wid target sess (res, m) = (res1, m1)"
    by (cases "drain_one E (sched (length infos)) wid target sess (res, m)")
  have IH: "drain_loop E sched wid target infos (res1, m1) = (res', m')" using Cons.prems one by simp
  from one show ?case
  proof (cases rule: drain_one_cases)
    case (failed e n)
    with Cons.IH [OF IH] drain_one_frame [OF one] show ?thesis by (auto simp: drain_fail_def)
  next
    case (migrated dest n1 n2 n3 x err)
    with Cons.IH [OF IH] drain_one_frame [OF one] show ?thesis by auto
  qed
qed simp

section \<open>Interleavings of registrations\<close>

text \<open>
  A configuration: the manager, the \<open>AddWorker\<close> calls that have connected and not yet registered,
  and those that have registered and not yet published. Two registrations of the same identifier
  may overlap, since the lock is released between the check and the insertion.
\<close>

type_synonym 'c mgr_config = "'c manager \<times> wclient list \<times> wclient list"

inductive net_step :: "'c env \<Rightarrow> 'c net \<Rightarrow> 'c net \<Rightarrow> bool" for E where
  "net_step E n (snd (wc_AddBot E c sid token n))"
| "net_step E n (snd (wc_AddAccount E c sid phone n))"
| "net_step E n (snd (wc_RemoveSession E c sid n))"
| "net_step E n (snd (wc_ListSessions c n))"
| "net_step E n (snd (wc_GetMetrics E c n))"
| "net_step E n (snd (wc_SendAuthCode E c sid code n))"
| "net_step E n (snd (wc_SendPassword E c sid password n))"
| "net_step E n (snd (wc_GetAuthState E c sid n))"
| node_moves: "net_nodes n a = Some s \<Longrightarrow> pool_step (env_ifc E) (srv_pool s) p \<Longrightarrow>
    net_step E n (n\<lparr>net_nodes := (net_nodes n)(a \<mapsto> s\<lparr>srv_pool := p\<rparr>)\<rparr>)"
| node_starts: "net_step E n (n\<lparr>net_nodes := (net_nodes n)(a \<mapsto> NewWorkerServer wid (NewPool None hk))\<rparr>)"
| node_stops: "net_step E n (n\<lparr>net_nodes := (net_nodes n)(a := None)\<rparr>)"

inductive mgr_step :: "'c env \<Rightarrow> 'c mgr_config \<Rightarrow> 'c mgr_config \<Rightarrow> bool" for E where
  connects: "AddWorker_connect E cfg m = (r, m') \<Longrightarrow>
    mgr_step E (m, ps, qs) (m', case r of Inl _ \<Rightarrow> ps | Inr c \<Rightarrow> c # ps, qs)"
| inserts: "c \<in> set ps \<Longrightarrow> mgr_step E (m, ps, qs) (AddWorker_insert c m, remove1 c ps, c # qs)"
| publishes: "c \<in> set qs \<Longrightarrow> mgr_step E (m, ps, qs) (AddWorker_publish c m, ps, remove1 c qs)"
| removes: "mgr_step E (m, ps, qs) (snd (RemoveWorker wid m), ps, qs)"
| net_moves: "net_step E (mgr_net m) n \<Longrightarrow> mgr_step E (m, ps, qs) (m\<lparr>mgr_net := n\<rparr>, ps, qs)"
| sets_ready: "mgr_step E (m, ps, qs) (SetOnWorkerReady m, ps, qs)"

inductive mgr_reach :: "'c env \<Rightarrow> 'c mgr_config \<Rightarrow> bool" for E where
  start: "mgr_reach E (NewManager store \<lparr>net_nodes = Map.empty, net_wire = w, net_open = [], net_next = 0\<rparr>, [], [])"
| step: "mgr_reach E C \<Longrightarrow> mgr_step E C C' \<Longrightarrow> mgr_reach E C'"

lemma net_step_frame:
  "net_step E n n' \<Longrightarrow> (net_ok n \<longrightarrow> net_ok n') \<and> net_open n' = net_open n \<and> net_next n' = net_next n"
proof (induction rule: net_step.induct)
  case (node_moves n a s p)
  then show ?case using pool_ok_step [OF node_moves(2)] by (auto simp: net_ok_def)
next
  case (node_starts n a wid hk)
  then show ?case by (auto simp: net_ok_def NewWorkerServer_def pool_ok_handler pool_ok_NewPool)
next
  case (node_stops n a)
  then show ?case by (auto simp: net_ok_def)
qed (simp_all add: net_ok_intros wc_conns, simp_all add: wc_AddBot_def wc_AddAccount_def
    wc_RemoveSession_def wc_ListSessions_def wc_GetMetrics_def wc_SendAuthCode_def
    wc_SendPassword_def wc_GetAuthState_def split_beta Let_def)

text \<open>
  Every registered or connecting client holds an open connection of its own, is registered under
  its own identifier, and has had its subscribe loop started unless it is still publishing.
\<close>

definition mgr_inv :: "'c mgr_config \<Rightarrow> bool" where
  "mgr_inv C \<longleftrightarrow> (case C of (m, ps, qs) \<Rightarrow>
     gomap_ok (mgr_workers m) \<and> net_ok (mgr_net m) \<and>
     (\<forall>wid c. (wid, c) \<in> set (mgr_workers m) \<longrightarrow>
        wc_id c = wid \<and> wc_conn c \<in> set (net_open (mgr_net m)) \<and> (c \<in> set (mgr_loops m) \<or> c \<in> set qs)) \<and>
     (\<forall>c \<in> set ps. wc_conn c \<in> set (net_open (mgr_net m))) \<and> distinct (map wc_conn ps) \<and>
     (\<forall>wid c wid' c'. (wid, c) \<in> set (mgr_workers m) \<longrightarrow> (wid', c') \<in> set (mgr_workers m) \<longrightarrow>
        wc_conn c = wc_conn c' \<longrightarrow> wid = wid') \<and>
     (\<forall>wid c c'. (wid, c) \<in> set (mgr_workers m) \<longrightarrow> c' \<in> set ps \<longrightarrow> wc_conn c \<noteq> wc_conn c'))"

lemma mgr_invI:
  assumes "gomap_ok (mgr_workers m)" "net_ok (mgr_net m)"
    and "\<And>wid c. (wid, c) \<in> set (mgr_workers m) \<Longrightarrow>
        wc_id c = wid \<and> wc_conn c \<in> set (net_open (mgr_net m)) \<and> (c \<in> set (mgr_loops m) \<or> c \<in> set qs)"
    and "\<And>c. c \<in> set ps \<Longrightarrow> wc_conn c \<in> set (net_open (mgr_net m))" "distinct (map wc_conn ps)"
    and "\<And>wid c wid' c'. (wid, c) \<in> set (mgr_workers m) \<Longrightarrow> (wid', c') \<in> set (mgr_workers m) \<Longrightarrow>
        wc_conn c = wc_conn c' \<Longrightarrow> wid = wid'"
    and "\<And>wid c c'. (wid, c) \<in> set (mgr_workers m) \<Longrightarrow> c' \<in> set ps \<Longrightarrow> wc_conn c \<noteq> wc_conn c'"
  shows "mgr_inv (m, ps, qs)"
  unfolding mgr_inv_def using assms by simp

lemma mgr_inv_parts:
  assumes "mgr_inv (m, ps, qs)"
  shows "gomap_ok (mgr_workers m)" "net_ok (mgr_net m)" "distinct (map wc_conn ps)"
    and "c \<in> set ps \<Longrightarrow> wc_conn c \<in> set (net_open (mgr_net m))"
    and "(wid, c) \<in> set (mgr_workers m) \<Longrightarrow> (wid', c') \<in> set (mgr_workers m) \<Longrightarrow>
        wc_conn c = wc_conn c' \<Longrightarrow> wid = wid'"
    and "(wid, c) \<in> set (mgr_workers m) \<Longrightarrow> c' \<in> set ps \<Longrightarrow> wc_conn c \<noteq> wc_conn c'"
  using assms unfolding mgr_inv_def prod.case by blast+

lemma mgr_inv_workerD:
  "mgr_inv (m, ps, qs) \<Longrightarrow> (wid, c) \<in> set (mgr_workers m) \<Longrightarrow>
   wc_id c = wid \<and> wc_conn c \<in> set (net_open (mgr_net m)) \<and> (c \<in> set (mgr_loops m) \<or> c \<in> set qs)"
  by (simp add: mgr_inv_def)

lemma AddWorker_connect_frame:
  assumes "AddWorker_connect E cfg m = (r, m')" and "net_ok (mgr_net m)"
  shows "\<exists>n. m' = m\<lparr>mgr_net := n\<rparr> \<and> net_ok n \<and>
    (case r of Inl _ \<Rightarrow> set (net_open n) = set (net_open (mgr_net m))
     | Inr c \<Rightarrow> go_get (mgr_workers m) (cfg_ID cfg) = None \<and>
         c = \<lparr>wc_id = cfg_ID cfg, wc_addr = cfg_Addr cfg, wc_conn = net_next (mgr_net m)\<rparr> \<and>
         net_open n = net_next (mgr_net m) # net_open (mgr_net m) \<and>
         net_next n = Suc (net_next (mgr_net m)))"
proof (cases "go_get (mgr_workers m) (cfg_ID cfg)")
  case (Some c)
  with assms show ?thesis by (auto simp: AddWorker_connect_def intro!: exI [of _ "mgr_net m"])
next
  case None
  let ?n = "mgr_net m"
  show ?thesis
  proof (cases "env_dial E (cfg_Addr cfg)")
    case (Some e)
    with assms None show ?thesis
      by (auto simp: AddWorker_connect_def wc_New_def intro!: exI [of _ "mgr_net m"])
  next
    case dial: None
    let ?c = "\<lparr>wc_id = cfg_ID cfg, wc_addr = cfg_Addr cfg, wc_conn = net_next ?n\<rparr>"
    let ?n1 = "?n\<lparr>net_open := net_next ?n # net_open ?n, net_next := Suc (net_next ?n)\<rparr>"
    have "net_ok ?n1" using assms(2) by (auto simp: net_ok_def)
    obtain h n2 where h: "wc_Health ?c ?n1 = (h, n2)" by (cases "wc_Health ?c ?n1")
    have n2: "net_ok n2" "net_open n2 = net_next ?n # net_open ?n" "net_next n2 = Suc (net_next ?n)"
      using net_ok_Health [OF \<open>net_ok ?n1\<close>, of ?c] wc_conns(4,5) [of ?c ?n1] h by simp_all
    have fresh: "net_next ?n \<notin> set (net_open ?n)" using assms(2) by (auto simp: net_ok_def)
    show ?thesis
    proof (cases h)
      case None
      with assms(1) \<open>go_get (mgr_workers m) (cfg_ID cfg) = None\<close> dial h n2 show ?thesis
        by (auto simp: AddWorker_connect_def wc_New_def intro!: exI [of _ n2])
    next
      case (Some e)
      have "set (net_open (wc_Close ?c n2)) = set (net_open ?n)" using n2 fresh by (auto simp: wc_Close_def)
      with assms(1) \<open>go_get (mgr_workers m) (cfg_ID cfg) = None\<close> dial h Some net_ok_Close [OF n2(1), of ?c]
      show ?thesis by (auto simp: AddWorker_connect_def wc_New_def intro!: exI [of _ "wc_Close ?c n2"])
    qed
  qed
qed

lemma mgr_inv_frame:
  assumes inv: "mgr_inv (m, ps, qs)" and "mgr_workers m' = mgr_workers m" "net_ok (mgr_net m')"
    and opn: "set (net_open (mgr_net m)) \<subseteq> set (net_open (mgr_net m'))"
    and loops: "set (mgr_loops m) \<union> set qs \<subseteq> set (mgr_loops m') \<union> set qs'"
  shows "mgr_inv (m', ps, qs')"
proof (rule mgr_invI, unfold assms(2))
  note P = mgr_inv_parts [OF inv] and W = mgr_inv_workerD [OF inv]
  show "wc_id c = wid \<and> wc_conn c \<in> set (net_open (mgr_net m')) \<and> (c \<in> set (mgr_loops m') \<or> c \<in> set qs')"
    if "(wid, c) \<in> set (mgr_workers m)" for wid c
    using W [OF that] opn loops by blast
  show "wc_conn c \<in> set (net_open (mgr_net m'))" if "c \<in> set ps" for c
    using P(4) [OF that] opn by blast
qed (use assms(3) mgr_inv_parts(1,3) [OF inv] in \<open>simp_all add: mgr_inv_parts(5,6) [OF inv]\<close>)

lemma net_ok_fresh: "net_ok n \<Longrightarrow> k \<in> set (net_open n) \<Longrightarrow> k \<noteq> net_next n"
  by (auto simp: net_ok_def)

lemma mgr_inv_connect:
  assumes inv: "mgr_inv (m, ps, qs)" and conn: "AddWorker_connect E cfg m = (r, m')"
  shows "mgr_inv (m', case r of Inl _ \<Rightarrow> ps | Inr c \<Rightarrow> c # ps, qs)"
proof -
  note P = mgr_inv_parts [OF inv] and W = mgr_inv_workerD [OF inv]
  obtain n where n: "m' = m\<lparr>mgr_net := n\<rparr>" "net_ok n"
    and r: "case r of Inl _ \<Rightarrow> set (net_open n) = set (net_open (mgr_net m))
     | Inr c \<Rightarrow> go_get (mgr_workers m) (cfg_ID cfg) = None \<and>
         c = \<lparr>wc_id = cfg_ID cfg, wc_addr = cfg_Addr cfg, wc_conn = net_next (mgr_net m)\<rparr> \<and>
         net_open n = net_next (mgr_net m) # net_open (mgr_net m) \<and>
         net_next n = Suc (net_next (mgr_net m))"
    using AddWorker_connect_frame [OF conn P(2)] by blast
  show ?thesis
  proof (cases r)
    case (Inl e)
    with r have "set (net_open n) = set (net_open (mgr_net m))" by simp
    with Inl n show ?thesis by (auto intro: mgr_inv_frame [OF inv])
  next
    case (Inr c)
    with r have c: "wc_conn c = net_next (mgr_net m)" "set (net_open n) = insert (wc_conn c) (set (net_open (mgr_net m)))"
      by simp_all
    have fresh: "wc_conn x \<noteq> wc_conn c" if "wc_conn x \<in> set (net_open (mgr_net m))" for x :: wclient
      using net_ok_fresh [OF P(2) that] c(1) by simp
    show ?thesis unfolding n Inr sum.case
    proof (rule mgr_invI, goal_cases)
      case (4 x)
      then show ?case using P(4) c(2) by auto
    next
      case 5
      have "wc_conn c \<notin> set (map wc_conn ps)" using fresh P(4) by fastforce
      then show ?case using P(3) by simp
    next
      case (3 wid x)
      then show ?case using W c(2) by simp
    next
      case (6 wid x wid' x')
      then show ?case by (simp add: P(5))
    next
      case (7 wid x y)
      then have "(wid, x) \<in> set (mgr_workers m)" "y = c \<or> y \<in> set ps" by simp_all
      then show ?case using W fresh P(6) by blast
    qed (use P(1) n(2) in simp_all)
  qed
qed

lemma mgr_inv_insert:
  assumes inv: "mgr_inv (m, ps, qs)" and c: "c \<in> set ps"
  shows "mgr_inv (AddWorker_insert c m, remove1 c ps, c # qs)"
proof -
  note P = mgr_inv_parts [OF inv] and W = mgr_inv_workerD [OF inv]
  have ps: "x \<in> set ps" "wc_conn x \<noteq> wc_conn c" if "x \<in> set (remove1 c ps)" for x
  proof -
    have "distinct ps" using P(3) by (simp add: distinct_map)
    with that have "x \<in> set ps" "x \<noteq> c" by simp_all
    then show "x \<in> set ps" "wc_conn x \<noteq> wc_conn c" using P(3) c by (auto simp: distinct_map inj_on_def)
  qed
  show ?thesis
  proof (rule mgr_invI, goal_cases)
    case (3 wid x)
    then show ?case using W P(4) [OF c]
      by (auto simp: AddWorker_insert_def go_put_mem [OF P(1)] split: if_splits)
  next
    case (4 x)
    then show ?case using ps(1) P(4) by (simp add: AddWorker_insert_def)
  next
    case 5
    show ?case using P(3) unfolding distinct_map
      by (meson distinct_remove1 inj_on_subset set_remove1_subset)
  next
    case (6 wid x wid' x')
    have other: "wc_conn y \<noteq> wc_conn c" if "(w, y) \<in> set (mgr_workers m)" for w y
      using P(6) [OF that c] .
    from 6 show ?case using P(5) other
      by (simp add: AddWorker_insert_def go_put_mem [OF P(1)] split: if_splits) blast+
  next
    case (7 wid x y)
    then show ?case using P(6) ps
      by (simp add: AddWorker_insert_def go_put_mem [OF P(1)] split: if_splits) metis+
  qed (use P in \<open>simp_all add: AddWorker_insert_def\<close>)
qed

lemma publish_fields [simp]:
  "mgr_workers (AddWorker_publish c m) = mgr_workers m" "mgr_net (AddWorker_publish c m) = mgr_net m"
  "mgr_loops (AddWorker_publish c m) = c # mgr_loops m" "mgr_ready_set (AddWorker_publish c m) = mgr_ready_set m"
  "mgr_store (AddWorker_publish c m) =
     map_option (\<lambda>t. snd (wr_Upsert (wc_id c) (wc_addr c) t)) (mgr_store m)"
  "mgr_ready_calls (AddWorker_publish c m) =
     (if mgr_ready_set m then wc_id c # mgr_ready_calls m else mgr_ready_calls m)"
  by (simp_all add: AddWorker_publish_def Let_def)

lemma mgr_inv_publish:
  assumes inv: "mgr_inv (m, ps, qs)"
  shows "mgr_inv (AddWorker_publish c m, ps, remove1 c qs)"
proof -
  have "x \<in> set qs \<Longrightarrow> x = c \<or> x \<in> set (remove1 c qs)" for x by (cases "x = c") simp_all
  then show ?thesis using mgr_inv_parts(2) [OF inv] by (intro mgr_inv_frame [OF inv]) auto
qed

lemma mgr_inv_remove:
  assumes inv: "mgr_inv (m, ps, qs)"
  shows "mgr_inv (snd (RemoveWorker wid m), ps, qs)"
proof (cases "go_get (mgr_workers m) wid")
  case (Some c)
  note P = mgr_inv_parts [OF inv] and W = mgr_inv_workerD [OF inv]
  have c: "(wid, c) \<in> set (mgr_workers m)" using Some by (rule go_get_in_set)
  let ?m = "snd (RemoveWorker wid m)"
  have m: "mgr_workers ?m = go_del wid (mgr_workers m)" "mgr_loops ?m = mgr_loops m"
    "mgr_net ?m = wc_Close c (mgr_net m)" using Some by (simp_all add: RemoveWorker_def)
  have opn: "k \<in> set (net_open (mgr_net ?m)) \<longleftrightarrow> k \<in> set (net_open (mgr_net m)) \<and> k \<noteq> wc_conn c" for k
    by (auto simp: m wc_Close_def)
  show ?thesis
  proof (rule mgr_invI, goal_cases)
    case (3 w x)
    then have x: "(w, x) \<in> set (mgr_workers m)" "w \<noteq> wid" by (simp_all add: m go_del_mem)
    then have "wc_conn x \<noteq> wc_conn c" using P(5) [OF x(1) c] by blast
    then show ?case using W [OF x(1)] by (simp add: opn m(2))
  next
    case (4 x)
    then show ?case using P(4,6) c unfolding opn by metis
  qed (use P in \<open>auto simp: m go_del_mem net_ok_Close\<close>)
qed (use inv in \<open>simp add: RemoveWorker_def\<close>)

lemma mgr_inv_step: "mgr_step E C C' \<Longrightarrow> mgr_inv C \<Longrightarrow> mgr_inv C'"
proof (induction rule: mgr_step.induct)
  case (net_moves m n ps qs)
  then show ?case
    using net_step_frame [OF net_moves(1)] mgr_inv_parts(2) [OF net_moves(2)]
    by (intro mgr_inv_frame [OF net_moves(2)]) simp_all
next
  case (sets_ready m ps qs)
  then show ?case by (simp add: mgr_inv_def SetOnWorkerReady_def)
qed (simp_all add: mgr_inv_connect mgr_inv_insert mgr_inv_publish mgr_inv_remove)

lemma mgr_reach_inv: "mgr_reach E C \<Longrightarrow> mgr_inv C"
proof (induction rule: mgr_reach.induct)
  case (start store w)
  show ?case by (simp add: mgr_inv_def NewManager_def net_ok_def)
qed (rule mgr_inv_step)

section \<open>Restoring registrations\<close>

lemma wt_exec_ok: "wt_faults t = [] \<Longrightarrow> wt_exec stmt t = (None, t\<lparr>wt_rows := stmt (wt_rows t)\<rparr>)"
  by (cases t) (simp add: wt_exec_def)

lemma wr_Upsert_ok: "wt_faults t = [] \<Longrightarrow> wr_Upsert wid addr t = (None, t\<lparr>wt_rows := go_put wid addr (wt_rows t)\<rparr>)"
  by (simp add: wr_Upsert_def wt_exec_ok)

text \<open>Registering a worker that answers, over a quiet network and a working database.\<close>

lemma wc_Health_quiet:
  assumes "net_wire n = []" "wc_conn c \<in> set (net_open n)" "net_nodes n (wc_addr c) = Some s"
  shows "wc_Health c n = (None, n)"
proof -
  have "wc_call c (\<lambda>s. (Inr (srv_Health s), s)) n = (Inr (srv_Health s), n)"
    using assms by (simp add: wc_call_delivered fun_upd_idem)
  then show ?thesis by (simp add: wc_Health_def srv_Health_def)
qed

lemma AddWorker_quiet:
  assumes "go_get (mgr_workers m) wid = None" "env_dial E addr = None"
    and "net_wire (mgr_net m) = []" "net_nodes (mgr_net m) addr = Some s"
    and "c = \<lparr>wc_id = wid, wc_addr = addr, wc_conn = net_next (mgr_net m)\<rparr>"
  obtains n where "AddWorker E \<lparr>cfg_ID = wid, cfg_Addr = addr\<rparr> m =
      (None, AddWorker_publish c (AddWorker_insert c (m\<lparr>mgr_net := n\<rparr>)))"
    "net_wire n = []" "net_nodes n = net_nodes (mgr_net m)"
proof -
  let ?n = "(mgr_net m)\<lparr>net_open := net_next (mgr_net m) # net_open (mgr_net m),
      net_next := Suc (net_next (mgr_net m))\<rparr>"
  have "wc_Health c ?n = (None, ?n)" using assms(3-5) by (intro wc_Health_quiet [where s = s]) simp_all
  with assms show thesis
    by (intro that [of ?n]) (simp_all add: AddWorker_def AddWorker_connect_def wc_New_def)
qed

text \<open>
  The managers \<open>m\<close> and \<open>m'\<close> before and after the entries \<open>es\<close> are restored: registry and table
  are overridden by \<open>es\<close>, and without a callback none is started.
\<close>

definition worker_addrs :: "'c manager \<Rightarrow> string \<Rightarrow> string option" where
  "worker_addrs m wid = map_option wc_addr (go_get (mgr_workers m) wid)"

definition stored_addrs :: "'c manager \<Rightarrow> (string \<Rightarrow> string option) option" where
  "stored_addrs m = map_option (\<lambda>t. go_get (wt_rows t)) (mgr_store m)"

definition registry_restored :: "(string \<times> string) list \<Rightarrow> 'c manager \<Rightarrow> 'c manager \<Rightarrow> bool" where
  "registry_restored es m m' \<longleftrightarrow> worker_addrs m' = worker_addrs m ++ go_get es \<and>
     stored_addrs m' = map_option (\<lambda>f. f ++ go_get es) (stored_addrs m) \<and>
     (mgr_ready_set m' \<longleftrightarrow> mgr_ready_set m) \<and> (mgr_ready_set m \<or> mgr_ready_calls m' = mgr_ready_calls m)"

lemma registry_restored_trans: "registry_restored es m m1 \<Longrightarrow> registry_restored es' m1 m2 \<Longrightarrow> registry_restored (es' @ es) m m2"
  by (auto simp: registry_restored_def map_add_assoc option.map_comp comp_def)

lemma restore_entries_quiet:
  assumes "gomap_ok es" "\<And>wid addr. (wid, addr) \<in> set es \<Longrightarrow>
      go_get (mgr_workers m) wid = None \<and> env_dial E addr = None \<and> net_nodes (mgr_net m) addr \<noteq> None"
    and "net_wire (mgr_net m) = []" "mgr_store m = Some t" "wt_faults t = []"
  shows "\<exists>m'. restore_entries E es k m = (k + length es, m') \<and> registry_restored es m m'"
  using assms
proof (induction es arbitrary: k m t)
  case (Cons e es)
  obtain wid addr where e: "e = (wid, addr)" by (cases e)
  let ?c = "\<lparr>wc_id = wid, wc_addr = addr, wc_conn = net_next (mgr_net m)\<rparr>"
  obtain s where s: "net_nodes (mgr_net m) addr = Some s" "go_get (mgr_workers m) wid = None" "env_dial E addr = None"
    using Cons.prems(2) [of wid addr] e by auto
  obtain n where add: "AddWorker E \<lparr>cfg_ID = wid, cfg_Addr = addr\<rparr> m =
      (None, AddWorker_publish ?c (AddWorker_insert ?c (m\<lparr>mgr_net := n\<rparr>)))"
    and n: "net_wire n = []" "net_nodes n = net_nodes (mgr_net m)"
    using AddWorker_quiet [OF s(2,3) Cons.prems(3) s(1) refl] by blast
  let ?m = "AddWorker_publish ?c (AddWorker_insert ?c (m\<lparr>mgr_net := n\<rparr>))"
  let ?t = "t\<lparr>wt_rows := go_put wid addr (wt_rows t)\<rparr>"
  have m: "mgr_workers ?m = go_put wid ?c (mgr_workers m)" "mgr_net ?m = n" "mgr_store ?m = Some ?t"
    "mgr_ready_set ?m = mgr_ready_set m" "mgr_ready_set m \<or> mgr_ready_calls ?m = mgr_ready_calls m"
    using Cons.prems(4,5) by (simp_all add: AddWorker_insert_def wr_Upsert_ok)
  have first: "registry_restored [e] m ?m"
    using m Cons.prems(4) e by (auto simp: registry_restored_def worker_addrs_def stored_addrs_def fun_eq_iff map_add_def)
  have notin: "(wid, a) \<notin> set es" for a using Cons.prems(1) e by force
  have "\<exists>m'. restore_entries E es (Suc k) ?m = (Suc k + length es, m') \<and> registry_restored es ?m m'"
  proof (rule Cons.IH [where t = ?t])
    show "gomap_ok es" using Cons.prems(1) by simp
    show "go_get (mgr_workers ?m) w = None \<and> env_dial E a = None \<and> net_nodes (mgr_net ?m) a \<noteq> None"
      if "(w, a) \<in> set es" for w a
      using Cons.prems(2) [of w a] that notin [of a] n m(1,2) by (cases "w = wid") simp_all
  qed (use n m(2,3) Cons.prems(5) in simp_all)
  then obtain m' where R: "restore_entries E es (Suc k) ?m = (Suc k + length es, m')" "registry_restored es ?m m'" by blast
  have "go_get es wid = None" using notin by (auto simp: map_of_eq_None_iff)
  then have "go_get (es @ [e]) = go_get (e # es)" using e by (auto simp: fun_eq_iff map_add_def split: option.splits)
  then have "registry_restored (e # es) m m'" using registry_restored_trans [OF first R(2)] by (simp add: registry_restored_def)
  then show ?case using R(1) add e by simp
qed (simp add: registry_restored_def option.map_ident)

section \<open>The waits of the subscribe loop\<close>

lemma subscribeLoop_waits:
  assumes "subscribeLoop c (min (2 ^ k) 32 * Second) as = (calls, waits, ret)"
  shows "waits = map (\<lambda>i. min (2 ^ (k + i)) 32 * Second) [0..<length waits]"
  using assms
proof (induction as arbitrary: k calls waits ret)
  case (Cons a as)
  let ?b = "min (2 ^ k) 32 * Second"
  have double: "(if ?b < 30 * Second then ?b * 2 else ?b) = min (2 ^ Suc k) 32 * Second"
  proof (cases "k < 5")
    case True
    then have "k = 0 \<or> k = 1 \<or> k = 2 \<or> k = 3 \<or> k = 4" by linarith
    then show ?thesis by (auto simp: Second_def)
  next
    case False
    then have "(2::int) ^ 5 \<le> 2 ^ k" by (intro power_increasing) simp_all
    then show ?thesis by (simp add: Second_def min_def)
  qed
  obtain us r where sub: "wc_Subscribe c (at_open a) (at_events a) = (us, r)"
    by (cases "wc_Subscribe c (at_open a) (at_events a)")
  define b b' where b: "b = ?b" and b': "b' = min (2 ^ Suc k) 32 * Second"
  have next_b: "(if b < 30 * Second then b * 2 else b) = b'" using double by (simp only: b b')
  have "subscribeLoop c b (a # as) = (calls, waits, ret)" using Cons.prems by (simp only: b)
  then consider (stop) "waits = []" | (last) "waits = [b]"
    | (eof) calls' where "subscribeLoop c b as = (calls', waits, ret)"
    | (retry) calls' ws where "subscribeLoop c b' as = (calls', ws, ret)" "waits = b # ws"
    unfolding subscribeLoop.simps sub Let_def next_b
    by (auto split: if_splits option.splits prod.splits)
  then show ?case
  proof cases
    case (retry calls' ws)
    have "map (\<lambda>i. min (2 ^ (k + i)) 32 * Second) [0..<length waits] =
        b # map (\<lambda>i. min (2 ^ (Suc k + i)) 32 * Second) [0..<length ws]"
      by (simp add: b retry(2) upt_conv_Cons map_Suc_upt [symmetric] comp_def del: upt_Suc)
    with Cons.IH [OF retry(1) [unfolded b']] retry(2) show ?thesis by metis
  next
    case (eof calls')
    then show ?thesis unfolding b by (rule Cons.IH)
  qed (simp_all add: b)
qed simp

text \<open>The updates one stream yields before its first end or error.\<close>

fun leading_updates :: "recv_event list \<Rightarrow> TelegramUpdate list" where
  "leading_updates (RecvUpdate u # evs) = u # leading_updates evs"
| "leading_updates _ = []"

definition stream_updates :: "attempt \<Rightarrow> TelegramUpdate list" where
  "stream_updates a = (case at_open a of Some _ \<Rightarrow> [] | None \<Rightarrow> leading_updates (at_events a))"

lemma recv_loop_calls: "fst (recv_loop wid evs) = map (Pair wid) (leading_updates evs)"
  by (induction wid evs rule: recv_loop.induct) (simp_all add: split_beta Let_def)

lemma Subscribe_calls: "wc_Subscribe c (at_open a) (at_events a) = (calls, r) \<Longrightarrow> calls = map (Pair (wc_id c)) (stream_updates a)"
  using recv_loop_calls [of "wc_id c" "at_events a"]
  by (auto simp: wc_Subscribe_def stream_updates_def split: option.splits)

lemma subscribeLoop_calls:
  "prefix (fst (subscribeLoop c b as)) (map (Pair (wc_id c)) (concat (map stream_updates as)))"
proof (induction as arbitrary: b)
  case (Cons a as)
  obtain us r where sub: "wc_Subscribe c (at_open a) (at_events a) = (us, r)"
    by (cases "wc_Subscribe c (at_open a) (at_events a)")
  note us = Subscribe_calls [OF sub]
  have "\<exists>b'. fst (subscribeLoop c b (a # as)) \<in> {[], us, us @ fst (subscribeLoop c b' as)}"
  proof (cases r)
    case (Some err)
    then show ?thesis by (cases err) (simp_all add: sub split_beta Let_def, blast+)
  qed (simp add: sub)
  then show ?case using Cons.IH us by (auto simp del: subscribeLoop.simps)
qed simp

section \<open>A small cluster\<close>

text \<open>Two workers; the first has one mock account session, registered through the manager.\<close>

definition mock_env :: "mockClient env" where
  "mock_env = \<lparr>env_dial = (\<lambda>_. None), env_factory = (\<lambda>_. mock_factory), env_ifc = mock_iface, env_now = int\<rparr>"

definition mock_node :: "string \<Rightarrow> mockClient server" where
  "mock_node wid = NewWorkerServer wid (NewPool None True)"

definition mock_net :: "mockClient net" where
  "mock_net = \<lparr>net_nodes = [''h1'' \<mapsto> mock_node ''w1'', ''h2'' \<mapsto> mock_node ''w2''], net_wire = [],
     net_open = [], net_next = 0\<rparr>"

definition mock_table :: worker_table where
  "mock_table = \<lparr>wt_rows = [(''w2'', ''h2''), (''w1'', ''h1'')], wt_faults = []\<rparr>"

definition mock_mgr0 :: "mockClient manager" where
  "mock_mgr0 = NewManager (Some mock_table) mock_net"

definition mock_client :: "string \<Rightarrow> string \<Rightarrow> nat \<Rightarrow> wclient" where
  "mock_client wid addr k = \<lparr>wc_id = wid, wc_addr = addr, wc_conn = k\<rparr>"

abbreviation mock_register :: "wclient \<Rightarrow> mockClient manager \<Rightarrow> mockClient manager" where
  "mock_register c m \<equiv> AddWorker_publish c (AddWorker_insert c m)"

definition mock_mgr1 :: "mockClient manager" where
  "mock_mgr1 = snd (AddWorker mock_env \<lparr>cfg_ID = ''w1'', cfg_Addr = ''h1''\<rparr> mock_mgr0)"

definition mock_mgr2 :: "mockClient manager" where
  "mock_mgr2 = snd (AddWorker mock_env \<lparr>cfg_ID = ''w2'', cfg_Addr = ''h2''\<rparr> mock_mgr1)"

definition mock_mgr :: "mockClient manager" where
  "mock_mgr = mock_mgr2\<lparr>mgr_net := snd (wc_AddAccount mock_env (mock_client ''w1'' ''h1'' 0) ''a'' ''+1'' (mgr_net mock_mgr2))\<rparr>"

lemmas cluster_eval = mock_env_def mock_node_def mock_net_def mock_table_def mock_mgr0_def mock_client_def
  NewManager_def AddWorker_def AddWorker_connect_def wc_New_def wc_Health_def wc_call_def srv_Health_def
  AddWorker_insert_def AddWorker_publish_def wr_Upsert_def wt_exec_def wc_AddAccount_def srv_AddAccount_def
  Pool_Add_def

lemma mgr_reach_AddWorker:
  assumes "mgr_reach E (m, ps, qs)" and "AddWorker_connect E cfg m = (Inr c, m')"
  shows "mgr_reach E (AddWorker_publish c (AddWorker_insert c m'), ps, qs)"
proof -
  have "mgr_step E (m, ps, qs) (m', c # ps, qs)" using connects [OF assms(2), of ps qs] by simp
  moreover have "mgr_step E (m', c # ps, qs) (AddWorker_insert c m', ps, c # qs)"
    using inserts [of c "c # ps" E m' qs] by simp
  moreover have "mgr_step E (AddWorker_insert c m', ps, c # qs) (AddWorker_publish c (AddWorker_insert c m'), ps, qs)"
    using publishes [of c "c # qs" E "AddWorker_insert c m'" ps] by simp
  ultimately show ?thesis using assms(1) by (metis mgr_reach.step)
qed

lemma mgr_reach_AddWorker_ok:
  assumes "mgr_reach E (m, ps, qs)" and "AddWorker E cfg m = (None, m')"
  shows "mgr_reach E (m', ps, qs)"
proof -
  obtain c m1 where "AddWorker_connect E cfg m = (Inr c, m1)"
    using assms(2) by (auto simp: AddWorker_def split: prod.splits sum.splits)
  with mgr_reach_AddWorker [OF assms(1) this] assms(2) show ?thesis by (simp add: AddWorker_def)
qed

lemma mock_mgr0_reach: "mgr_reach mock_env (mock_mgr0, [], [])"
proof -
  let ?n0 = "\<lparr>net_nodes = Map.empty, net_wire = [], net_open = [], net_next = 0\<rparr> :: mockClient net"
  let ?n1 = "?n0\<lparr>net_nodes := [''h1'' \<mapsto> mock_node ''w1'']\<rparr>"
  have "mgr_reach mock_env (NewManager (Some mock_table) ?n0, [], [])" by (rule mgr_reach.start)
  then have "mgr_reach mock_env ((NewManager (Some mock_table) ?n0)\<lparr>mgr_net := ?n1\<rparr>, [], [])"
    by (rule mgr_reach.step [OF _ net_moves])
      (use node_starts [of mock_env ?n0 "''h1''" "''w1''" True] in \<open>simp add: NewManager_def mock_node_def\<close>)
  then have "mgr_reach mock_env
      ((NewManager (Some mock_table) ?n0)\<lparr>mgr_net := ?n1\<rparr>\<lparr>mgr_net := mock_net\<rparr>, [], [])"
    by (rule mgr_reach.step [OF _ net_moves])
      (use node_starts [of mock_env ?n1 "''h2''" "''w2''" True] in \<open>simp add: NewManager_def mock_net_def mock_node_def\<close>)
  then show ?thesis by (simp add: mock_mgr0_def NewManager_def)
qed

lemma mock_mgr2_eq:
  "mock_mgr2 = \<lparr>mgr_workers = [(''w1'', mock_client ''w1'' ''h1'' 0), (''w2'', mock_client ''w2'' ''h2'' 1)],
     mgr_ready_set = False, mgr_store = Some mock_table,
     mgr_loops = [mock_client ''w2'' ''h2'' 1, mock_client ''w1'' ''h1'' 0], mgr_ready_calls = [],
     mgr_net = mock_net\<lparr>net_open := [1, 0], net_next := 2\<rparr>\<rparr>"
  unfolding mock_mgr2_def mock_mgr1_def by (simp add: cluster_eval)

lemma mock_mgr2_reach: "mgr_reach mock_env (mock_mgr2, [], [])"
proof -
  have "AddWorker mock_env \<lparr>cfg_ID = ''w1'', cfg_Addr = ''h1''\<rparr> mock_mgr0 = (None, mock_mgr1)"
    "AddWorker mock_env \<lparr>cfg_ID = ''w2'', cfg_Addr = ''h2''\<rparr> mock_mgr1 = (None, mock_mgr2)"
    unfolding mock_mgr2_def mock_mgr1_def by (simp_all add: cluster_eval)
  then show ?thesis using mgr_reach_AddWorker_ok mock_mgr0_reach by metis
qed

lemma mock_mgr_reach: "mgr_reach mock_env (mock_mgr, [], [])"
  unfolding mock_mgr_def by (rule mgr_reach.step [OF mock_mgr2_reach net_moves]) (rule net_step.intros)

text \<open>The worker \<open>w1\<close> of the cluster, with its one session.\<close>

definition mock_w1 :: "mockClient server" where
  "mock_w1 = snd (srv_AddAccount mock_factory int ''a'' ''+1'' (mock_node ''w1''))"

lemma mock_mgr_eq:
  "mock_mgr = \<lparr>mgr_workers = [(''w1'', mock_client ''w1'' ''h1'' 0), (''w2'', mock_client ''w2'' ''h2'' 1)],
     mgr_ready_set = False, mgr_store = Some mock_table,
     mgr_loops = [mock_client ''w2'' ''h2'' 1, mock_client ''w1'' ''h1'' 0], mgr_ready_calls = [],
     mgr_net = \<lparr>net_nodes = [''h1'' \<mapsto> mock_w1, ''h2'' \<mapsto> mock_node ''w2''], net_wire = [],
       net_open = [1, 0], net_next = 2\<rparr>\<rparr>"
proof -
  obtain info where "srv_AddAccount mock_factory int ''a'' ''+1'' (mock_node ''w1'') = (Inr info, mock_w1)"
    unfolding mock_w1_def by (simp add: cluster_eval server_eval)
  then show ?thesis
    unfolding mock_mgr_def mock_mgr2_eq
    by (simp add: wc_AddAccount_def wc_call_def mock_env_def mock_net_def mock_client_def fun_upd_twist)
qed

lemma mock_w1_sessions: "srv_ListSessions mock_w1 =
    [\<lparr>si_SessionId = ''a'', si_Status = ''ready'', si_Type = ''account''\<rparr>]"
  "go_get (sessions (srv_pool mock_w1)) ''a'' = Some 0"
  by (simp_all add: mock_w1_def srv_ListSessions_def cluster_eval server_eval)

lemma mock_node_sessions: "srv_ListSessions (mock_node wid) = []"
  by (simp add: mock_node_def srv_ListSessions_def server_eval)

section \<open>Properties\<close>

text \<open>
  C24: load balancing. In every reachable configuration with a registered worker, and for every
  order in which the replies arrive, \<open>leastLoaded\<close> over a transport without faults returns a
  registered worker whose number of sessions is minimal; a worker that is down counts as empty.
\<close>

theorem leastLoaded_minimal:
  assumes "mgr_reach E (m, ps, qs)" and "net_wire (mgr_net m) = []" and "mgr_workers m \<noteq> []"
  shows "\<exists>wid c. fst (leastLoaded ks m) = Inr c \<and> go_get (mgr_workers m) wid = Some c \<and>
    (\<forall>wid' c'. go_get (mgr_workers m) wid' = Some c' \<longrightarrow> node_load (mgr_net m) c \<le> node_load (mgr_net m) c')"
proof -
  note inv = mgr_reach_inv [OF assms(1)]
  let ?cs = "arrange ks (map snd (mgr_workers m))"
  let ?scores = "map (\<lambda>c. (c, node_load (mgr_net m) c)) ?cs"
  have "score_clients ?cs (mgr_net m) = (?scores, mgr_net m)"
    using assms(2) by (rule score_clients_quiet) (use mgr_inv_workerD [OF inv] in fastforce)
  moreover obtain c k where c: "best_client ?scores = Inr c" "(c, k) \<in> set ?scores"
      "\<And>c' k'. (c', k') \<in> set ?scores \<Longrightarrow> k \<le> k'"
    using assms(3) by (auto intro: best_client_min [of ?scores])
  ultimately have "fst (leastLoaded ks m) = Inr c" using assms(3) by (simp add: leastLoaded_def)
  moreover obtain wid where "(wid, c) \<in> set (mgr_workers m)" using c(2) by auto
  moreover have "node_load (mgr_net m) c \<le> node_load (mgr_net m) c'" if "(wid', c') \<in> set (mgr_workers m)" for wid' c'
    using c(2) c(3) [of c' "node_load (mgr_net m) c'"] that by force
  ultimately show ?thesis
    using mgr_inv_parts(1) [OF inv] by (metis go_get_Some_iff)
qed

theorem leastLoaded_minimal_witness:
  "fst (leastLoaded [] mock_mgr) = Inr (mock_client ''w2'' ''h2'' 1)"
proof -
  have load: "node_load (mgr_net mock_mgr) (mock_client ''w1'' ''h1'' 0) = 1"
    "node_load (mgr_net mock_mgr) (mock_client ''w2'' ''h2'' 1) = 0"
    by (simp_all add: node_load_def mock_mgr_eq mock_client_def mock_w1_sessions mock_node_sessions)
  have w: "go_get (mgr_workers mock_mgr) wid = Some c \<longleftrightarrow>
      (wid, c) = (''w1'', mock_client ''w1'' ''h1'' 0) \<or> (wid, c) = (''w2'', mock_client ''w2'' ''h2'' 1)" for wid c
    by (auto simp: mock_mgr_eq)
  obtain wid c where c: "fst (leastLoaded [] mock_mgr) = Inr c" "go_get (mgr_workers mock_mgr) wid = Some c"
    "\<forall>wid' c'. go_get (mgr_workers mock_mgr) wid' = Some c' \<longrightarrow>
       node_load (mgr_net mock_mgr) c \<le> node_load (mgr_net mock_mgr) c'"
    using leastLoaded_minimal [OF mock_mgr_reach, of "[]"] by (auto simp: mock_mgr_eq)
  then show ?thesis using load by (fastforce simp: w)
qed

text \<open>
  C23: draining a worker. Whatever the transport does, a drain that gets past the listing accounts
  for every session the worker listed, as migrated or as failed with one error entry each, in
  the order of the listing; the worker is then unregistered (the final removal cannot fail) and
  no other registration changes.
\<close>

theorem DrainWorker_accounting:
  assumes "DrainWorker E sched wid m = (Inr (res, err), m')"
  shows "\<exists>target s. go_get (mgr_workers m) wid = Some target \<and> net_nodes (mgr_net m) (wc_addr target) = Some s \<and>
    dr_Migrated res + dr_Failed res = length (srv_ListSessions s) \<and>
    length (dr_Errors res) = dr_Failed res \<and>
    subseq (map se_SessionID (dr_Errors res)) (map si_SessionId (srv_ListSessions s)) \<and>
    err = None \<and> go_get (mgr_workers m') = (go_get (mgr_workers m))(wid := None)"
proof -
  obtain target where target: "go_get (mgr_workers m) wid = Some target"
    using assms by (auto simp: DrainWorker_def split: option.splits)
  obtain r n1 where ls: "wc_ListSessions target (mgr_net m) = (r, n1)" by (cases "wc_ListSessions target (mgr_net m)")
  then obtain infos where infos: "r = Inr infos"
    using assms target by (auto simp: DrainWorker_def split: sum.splits prod.splits)
  obtain s where s: "net_nodes (mgr_net m) (wc_addr target) = Some s" "infos = srv_ListSessions s"
    using ls unfolding wc_ListSessions_def by (cases rule: wc_call_cases) (auto simp: infos)
  let ?z = "\<lparr>dr_Migrated = 0, dr_Failed = 0, dr_Errors = []\<rparr>"
  obtain res2 m2 where loop: "drain_loop E sched wid target infos (?z, m\<lparr>mgr_net := n1\<rparr>) = (res2, m2)"
    by (cases "drain_loop E sched wid target infos (?z, m\<lparr>mgr_net := n1\<rparr>)")
  note counts = drain_loop_counts [OF loop]
  have "go_get (mgr_workers m2) wid = Some target" using counts target by simp
  then have "err = None" "res = res2" "mgr_workers m' = go_del wid (mgr_workers m)"
    using assms target ls infos loop counts by (auto simp: DrainWorker_def RemoveWorker_def)
  with counts target s show ?thesis by (simp add: fun_upd_def)
qed

text \<open>The outcome of a drain of the small cluster: the account moves to the second worker.\<close>

theorem DrainWorker_accounting_witness:
  "\<exists>res m'. DrainWorker mock_env (\<lambda>_. []) ''w1'' mock_mgr = (Inr (res, None), m') \<and>
     dr_Migrated res + dr_Failed res = 1 \<and> go_get (mgr_workers m') ''w1'' = None"
proof -
  have "\<exists>x m'. DrainWorker mock_env (\<lambda>_. []) ''w1'' mock_mgr = (Inr x, m')"
    by (simp add: DrainWorker_def wc_ListSessions_def wc_call_def mock_mgr_eq mock_client_def split_beta Let_def)
  then obtain res err m' where "DrainWorker mock_env (\<lambda>_. []) ''w1'' mock_mgr = (Inr (res, err), m')" by auto
  from this DrainWorker_accounting [OF this] show ?thesis
    by (auto simp: mock_mgr_eq mock_client_def mock_w1_sessions)
qed

text \<open>
  C5: no drain loses a session. In every reachable configuration, whatever messages are lost,
  a session that some running worker has before a drain is on some running worker after it: a
  session is removed from its worker only after another worker has confirmed it.
\<close>

theorem drain_keeps_sessions:
  assumes "mgr_reach E (m, ps, qs)" and "hosted (mgr_net m) sid" and "DrainWorker E sched wid m = (r, m')"
  shows "hosted (mgr_net m') sid"
proof (cases "go_get (mgr_workers m) wid")
  case None
  with assms show ?thesis by (simp add: DrainWorker_def)
next
  case (Some target)
  have ok: "net_ok (mgr_net m)" using mgr_reach_inv [OF assms(1)] by (rule mgr_inv_parts)
  obtain q n1 where ls: "wc_ListSessions target (mgr_net m) = (q, n1)" by (cases "wc_ListSessions target (mgr_net m)")
  have n1: "net_ok n1" "hosted n1 sid"
    using same_net_ListSessions [of target "mgr_net m"] ok assms(2) by (simp_all add: ls same_net_def net_ok_def hosted_def)
  show ?thesis
  proof (cases q)
    case (Inl e)
    with assms(3) Some ls n1 show ?thesis by (auto simp: DrainWorker_def)
  next
    case (Inr infos)
    let ?z = "\<lparr>dr_Migrated = 0, dr_Failed = 0, dr_Errors = []\<rparr>"
    obtain res2 m2 where loop: "drain_loop E sched wid target infos (?z, m\<lparr>mgr_net := n1\<rparr>) = (res2, m2)"
      by (cases "drain_loop E sched wid target infos (?z, m\<lparr>mgr_net := n1\<rparr>)")
    have "hosted (mgr_net m2) sid" using drain_loop_hosted [OF loop, of sid] n1 by simp
    then have "hosted (mgr_net (snd (RemoveWorker wid m2))) sid"
      by (auto simp: RemoveWorker_def wc_Close_def hosted_def split: option.splits)
    then show ?thesis using assms(3) Some ls Inr loop by (simp add: DrainWorker_def split: prod.splits)
  qed
qed

theorem drain_keeps_sessions_witness:
  "hosted (mgr_net mock_mgr) ''a'' \<and> hosted (mgr_net (snd (DrainWorker mock_env (\<lambda>_. []) ''w1'' mock_mgr))) ''a''"
proof -
  have "hosted (mgr_net mock_mgr) ''a''"
    by (rule hosted_at [of _ "''h1''" mock_w1]) (simp_all add: mock_mgr_eq mock_w1_sessions)
  with drain_keeps_sessions [OF mock_mgr_reach this prod.collapse [symmetric], of "\<lambda>_. []" "''w1''"]
  show ?thesis by simp
qed

text \<open>
  C13: the registry under interleaving. However registrations, removals, routed calls and node
  failures interleave, every registered client is filed under its own identifier, holds an open
  connection that no other registered worker shares, and its subscribe loop has been started or
  is about to be by the registration still running.
\<close>

theorem registry_connected:
  assumes "mgr_reach E (m, ps, qs)" and "go_get (mgr_workers m) wid = Some c"
    and "go_get (mgr_workers m) wid' = Some c'"
  shows "wc_id c = wid \<and> wc_conn c \<in> set (net_open (mgr_net m)) \<and>
    (c \<in> set (mgr_loops m) \<or> c \<in> set qs) \<and> (wc_conn c = wc_conn c' \<longrightarrow> wid = wid')"
proof -
  note inv = mgr_reach_inv [OF assms(1)]
  note c = go_get_in_set [OF assms(2)] and c' = go_get_in_set [OF assms(3)]
  show ?thesis using mgr_inv_workerD [OF inv c] mgr_inv_parts(5) [OF inv c c'] by blast
qed

theorem registry_connected_witness:
  "wc_id (mock_client ''w1'' ''h1'' 0) = ''w1'' \<and>
   wc_conn (mock_client ''w1'' ''h1'' 0) \<in> set (net_open (mgr_net mock_mgr))"
  using registry_connected [OF mock_mgr_reach, of "''w1''" "mock_client ''w1'' ''h1'' 0" "''w1''"]
  by (simp add: mock_mgr_eq)

text \<open>
  \<open>AddWorker\<close> on every branch. A registered identifier is refused and nothing changes. On a
  failed dial or health check the registry and the store are as before and no connection is left
  open. On success the identifier maps to a client of the given address with an open connection,
  the other registrations are kept, and its subscribe loop is started.
\<close>

theorem AddWorker_outcomes:
  assumes "mgr_reach E (m, ps, qs)" and "AddWorker E cfg m = (err, m')"
  shows "case go_get (mgr_workers m) (cfg_ID cfg) of
      Some _ \<Rightarrow> err = Some (Errorf ''worker %q already registered'' [cfg_ID cfg]) \<and> m' = m
    | None \<Rightarrow> (case err of
        Some _ \<Rightarrow> mgr_workers m' = mgr_workers m \<and> mgr_store m' = mgr_store m \<and> mgr_loops m' = mgr_loops m \<and>
          set (net_open (mgr_net m')) = set (net_open (mgr_net m))
      | None \<Rightarrow> (\<exists>c. wc_id c = cfg_ID cfg \<and> wc_addr c = cfg_Addr cfg \<and>
          wc_conn c \<in> set (net_open (mgr_net m')) - set (net_open (mgr_net m)) \<and>
          go_get (mgr_workers m') = (go_get (mgr_workers m))(cfg_ID cfg \<mapsto> c) \<and>
          mgr_loops m' = c # mgr_loops m))"
proof (cases "go_get (mgr_workers m) (cfg_ID cfg)")
  case (Some c)
  with assms(2) show ?thesis by (simp add: AddWorker_def AddWorker_connect_def)
next
  case None
  have ok: "net_ok (mgr_net m)" using mgr_reach_inv [OF assms(1)] by (rule mgr_inv_parts)
  obtain r m1 where conn: "AddWorker_connect E cfg m = (r, m1)" by (cases "AddWorker_connect E cfg m")
  from AddWorker_connect_frame [OF conn ok] obtain n where n: "m1 = m\<lparr>mgr_net := n\<rparr>"
    and r: "case r of Inl _ \<Rightarrow> set (net_open n) = set (net_open (mgr_net m))
     | Inr c \<Rightarrow> go_get (mgr_workers m) (cfg_ID cfg) = None \<and>
         c = \<lparr>wc_id = cfg_ID cfg, wc_addr = cfg_Addr cfg, wc_conn = net_next (mgr_net m)\<rparr> \<and>
         net_open n = net_next (mgr_net m) # net_open (mgr_net m) \<and>
         net_next n = Suc (net_next (mgr_net m))" by blast
  have fresh: "net_next (mgr_net m) \<notin> set (net_open (mgr_net m))" using net_ok_fresh [OF ok] by blast
  from assms(2) None conn n r fresh show ?thesis
    by (cases r) (auto simp: AddWorker_def AddWorker_insert_def)
qed

theorem AddWorker_outcomes_witness:
  "fst (AddWorker mock_env \<lparr>cfg_ID = ''w1'', cfg_Addr = ''h9''\<rparr> mock_mgr) =
     Some (Errorf ''worker %q already registered'' [''w1'']) \<and>
   set (net_open (mgr_net (snd (AddWorker mock_env \<lparr>cfg_ID = ''w3'', cfg_Addr = ''h3''\<rparr> mock_mgr)))) = {0, 1}"
proof -
  let ?r = "AddWorker mock_env \<lparr>cfg_ID = ''w3'', cfg_Addr = ''h3''\<rparr> mock_mgr"
  have "wc_New mock_env ''w3'' ''h3'' (mgr_net mock_mgr) = (Inr (mock_client ''w3'' ''h3'' 2),
      (mgr_net mock_mgr)\<lparr>net_open := [2, 1, 0], net_next := 3\<rparr>)"
    by (simp add: wc_New_def mock_env_def mock_mgr_eq mock_client_def)
  then obtain e m' where r: "?r = (Some e, m')"
    by (simp add: AddWorker_def AddWorker_connect_def mock_mgr_eq wc_Health_def wc_call_def mock_client_def)
  have w: "go_get (mgr_workers mock_mgr) ''w3'' = None" "set (net_open (mgr_net mock_mgr)) = {0, 1}"
    "go_get (mgr_workers mock_mgr) ''w1'' = Some (mock_client ''w1'' ''h1'' 0)"
    by (auto simp: mock_mgr_eq)
  have "set (net_open (mgr_net m')) = {0, 1}"
    using AddWorker_outcomes [OF mock_mgr_reach r] w(1,2) by simp
  moreover have "fst (AddWorker mock_env \<lparr>cfg_ID = ''w1'', cfg_Addr = ''h9''\<rparr> mock_mgr) =
     Some (Errorf ''worker %q already registered'' [''w1''])"
    using AddWorker_outcomes [OF mock_mgr_reach prod.collapse [symmetric], of "\<lparr>cfg_ID = ''w1'', cfg_Addr = ''h9''\<rparr>"] w(3)
    by simp
  ultimately show ?thesis using r by simp
qed

text \<open>
  C25: restart. A new manager whose database holds the registrations \<open>rows\<close>, over a transport and
  a database without faults, with all stored workers running, restores all of them: it counts
  them, the registry maps every stored identifier to its stored address and nothing else, and
  the stored rows are unchanged. No ready callback is started, since none is set yet.
\<close>

theorem RestoreWorkers_all:
  assumes "gomap_ok rows" and "net_wire n = []"
    and "list_all (\<lambda>(wid, addr). env_dial E addr = None \<and> net_nodes n addr \<noteq> None) rows"
    and "RestoreWorkers E (NewManager (Some \<lparr>wt_rows = rows, wt_faults = []\<rparr>) n) = (k, m')"
  shows "k = length rows \<and> (\<forall>wid. map_option wc_addr (go_get (mgr_workers m') wid) = go_get rows wid) \<and>
    (\<exists>t'. mgr_store m' = Some t' \<and> go_get (wt_rows t') = go_get rows) \<and> mgr_ready_calls m' = []"
proof -
  let ?t = "\<lparr>wt_rows = rows, wt_faults = []\<rparr>"
  let ?m = "NewManager (Some ?t) n"
  let ?es = "sort_key fst rows"
  have es: "gomap_ok ?es" "set ?es = set rows" "length ?es = length rows"
    using assms(1) by (simp_all add: distinct_map)
  have get: "go_get ?es = go_get rows"
    using es assms(1) by (simp add: map_of_inject_set)
  have "\<exists>m'. restore_entries E ?es 0 ?m = (0 + length ?es, m') \<and> registry_restored ?es ?m m'"
    by (rule restore_entries_quiet) (use es assms(2,3) in \<open>auto simp: NewManager_def list_all_iff\<close>)
  then have "k = length rows" and "registry_restored ?es ?m m'"
    using assms(4) es(3) by (auto simp: RestoreWorkers_def wr_List_def wt_exec_ok NewManager_def)
  then show ?thesis
    by (auto simp: registry_restored_def worker_addrs_def stored_addrs_def NewManager_def get fun_eq_iff map_add_def split: option.splits)
qed

theorem RestoreWorkers_all_witness:
  "fst (RestoreWorkers mock_env mock_mgr0) = 2 \<and>
   map_option wc_addr (go_get (mgr_workers (snd (RestoreWorkers mock_env mock_mgr0))) ''w2'') = Some ''h2''"
  using RestoreWorkers_all [of "wt_rows mock_table" mock_net mock_env
      "fst (RestoreWorkers mock_env mock_mgr0)" "snd (RestoreWorkers mock_env mock_mgr0)"]
  by (simp add: mock_mgr0_def mock_table_def mock_net_def mock_env_def)

text \<open>
  C36: the subscribe loop. For every sequence of rounds, the waits between reconnections double
  from one second and stay at 32 seconds, and the handler calls are a prefix of the updates of
  the successive streams, in order, tagged with the worker's identifier.
\<close>

theorem subscribe_backoff:
  "fst (snd (subscribeLoop c Second as)) =
     map (\<lambda>i. min (2 ^ i) 32 * Second) [0..<length (fst (snd (subscribeLoop c Second as)))] \<and>
   prefix (fst (subscribeLoop c Second as)) (map (Pair (wc_id c)) (concat (map stream_updates as)))"
proof -
  obtain calls waits ret where loop: "subscribeLoop c Second as = (calls, waits, ret)"
    by (cases "subscribeLoop c Second as")
  then have "waits = map (\<lambda>i. min (2 ^ i) 32 * Second) [0..<length waits]"
    using subscribeLoop_waits [of c 0 as calls waits ret] by simp
  with loop subscribeLoop_calls [of c Second as] show ?thesis by simp
qed

text \<open>
  Assigning a bot. When \<open>AssignBot\<close> succeeds, whatever the transport lost on the way, the
  returned worker is registered and the node at its address has the bot session in its pool,
  ready; when no worker is registered it fails and nothing changes.
\<close>

theorem AssignBot_places:
  assumes "mgr_reach E (m, ps, qs)" and "AssignBot E ks sid token m = (r, m')"
  shows "case r of
      Inr wid \<Rightarrow> (\<exists>c s. go_get (mgr_workers m) wid = Some c \<and> net_nodes (mgr_net m') (wc_addr c) = Some s \<and>
        Pool_Get sid (srv_pool s) = Some (added_session (env_now E) sid TypeBot))
    | Inl err \<Rightarrow> mgr_workers m = [] \<longrightarrow> err = Errorf ''no workers available'' [] \<and> m' = m"
proof -
  note inv = mgr_reach_inv [OF assms(1)]
  obtain q m1 where pick: "leastLoaded ks m = (q, m1)" by (cases "leastLoaded ks m")
  then show ?thesis
  proof (cases rule: leastLoaded_cases)
    case none
    with assms(2) pick show ?thesis by (auto simp: AssignBot_def)
  next
    case (chosen wid c n)
    have wid: "wc_id c = wid" "go_get (mgr_workers m) wid = Some c"
      using mgr_inv_workerD [OF inv chosen(2)] go_get_Some_iff [OF mgr_inv_parts(1) [OF inv]] chosen(2) by simp_all
    have n: "net_ok n" using mgr_inv_parts(2) [OF inv] same_net_ok [OF chosen(4)] by simp
    let ?h = "srv_AddBot (env_factory E (wc_addr c)) (env_now E) sid token"
    obtain a n2 where call: "wc_call c ?h n = (a, n2)" by (cases "wc_call c ?h n")
    show ?thesis
    proof (cases a)
      case (Inl e)
      with assms(2) pick chosen call show ?thesis by (auto simp: AssignBot_def wc_AddBot_def)
    next
      case (Inr info)
      have r: "r = Inr wid" "mgr_net m' = n2"
        using assms(2) pick chosen(1,3) call Inr wid(1) by (auto simp: AssignBot_def wc_AddBot_def)
      from call obtain s s' where s: "net_nodes n (wc_addr c) = Some s" "?h s = (Inr info, s')"
        "net_nodes n2 (wc_addr c) = Some s'"
        by (cases rule: wc_call_cases) (auto simp: Inr)
      have ok: "pool_ok (srv_pool s)" using net_okD [OF n s(1)] .
      have "srv_pool s' = snd (Pool_AddBot (env_factory E (wc_addr c)) (env_now E) sid token (srv_pool s))"
        using srv_AddBot_pool [of "env_factory E (wc_addr c)" "env_now E" sid token s] s(2) by simp
      moreover have "Pool_Get sid (srv_pool s) = None" "\<exists>x. env_factory E (wc_addr c) sid [] token = Inr x"
        using s(2) by (auto simp: srv_AddBot_def Pool_AddBot_def Pool_add_def Pool_Get_def Let_def
            split: option.splits sum.splits)
      ultimately have "Pool_Get sid (srv_pool s') = Some (added_session (env_now E) sid TypeBot)"
        using Pool_Get_added [OF ok] by (auto simp: Pool_AddBot_def)
      with r wid(2) s(3) show ?thesis by auto
    qed
  qed
qed

theorem AssignBot_places_witness:
  "\<exists>wid c s. fst (AssignBot mock_env [] ''b'' ''t'' mock_mgr) = Inr wid \<and> go_get (mgr_workers mock_mgr) wid = Some c \<and>
     net_nodes (mgr_net (snd (AssignBot mock_env [] ''b'' ''t'' mock_mgr))) (wc_addr c) = Some s \<and>
     Pool_Get ''b'' (srv_pool s) = Some (added_session int ''b'' TypeBot)"
proof -
  have "leastLoaded [] mock_mgr = (Inr (mock_client ''w2'' ''h2'' 1), mock_mgr)"
    by (simp add: leastLoaded_def mock_mgr_eq wc_ListSessions_quiet best_client_def mock_client_def
        mock_w1_sessions mock_node_sessions)
  then obtain wid where "fst (AssignBot mock_env [] ''b'' ''t'' mock_mgr) = Inr wid"
    by (simp add: AssignBot_def wc_AddBot_def wc_call_def mock_mgr_eq mock_client_def mock_env_def mock_node_def
        srv_AddBot_def Pool_AddBot_def server_eval)
  with AssignBot_places [OF mock_mgr_reach prod.collapse [symmetric], of "[]" "''b''" "''t''"]
  show ?thesis by (auto simp: mock_env_def)
qed

text \<open>
  Routed calls. A call for a named worker that is not registered fails with
  \<open>worker not found\<close> and changes nothing; otherwise it leaves the registry and every node at
  another address untouched.
\<close>

theorem routed_calls_isolated:
  assumes "(r, m') \<in> {mgr_SendAuthCode E wid sid code m, mgr_SendPassword E wid sid code m, mgr_RemoveSession E wid sid m}"
  shows "case go_get (mgr_workers m) wid of
      None \<Rightarrow> r = Inl (Errorf ''worker %q not found'' [wid]) \<and> m' = m
    | Some c \<Rightarrow> mgr_workers m' = mgr_workers m \<and>
        (\<forall>a. a \<noteq> wc_addr c \<longrightarrow> net_nodes (mgr_net m') a = net_nodes (mgr_net m) a)"
proof (cases "go_get (mgr_workers m) wid")
  case (Some c)
  define n' where "n' = mgr_net m'"
  have "\<exists>h. n' = snd (wc_call c h (mgr_net m) :: (error + SessionInfo) \<times> _) \<or>
      n' = snd (wc_call c (srv_RemoveSession (env_ifc E) sid) (mgr_net m))"
    and "m' = m\<lparr>mgr_net := n'\<rparr>"
    using assms Some
    by (auto simp: n'_def mgr_SendAuthCode_def mgr_SendPassword_def mgr_RemoveSession_def with_worker_def as_sum_def
        wc_SendAuthCode_def wc_SendPassword_def wc_RemoveSession_def split_beta Let_def result_error_def
        split: sum.splits prod.splits)
  with Some show ?thesis by (auto simp: wc_call_elsewhere)
qed (use assms in \<open>auto simp: mgr_SendAuthCode_def mgr_SendPassword_def mgr_RemoveSession_def with_worker_def\<close>)

theorem routed_calls_isolated_witness:
  "fst (mgr_SendAuthCode mock_env ''w9'' ''a'' ''1'' mock_mgr) = Inl (Errorf ''worker %q not found'' [''w9''])"
  using routed_calls_isolated [of "fst (mgr_SendAuthCode mock_env ''w9'' ''a'' ''1'' mock_mgr)"
      "snd (mgr_SendAuthCode mock_env ''w9'' ''a'' ''1'' mock_mgr)" mock_env "''w9''" "''a''" "''1''" mock_mgr]
  by (simp add: mock_mgr_eq)

section \<open>Overlapping registrations\<close>

text \<open>
  Two registrations of one identifier that overlap both succeed; the connection of the first
  stays open but is reachable from no registration.
\<close>

lemma AddWorker_race:
  assumes ok: "net_ok (mgr_net m)" and one: "AddWorker_connect E cfg m = (Inr c1, m1)"
    and two: "AddWorker_connect E cfg m1 = (Inr c2, m2)"
    and m3: "m3 = AddWorker_insert c2 (AddWorker_insert c1 m2)"
  shows "go_get (mgr_workers m3) (cfg_ID cfg) = Some c2 \<and> wc_conn c1 \<noteq> wc_conn c2 \<and>
    wc_conn c1 \<in> set (net_open (mgr_net m3))"
proof -
  obtain n where n: "m1 = m\<lparr>mgr_net := n\<rparr>" "net_ok n" "wc_id c1 = cfg_ID cfg" "wc_conn c1 = net_next (mgr_net m)"
    "net_next n = Suc (net_next (mgr_net m))" "net_open n = net_next (mgr_net m) # net_open (mgr_net m)"
    using AddWorker_connect_frame [OF one ok] by auto
  have "net_ok (mgr_net m1)" using n by simp
  from AddWorker_connect_frame [OF two this] n
  obtain n2 where "m2 = m1\<lparr>mgr_net := n2\<rparr>" "wc_id c2 = cfg_ID cfg" "wc_conn c2 = net_next n"
    "net_open n2 = net_next n # net_open n" by auto
  with n m3 show ?thesis by (simp add: AddWorker_insert_def)
qed

end
