(* ===== verification/Bulk.thy ===== *)
theory Bulk
  imports Account Bot Worker_Manager
begin

text \<open>
  Bulk operations, \<open>internal/bulk\<close>: the same operation on many items, one goroutine per item and at
  most ten of them at work at a time. A goroutine runs in atomic steps, one per call to another
  component, and the scheduler interleaves the steps in any order.
\<close>

section \<open>The services behind it\<close>

text \<open>
  \<open>services\<close> are the components the main node is wired with, \<open>backend\<close> is their state. A nil
  worker manager is \<open>None\<close>.
\<close>

record ('a, 'b, 'c) services =
  sv_accounts :: "'a AccountRepository"
  sv_bots :: "'b BotRepository"
  sv_enc :: "TokenEncryptor option"
  sv_env :: "'c env"

record ('a, 'b, 'c) backend =
  bk_accounts :: 'a
  bk_bots :: 'b
  bk_mgr :: "'c manager option"

text \<open>What chance decides for an item: nonce, session identifier, order of the workers' replies.\<close>

record bulk_rnd =
  br_nonce :: "nat \<Rightarrow> error + bytes"
  br_uuid :: "nat \<Rightarrow> string"
  br_order :: "nat \<Rightarrow> nat list"

definition on_bots :: "('b \<Rightarrow> 'x \<times> 'b) \<Rightarrow> ('a, 'b, 'c) backend \<Rightarrow> 'x \<times> ('a, 'b, 'c) backend" where
  "on_bots f s = (let (x, r) = f (bk_bots s) in (x, s\<lparr>bk_bots := r\<rparr>))"

definition on_accounts :: "('a \<Rightarrow> 'x \<times> 'a) \<Rightarrow> ('a, 'b, 'c) backend \<Rightarrow> 'x \<times> ('a, 'b, 'c) backend" where
  "on_accounts f s = (let (x, r) = f (bk_accounts s) in (x, s\<lparr>bk_accounts := r\<rparr>))"

text \<open>A call on the manager; without a manager the default is returned.\<close>

definition on_mgr :: "'x \<Rightarrow> ('c manager \<Rightarrow> 'x \<times> 'c manager) \<Rightarrow> ('a, 'b, 'c) backend \<Rightarrow> 'x \<times> ('a, 'b, 'c) backend" where
  "on_mgr d f s =
     (case bk_mgr s of
        None \<Rightarrow> (d, s)
      | Some m \<Rightarrow> (let (x, m') = f m in (x, s\<lparr>bk_mgr := Some m'\<rparr>)))"

section \<open>Results\<close>

text \<open>An item keeps the error value whose text the response shows.\<close>

datatype item_data = DataBot Bot | DataAccount Account | DataSession string

record ItemResult =
  it_Index :: nat
  it_OK :: bool
  it_Data :: "item_data option"
  it_Error :: "error option"

record BulkResult =
  blk_Total :: int
  blk_Succeeded :: int
  blk_Failed :: int
  blk_Items :: "ItemResult list"

definition zero_item :: ItemResult where
  "zero_item = \<lparr>it_Index = 0, it_OK = False, it_Data = None, it_Error = None\<rparr>"

definition item_error :: "nat \<Rightarrow> error \<Rightarrow> ItemResult" where
  "item_error i e = \<lparr>it_Index = i, it_OK = False, it_Data = None, it_Error = Some e\<rparr>"

definition item_ok :: "nat \<Rightarrow> item_data \<Rightarrow> ItemResult" where
  "item_ok i d = \<lparr>it_Index = i, it_OK = True, it_Data = Some d, it_Error = None\<rparr>"

fun count_ok :: "ItemResult list \<Rightarrow> int \<Rightarrow> int" where
  "count_ok [] succeeded = succeeded"
| "count_ok (it # items) succeeded = count_ok items (if it_OK it then succeeded + 1 else succeeded)"

definition summarize :: "ItemResult list \<Rightarrow> BulkResult" where
  "summarize items =
     (let succeeded = count_ok items 0 in
      \<lparr>blk_Total = int (length items), blk_Succeeded = succeeded, blk_Failed = int (length items) - succeeded,
       blk_Items = items\<rparr>)"

section \<open>The operation on one item\<close>

text \<open>Where a goroutine is in the function it runs: at the start, or before the call to the manager.\<close>

datatype bulk_pc = Begin | AssignB Bot | AssignA Account | RemoveFrom string

definition AddBots_item :: "('a, 'b, 'c) services \<Rightarrow> bulk_rnd \<Rightarrow> string list \<Rightarrow> nat \<Rightarrow> bulk_pc \<Rightarrow>
    ('a, 'b, 'c) backend \<Rightarrow> (bulk_pc + ItemResult) \<times> ('a, 'b, 'c) backend" where
  "AddBots_item V rnd tokens i pc s =
     (case pc of
        AssignB b \<Rightarrow>
          (case on_mgr (Inr []) (AssignBot (sv_env V) (br_order rnd i) (bot_SessionID b) (bot_Token b)) s of
             (Inl err, s') \<Rightarrow> (Inr (item_error i err), s')
           | (Inr _, s') \<Rightarrow> (Inr (item_ok i (DataBot b)), s'))
      | _ \<Rightarrow>
          (case on_bots (bs_Add (sv_bots V) (sv_enc V) (br_nonce rnd i) (br_uuid rnd i) (tokens ! i)) s of
             (Inl err, s') \<Rightarrow> (Inr (item_error i err), s')
           | (Inr b, s') \<Rightarrow>
               (if bk_mgr s' \<noteq> None then (Inl (AssignB b), s') else (Inr (item_ok i (DataBot b)), s'))))"

definition AddAccounts_item :: "('a, 'b, 'c) services \<Rightarrow> bulk_rnd \<Rightarrow> string list \<Rightarrow> nat \<Rightarrow> bulk_pc \<Rightarrow>
    ('a, 'b, 'c) backend \<Rightarrow> (bulk_pc + ItemResult) \<times> ('a, 'b, 'c) backend" where
  "AddAccounts_item V rnd phones i pc s =
     (case pc of
        AssignA a \<Rightarrow>
          (case on_mgr (Inr []) (AssignAccount (sv_env V) (br_order rnd i) (acc_SessionID a) (acc_Phone a)) s of
             (Inl err, s') \<Rightarrow> (Inr (item_error i err), s')
           | (Inr _, s') \<Rightarrow> (Inr (item_ok i (DataAccount a)), s'))
      | _ \<Rightarrow>
          (case on_accounts (as_Add (sv_accounts V) (br_uuid rnd i) (phones ! i)) s of
             (Inl err, s') \<Rightarrow> (Inr (item_error i err), s')
           | (Inr a, s') \<Rightarrow>
               (if bk_mgr s' \<noteq> None then (Inl (AssignA a), s') else (Inr (item_ok i (DataAccount a)), s'))))"

definition resolveWorkerID :: "('a, 'b, 'c) services \<Rightarrow> string \<Rightarrow> ('a, 'b, 'c) backend \<Rightarrow>
    (error + string) \<times> ('a, 'b, 'c) backend" where
  "resolveWorkerID V sessionID s =
     (case on_bots (bs_GetBySessionID (sv_bots V) (sv_enc V) sessionID) s of
        (Inr b, s1) \<Rightarrow> (Inr (case bot_WorkerID b of Some w \<Rightarrow> w | None \<Rightarrow> []), s1)
      | (Inl _, s1) \<Rightarrow>
          (case on_accounts (as_GetBySessionID (sv_accounts V) sessionID) s1 of
             (Inr a, s2) \<Rightarrow> (Inr (case acc_WorkerID a of Some w \<Rightarrow> w | None \<Rightarrow> []), s2)
           | (Inl _, s2) \<Rightarrow> (Inl (Errorf ''session %q not found'' [sessionID]), s2)))"

definition RemoveSessions_item :: "('a, 'b, 'c) services \<Rightarrow> string list \<Rightarrow> nat \<Rightarrow> bulk_pc \<Rightarrow>
    ('a, 'b, 'c) backend \<Rightarrow> (bulk_pc + ItemResult) \<times> ('a, 'b, 'c) backend" where
  "RemoveSessions_item V sids i pc s =
     (let sid = sids ! i in
      case pc of
        RemoveFrom workerID \<Rightarrow>
          (case on_mgr (Inr ()) (mgr_RemoveSession (sv_env V) workerID sid) s of
             (Inl err, s') \<Rightarrow> (Inr (item_error i err), s')
           | (Inr _, s') \<Rightarrow> (Inr (item_ok i (DataSession sid)), s'))
      | _ \<Rightarrow>
          (case resolveWorkerID V sid s of
             (Inl err, s') \<Rightarrow> (Inr (item_error i err), s')
           | (Inr workerID, s') \<Rightarrow>
               (if workerID \<noteq> [] \<and> bk_mgr s' \<noteq> None then (Inl (RemoveFrom workerID), s')
                else (Inr (item_ok i (DataSession sid)), s'))))"

section \<open>Bounded concurrency\<close>

definition defaultConcurrency :: nat where
  "defaultConcurrency = 10"

text \<open>
  A goroutine waits for the semaphore, runs, or has finished; the semaphore holds one entry per
  running goroutine.
\<close>

datatype goroutine = Waiting | Running bulk_pc | Finished

fun is_running :: "goroutine \<Rightarrow> bool" where
  "is_running (Running _) = True"
| "is_running _ = False"

record 's par =
  par_go :: "goroutine list"
  par_results :: "ItemResult list"
  par_state :: 's

definition par_start :: "nat \<Rightarrow> 's \<Rightarrow> 's par" where
  "par_start n s = \<lparr>par_go = replicate n Waiting, par_results = replicate n zero_item, par_state = s\<rparr>"

definition sem_used :: "'s par \<Rightarrow> nat" where
  "sem_used p = length (filter is_running (par_go p))"

text \<open>The next step of goroutine \<open>i\<close>; one that cannot move leaves the state alone.\<close>

definition par_step :: "nat \<Rightarrow> (nat \<Rightarrow> bulk_pc \<Rightarrow> 's \<Rightarrow> (bulk_pc + ItemResult) \<times> 's) \<Rightarrow> nat \<Rightarrow> 's par \<Rightarrow> 's par" where
  "par_step conc body i p =
     (if i < length (par_go p) then
        (case par_go p ! i of
           Waiting \<Rightarrow> (if sem_used p < conc then p\<lparr>par_go := (par_go p)[i := Running Begin]\<rparr> else p)
         | Running pc \<Rightarrow>
             (case body i pc (par_state p) of
                (Inl pc', s') \<Rightarrow> p\<lparr>par_go := (par_go p)[i := Running pc'], par_state := s'\<rparr>
              | (Inr res, s') \<Rightarrow>
                  p\<lparr>par_go := (par_go p)[i := Finished], par_results := (par_results p)[i := res], par_state := s'\<rparr>)
         | Finished \<Rightarrow> p)
      else p)"

text \<open>
  \<open>parallel\<close> under a schedule, the sequence of goroutines the runtime lets move. The call returns
  once all have finished; \<open>None\<close> is a call that still waits.
\<close>

definition par_run :: "nat \<Rightarrow> (nat \<Rightarrow> bulk_pc \<Rightarrow> 's \<Rightarrow> (bulk_pc + ItemResult) \<times> 's) \<Rightarrow> nat list \<Rightarrow> 's par \<Rightarrow> 's par" where
  "par_run conc body sched p = foldl (\<lambda>p i. par_step conc body i p) p sched"

definition parallel :: "nat \<Rightarrow> nat \<Rightarrow> (nat \<Rightarrow> bulk_pc \<Rightarrow> 's \<Rightarrow> (bulk_pc + ItemResult) \<times> 's) \<Rightarrow> nat list \<Rightarrow> 's \<Rightarrow>
    (ItemResult list \<times> 's) option" where
  "parallel conc n body sched s =
     (let p = par_run conc body sched (par_start n s)
      in if list_all (\<lambda>g. g = Finished) (par_go p) then Some (par_results p, par_state p) else None)"

definition AddBots :: "('a, 'b, 'c) services \<Rightarrow> bulk_rnd \<Rightarrow> nat list \<Rightarrow> string list \<Rightarrow> ('a, 'b, 'c) backend \<Rightarrow>
    (BulkResult \<times> ('a, 'b, 'c) backend) option" where
  "AddBots V rnd sched tokens s =
     map_option (\<lambda>(results, s'). (summarize results, s'))
       (parallel defaultConcurrency (length tokens) (AddBots_item V rnd tokens) sched s)"

definition AddAccounts :: "('a, 'b, 'c) services \<Rightarrow> bulk_rnd \<Rightarrow> nat list \<Rightarrow> string list \<Rightarrow> ('a, 'b, 'c) backend \<Rightarrow>
    (BulkResult \<times> ('a, 'b, 'c) backend) option" where
  "AddAccounts V rnd sched phones s =
     map_option (\<lambda>(results, s'). (summarize results, s'))
       (parallel defaultConcurrency (length phones) (AddAccounts_item V rnd phones) sched s)"

definition RemoveSessions :: "('a, 'b, 'c) services \<Rightarrow> nat list \<Rightarrow> string list \<Rightarrow> ('a, 'b, 'c) backend \<Rightarrow>
    (BulkResult \<times> ('a, 'b, 'c) backend) option" where
  "RemoveSessions V sched sids s =
     map_option (\<lambda>(results, s'). (summarize results, s'))
       (parallel defaultConcurrency (length sids) (RemoveSessions_item V sids) sched s)"

section \<open>The contract of an item operation\<close>

text \<open>
  What \<open>parallel\<close> relies on: an operation takes finitely many steps, \<open>rank\<close> bounding those after
  the first, and reports under its own index; \<open>good\<close> is what holds of the reports.
\<close>

locale bulk_body =
  fixes body :: "nat \<Rightarrow> bulk_pc \<Rightarrow> 's \<Rightarrow> (bulk_pc + ItemResult) \<times> 's" and rank :: "bulk_pc \<Rightarrow> nat"
    and at :: "nat \<Rightarrow> bulk_pc \<Rightarrow> bool" and good :: "nat \<Rightarrow> ItemResult \<Rightarrow> bool"
  assumes rank_Begin: "rank Begin \<le> 1"
    and at_Begin: "at i Begin"
    and rank_step: "at i pc \<Longrightarrow> body i pc s = (Inl pc', s') \<Longrightarrow> rank pc' < rank pc \<and> at i pc'"
    and report: "at i pc \<Longrightarrow> body i pc s = (Inr res, s') \<Longrightarrow> it_Index res = i \<and> good i res"
begin

fun work :: "goroutine \<Rightarrow> nat" where
  "work Waiting = 3"
| "work (Running pc) = Suc (rank pc)"
| "work Finished = 0"

definition left_to_do :: "'s par \<Rightarrow> nat" where
  "left_to_do p = sum_list (map work (par_go p))"

definition par_ok :: "nat \<Rightarrow> nat \<Rightarrow> 's par \<Rightarrow> bool" where
  "par_ok conc n p \<longleftrightarrow> length (par_go p) = n \<and> length (par_results p) = n \<and> sem_used p \<le> conc \<and>
     (\<forall>i < n. case par_go p ! i of
        Running pc \<Rightarrow> at i pc
      | Finished \<Rightarrow> it_Index (par_results p ! i) = i \<and> good i (par_results p ! i)
      | Waiting \<Rightarrow> True)"

lemma par_okD:
  assumes "par_ok conc n p"
  shows "length (par_go p) = n" "length (par_results p) = n" "sem_used p \<le> conc"
    and "i < n \<Longrightarrow> par_go p ! i = Running pc \<Longrightarrow> at i pc"
    and "i < n \<Longrightarrow> par_go p ! i = Finished \<Longrightarrow> it_Index (par_results p ! i) = i \<and> good i (par_results p ! i)"
  using assms unfolding par_ok_def by (auto split: goroutine.splits)

lemma par_okI:
  assumes "length (par_go p) = n" "length (par_results p) = n" "sem_used p \<le> conc"
    and "\<And>i pc. i < n \<Longrightarrow> par_go p ! i = Running pc \<Longrightarrow> at i pc"
    and "\<And>i. i < n \<Longrightarrow> par_go p ! i = Finished \<Longrightarrow> it_Index (par_results p ! i) = i \<and> good i (par_results p ! i)"
  shows "par_ok conc n p"
  using assms unfolding par_ok_def by (auto split: goroutine.splits)

lemma sum_list_update_nat:
  "i < length xs \<Longrightarrow> sum_list (xs[i := v]) + xs ! i = sum_list xs + (v :: nat)"
proof (induction xs arbitrary: i)
  case (Cons x xs)
  then show ?case by (cases i) fastforce+
qed simp

lemma work_update:
  "i < length gs \<Longrightarrow> work g < work (gs ! i) \<Longrightarrow> sum_list (map work (gs[i := g])) < sum_list (map work gs)"
  using sum_list_update_nat [of i "map work gs" "work g"] by (simp add: map_update)

lemma running_update:
  "i < length gs \<Longrightarrow> length (filter is_running (gs[i := g])) + (if is_running (gs ! i) then 1 else 0) =
     length (filter is_running gs) + (if is_running g then 1 else 0)"
proof (induction gs arbitrary: i)
  case (Cons x gs)
  then show ?case by (cases i) fastforce+
qed simp

text \<open>
  What a goroutine that moves has to show: it comes closer to its end, holds a slot of the
  semaphore when it runs, and leaves the results of the others alone.
\<close>

lemma par_move:
  assumes ok: "par_ok conc n p" and i: "i < n" and less: "work g < work (par_go p ! i)"
    and sem: "is_running g \<Longrightarrow> is_running (par_go p ! i) \<or> sem_used p < conc"
    and run: "\<And>pc. g = Running pc \<Longrightarrow> at i pc"
    and fin: "g = Finished \<Longrightarrow> it_Index (rs ! i) = i \<and> good i (rs ! i)"
    and rs: "length rs = n" "\<And>j. j < n \<Longrightarrow> j \<noteq> i \<Longrightarrow> rs ! j = par_results p ! j"
    and p': "p' = p\<lparr>par_go := (par_go p)[i := g], par_results := rs, par_state := s\<rparr>"
  shows "par_ok conc n p' \<and> left_to_do p' < left_to_do p"
proof
  note D = par_okD [OF ok]
  show "left_to_do p' < left_to_do p" using work_update [of i "par_go p" g] less i D(1) by (simp add: left_to_do_def p')
  show "par_ok conc n p'"
  proof (rule par_okI)
    show "sem_used p' \<le> conc" using running_update [of i "par_go p" g] sem i D(1,3)
      by (auto simp: sem_used_def p' split: if_splits)
    show "at j pc" if "j < n" "par_go p' ! j = Running pc" for j pc
      using that D(1,4) i run by (cases "j = i") (auto simp: p')
    show "it_Index (par_results p' ! j) = j \<and> good j (par_results p' ! j)" if "j < n" "par_go p' ! j = Finished" for j
      using that D(1,5) i fin rs(2) by (cases "j = i") (auto simp: p')
  qed (use D(1) rs(1) in \<open>simp_all add: p'\<close>)
qed

text \<open>A step changes nothing or leaves less to do, and keeps the invariant.\<close>

lemma par_step_cases:
  assumes ok: "par_ok conc n p"
  shows "par_ok conc n (par_step conc body i p) \<and>
    (par_step conc body i p = p \<or> left_to_do (par_step conc body i p) < left_to_do p)"
proof (cases "i < n \<and> par_step conc body i p \<noteq> p")
  case False
  then show ?thesis using ok par_okD(1) [OF ok] by (auto simp: par_step_def)
next
  case True
  then have i: "i < n" "i < length (par_go p)" and moved: "par_step conc body i p \<noteq> p" using par_okD(1) [OF ok] by auto
  note D = par_okD [OF ok]
  have "par_ok conc n (par_step conc body i p) \<and> left_to_do (par_step conc body i p) < left_to_do p"
  proof (cases "par_go p ! i")
    case Waiting
    then have "sem_used p < conc" "par_step conc body i p = p\<lparr>par_go := (par_go p)[i := Running Begin]\<rparr>"
      using moved i by (auto simp: par_step_def split: if_splits)
    then show ?thesis using Waiting rank_Begin at_Begin D(2)
      by (intro par_move [OF ok i(1), where g = "Running Begin" and rs = "par_results p" and s = "par_state p"]) auto
  next
    case (Running pc)
    have at: "at i pc" using D(4) i Running by simp
    obtain r s' where b: "body i pc (par_state p) = (r, s')" by fastforce
    show ?thesis
    proof (cases r)
      case (Inl pc')
      then show ?thesis using Running i b rank_step [OF at b [unfolded Inl]] D(2)
        by (intro par_move [OF ok i(1), where g = "Running pc'" and rs = "par_results p" and s = s']) (auto simp: par_step_def)
    next
      case (Inr res)
      then show ?thesis using Running i b report [OF at b [unfolded Inr]] D(2)
        by (intro par_move [OF ok i(1), where g = Finished and rs = "(par_results p)[i := res]" and s = s'])
          (auto simp: par_step_def)
    qed
  next
    case Finished
    then show ?thesis using moved by (simp add: par_step_def)
  qed
  then show ?thesis by simp
qed

lemma par_start_ok: "par_ok conc n (par_start n s)"
  by (auto simp: par_ok_def par_start_def sem_used_def)

lemma par_run_ok: "par_ok conc n p \<Longrightarrow> par_ok conc n (par_run conc body sched p)"
  by (induction sched arbitrary: p) (simp_all add: par_run_def par_step_cases)

text \<open>No deadlock: while a goroutine is unfinished, some goroutine can move.\<close>

lemma par_enabled:
  assumes ok: "par_ok conc n p" and "0 < conc" and "\<not> list_all (\<lambda>g. g = Finished) (par_go p)"
  shows "\<exists>i < n. par_step conc body i p \<noteq> p"
proof -
  have len: "length (par_go p) = n" using ok by (rule par_okD)
  obtain i where i: "i < n" "par_go p ! i \<noteq> Finished" using assms(3) len by (auto simp: list_all_length)
  have move: "par_step conc body j p \<noteq> p" if j: "j < n" "par_go p ! j = Running pc" for j pc
  proof -
    obtain r s' where b: "body j pc (par_state p) = (r, s')" by fastforce
    have at: "at j pc" using par_okD(4) [OF ok j] .
    have "par_go (par_step conc body j p) ! j \<noteq> Running pc"
    proof (cases r)
      case (Inl pc')
      then show ?thesis using b j len rank_step [OF at, of "par_state p" pc' s'] by (auto simp: par_step_def)
    next
      case (Inr res)
      then show ?thesis using b j len by (simp add: par_step_def)
    qed
    then show ?thesis using j by auto
  qed
  show ?thesis
  proof (cases "\<exists>j < n. \<exists>pc. par_go p ! j = Running pc")
    case True
    then show ?thesis using move by blast
  next
    case False
    then have "\<forall>g \<in> set (par_go p). \<not> is_running g" using len by (metis in_set_conv_nth is_running.elims(2))
    then have "sem_used p = 0" by (simp add: sem_used_def)
    moreover have "par_go p ! i = Waiting" using i False by (cases "par_go p ! i") auto
    ultimately have "par_go (par_step conc body i p) ! i = Running Begin" using i(1) len assms(2) by (simp add: par_step_def)
    then show ?thesis using i(1) \<open>par_go p ! i = Waiting\<close> by (intro exI [of _ i]) auto
  qed
qed

lemma par_run_left: "par_ok conc n p \<Longrightarrow> par_run conc body sched p = p \<or> left_to_do (par_run conc body sched p) < left_to_do p"
proof (induction sched arbitrary: p)
  case (Cons i sched)
  have step: "par_ok conc n (par_step conc body i p)"
    "par_step conc body i p = p \<or> left_to_do (par_step conc body i p) < left_to_do p"
    using par_step_cases [OF Cons.prems] by simp_all
  show ?case using Cons.IH [OF step(1)] step(2) by (auto simp: par_run_def)
qed (simp add: par_run_def)

lemma par_run_stuck:
  "par_ok conc n p \<Longrightarrow> par_run conc body sched p = p \<Longrightarrow> i \<in> set sched \<Longrightarrow> par_step conc body i p = p"
proof (induction sched arbitrary: p)
  case (Cons j sched)
  have ok: "par_ok conc n (par_step conc body j p)" using par_step_cases [OF Cons.prems(1)] by simp
  have "par_run conc body sched (par_step conc body j p) = p" using Cons.prems(2) by (simp add: par_run_def)
  moreover from this have j: "par_step conc body j p = p"
    using par_run_left [OF ok, of sched] par_step_cases [OF Cons.prems(1), of j] by auto
  ultimately show ?case using Cons j by auto
qed simp

text \<open>A round in which every goroutine gets a turn finishes something; so enough rounds finish all.\<close>

lemma par_round:
  assumes "par_ok conc n p" "0 < conc" "set sched = {..<n}"
  shows "list_all (\<lambda>g. g = Finished) (par_go p) \<or> left_to_do (par_run conc body sched p) < left_to_do p"
  using par_enabled [OF assms(1,2)] par_run_left [OF assms(1)] par_run_stuck [OF assms(1)] assms(3) by (metis lessThan_iff)

lemma par_run_append: "par_run conc body (xs @ ys) p = par_run conc body ys (par_run conc body xs p)"
  by (simp add: par_run_def)

lemma finished_stays:
  "list_all (\<lambda>g. g = Finished) (par_go p) \<Longrightarrow> par_run conc body sched p = p"
  by (induction sched) (auto simp: par_run_def par_step_def list_all_length)

lemma par_rounds:
  assumes "par_ok conc n p" "0 < conc" "list_all (\<lambda>r. set r = {..<n}) rounds" "left_to_do p \<le> length rounds"
  shows "list_all (\<lambda>g. g = Finished) (par_go (par_run conc body (concat rounds) p))"
  using assms
proof (induction rounds arbitrary: p)
  case Nil
  then have "work g = 0" if "g \<in> set (par_go p)" for g using that by (auto simp: left_to_do_def)
  moreover have "g = Finished" if "work g = 0" for g using that by (cases g) auto
  ultimately show ?case by (auto simp: list_all_iff par_run_def)
next
  case (Cons r rounds)
  show ?case
  proof (cases "list_all (\<lambda>g. g = Finished) (par_go p)")
    case True
    then show ?thesis using finished_stays [OF True] by simp
  next
    case False
    then have "left_to_do (par_run conc body r p) < left_to_do p" using par_round [OF Cons.prems(1,2)] Cons.prems(3) by auto
    then show ?thesis using Cons.IH [OF par_run_ok [OF Cons.prems(1), of r] Cons.prems(2)] Cons.prems(3,4)
      by (simp add: par_run_append)
  qed
qed

lemma left_to_do_start: "left_to_do (par_start n s) = 3 * n"
  by (simp add: left_to_do_def par_start_def sum_list_replicate)

text \<open>
  Whatever has been scheduled so far, \<open>3 * n\<close> rounds more and the call returns, with the results in
  order.
\<close>

lemma parallel_returns:
  assumes "0 < conc" "list_all (\<lambda>r. set r = {..<n}) rounds" "3 * n \<le> length rounds"
  shows "\<exists>results s'. parallel conc n body (sched @ concat rounds) s = Some (results, s')"
proof -
  let ?p = "par_run conc body sched (par_start n s)"
  have ok: "par_ok conc n ?p" by (rule par_run_ok [OF par_start_ok])
  have "left_to_do ?p \<le> length rounds"
    using par_run_left [OF par_start_ok [of conc n s], of sched] left_to_do_start [of n s] assms(3) by auto
  from par_rounds [OF ok assms(1,2) this] show ?thesis by (simp add: parallel_def par_run_append Let_def)
qed

lemma parallel_results:
  assumes "parallel conc n body sched s = Some (results, s')"
  shows "length results = n" and "i < n \<Longrightarrow> it_Index (results ! i) = i \<and> good i (results ! i)"
proof -
  let ?p = "par_run conc body sched (par_start n s)"
  have ok: "par_ok conc n ?p" by (rule par_run_ok [OF par_start_ok])
  have r: "results = par_results ?p" "list_all (\<lambda>g. g = Finished) (par_go ?p)"
    using assms by (auto simp: parallel_def Let_def split: if_splits)
  show "length results = n" using par_okD(2) [OF ok] r(1) by simp
  show "it_Index (results ! i) = i \<and> good i (results ! i)" if "i < n"
    using par_okD(5) [OF ok that] par_okD(1) [OF ok] r that by (simp add: list_all_length)
qed

lemma concurrency_bounded: "sem_used (par_run conc body sched (par_start n s)) \<le> conc"
  using par_okD(3) [OF par_run_ok [OF par_start_ok]] .

end

section \<open>The three operations meet the contract\<close>

fun pc_rank :: "bulk_pc \<Rightarrow> nat" where
  "pc_rank Begin = 1"
| "pc_rank _ = 0"

text \<open>A report has either data or an error.\<close>

definition reports :: "(item_data \<Rightarrow> bool) \<Rightarrow> ItemResult \<Rightarrow> bool" where
  "reports P res \<longleftrightarrow> (if it_OK res then it_Error res = None \<and> (\<exists>d. it_Data res = Some d \<and> P d)
     else it_Error res \<noteq> None \<and> it_Data res = None)"

lemma reports_simps [simp]: "reports P (item_error i e)" "reports P (item_ok i d) \<longleftrightarrow> P d"
  "it_Index (item_error i e) = i" "it_Index (item_ok i d) = i"
  by (simp_all add: reports_def item_error_def item_ok_def)

definition adds_bot :: "string \<Rightarrow> item_data \<Rightarrow> bool" where
  "adds_bot token d \<longleftrightarrow> (\<exists>b. d = DataBot b \<and> bot_Token b = token)"

definition adds_account :: "item_data \<Rightarrow> bool" where
  "adds_account d \<longleftrightarrow> (\<exists>a. d = DataAccount a)"

lemma bs_Add_token: "on_bots (bs_Add R enc rnd uuid token) s = (Inr b, s') \<Longrightarrow> bot_Token b = token"
  by (auto simp: on_bots_def bs_Add_def split: prod.splits sum.splits)

interpretation add_bots: bulk_body "AddBots_item V rnd tokens" pc_rank
  "\<lambda>i pc. pc = Begin \<or> (\<exists>b. pc = AssignB b \<and> bot_Token b = tokens ! i)" "\<lambda>i. reports (adds_bot (tokens ! i))"
  for V rnd tokens
proof (unfold_locales, goal_cases)
  case (3 i pc s pc' s')
  then show ?case by (auto simp: AddBots_item_def dest: bs_Add_token split: prod.splits sum.splits if_splits)
next
  case (4 i pc s res s')
  have "bot_Token b = tokens ! i"
    if "on_bots (bs_Add (sv_bots V) (sv_enc V) (br_nonce rnd i) (br_uuid rnd i) (tokens ! i)) s = (Inr b, s1)" for b s1
    using that by (rule bs_Add_token)
  with 4 show ?case
    by (auto simp: AddBots_item_def adds_bot_def split: prod.splits sum.splits if_splits)
qed simp_all

interpretation add_accounts: bulk_body "AddAccounts_item V rnd phones" pc_rank
  "\<lambda>i pc. pc = Begin \<or> (\<exists>a. pc = AssignA a)" "\<lambda>i. reports adds_account"
  for V rnd phones
proof (unfold_locales, goal_cases)
  case (3 i pc s pc' s')
  then show ?case by (auto simp: AddAccounts_item_def split: prod.splits sum.splits if_splits)
next
  case (4 i pc s res s')
  then show ?case
    by (auto simp: AddAccounts_item_def adds_account_def split: prod.splits sum.splits if_splits)
qed simp_all

interpretation remove_sessions: bulk_body "RemoveSessions_item V sids" pc_rank
  "\<lambda>i pc. pc = Begin \<or> (\<exists>w. pc = RemoveFrom w)" "\<lambda>i. reports (\<lambda>d. d = DataSession (sids ! i))"
  for V sids
proof (unfold_locales, goal_cases)
  case (3 i pc s pc' s')
  then show ?case by (auto simp: RemoveSessions_item_def Let_def split: prod.splits sum.splits if_splits)
next
  case (4 i pc s res s')
  then show ?case
    by (auto simp: RemoveSessions_item_def Let_def split: prod.splits sum.splits if_splits)
qed simp_all

section \<open>Properties of the bulk service\<close>

lemma count_ok_filter: "count_ok items k = k + int (length (filter it_OK items))"
  by (induction items k rule: count_ok.induct) auto

lemma summarize_counts:
  "blk_Total (summarize items) = int (length items)" "blk_Items (summarize items) = items"
  "blk_Succeeded (summarize items) = int (length (filter it_OK items))"
  "blk_Failed (summarize items) = int (length (filter (\<lambda>it. \<not> it_OK it) items))"
proof -
  show "blk_Failed (summarize items) = int (length (filter (\<lambda>it. \<not> it_OK it) items))"
    using sum_length_filter_compl [of it_OK items] by (simp add: summarize_def Let_def count_ok_filter)
qed (simp_all add: summarize_def Let_def count_ok_filter)

text \<open>
  C8: Bulk operations return. Whatever interleaving has happened, and whatever fails in the
  services, after \<open>3 * n\<close> further rounds in which each of the \<open>n\<close> goroutines gets a turn, in any
  order, the call returns; and at no time do more than ten goroutines work.
\<close>

theorem bulk_returns:
  assumes "list_all (\<lambda>r. set r = {..<n}) rounds" and "length rounds = 3 * n"
    and "length tokens = n" and "length phones = n" and "length sids = n"
  shows "(\<exists>res s'. AddBots V rnd (sched @ concat rounds) tokens s = Some (res, s')) \<and>
    (\<exists>res s'. AddAccounts V rnd (sched @ concat rounds) phones s = Some (res, s')) \<and>
    (\<exists>res s'. RemoveSessions V (sched @ concat rounds) sids s = Some (res, s')) \<and>
    sem_used (par_run defaultConcurrency (AddBots_item V rnd tokens) sched (par_start n s)) \<le> 10 \<and>
    sem_used (par_run defaultConcurrency (AddAccounts_item V rnd phones) sched (par_start n s)) \<le> 10 \<and>
    sem_used (par_run defaultConcurrency (RemoveSessions_item V sids) sched (par_start n s)) \<le> 10"
proof -
  have c: "0 < defaultConcurrency" "3 * n \<le> length rounds" "defaultConcurrency = 10"
    using assms(2) by (simp_all add: defaultConcurrency_def)
  note ret = add_bots.parallel_returns [OF c(1) assms(1) c(2)] add_accounts.parallel_returns [OF c(1) assms(1) c(2)]
    remove_sessions.parallel_returns [OF c(1) assms(1) c(2)]
  have "\<exists>res s'. AddBots V rnd (sched @ concat rounds) tokens s = Some (res, s')"
    using ret(1) [of V rnd tokens sched s] assms(3) by (auto simp: AddBots_def)
  moreover have "\<exists>res s'. AddAccounts V rnd (sched @ concat rounds) phones s = Some (res, s')"
    using ret(2) [of V rnd phones sched s] assms(4) by (auto simp: AddAccounts_def)
  moreover have "\<exists>res s'. RemoveSessions V (sched @ concat rounds) sids s = Some (res, s')"
    using ret(3) [of V sids sched s] assms(5) by (auto simp: RemoveSessions_def)
  ultimately show ?thesis
    using add_bots.concurrency_bounded add_accounts.concurrency_bounded remove_sessions.concurrency_bounded c(3) by metis
qed

definition ex_services :: "(AccountMemory, BotMemory, mockClient) services" where
  "ex_services = \<lparr>sv_accounts = account_memory [], sv_bots = bot_memory [], sv_enc = None, sv_env = mock_env\<rparr>"

definition ex_backend :: "(AccountMemory, BotMemory, mockClient) backend" where
  "ex_backend = \<lparr>bk_accounts = am_New, bk_bots = bm_New, bk_mgr = None\<rparr>"

definition ex_rnd :: bulk_rnd where
  "ex_rnd = \<lparr>br_nonce = (\<lambda>_. Inr []), br_uuid = (\<lambda>i. replicate (Suc i) (CHR ''u'')), br_order = (\<lambda>_. [])\<rparr>"

theorem bulk_returns_witness:
  "\<exists>res s'. AddBots ex_services ex_rnd (replicate 6 0 @ concat (replicate 6 [1, 0])) [''1:A'', ''2:B''] ex_backend = Some (res, s')"
proof -
  have rounds: "list_all (\<lambda>r. set r = {..<2 :: nat}) (replicate 6 [1, 0])" by (auto simp: list_all_iff)
  show ?thesis
    using bulk_returns [OF rounds, of "[''1:A'', ''2:B'']" "[''+1'', ''+2'']" "[''a'', ''b'']" ex_services ex_rnd "replicate 6 0" ex_backend]
    by simp
qed

text \<open>
  C27: Bulk results. When a bulk call returns, for whatever interleaving, the result has one item per
  request, in the order of the requests, each with either data or an error; the totals count them;
  and the bot of a successful item has the requested token.
\<close>

theorem bulk_results:
  assumes "AddBots V rnd sched tokens s = Some (res, s')"
  shows "blk_Total res = int (length tokens) \<and> blk_Succeeded res + blk_Failed res = blk_Total res \<and>
    blk_Succeeded res = int (length (filter it_OK (blk_Items res))) \<and>
    map it_Index (blk_Items res) = [0..<length tokens] \<and>
    list_all2 (\<lambda>token it. reports (adds_bot token) it) tokens (blk_Items res)"
proof -
  obtain items where p: "parallel defaultConcurrency (length tokens) (AddBots_item V rnd tokens) sched s = Some (items, s')"
    and res: "res = summarize items" using assms by (auto simp: AddBots_def)
  note R = add_bots.parallel_results [OF p]
  have "map it_Index items = [0..<length tokens]" using R by (intro nth_equalityI) auto
  moreover have "list_all2 (\<lambda>token it. reports (adds_bot token) it) tokens items"
    using R by (simp add: list_all2_conv_all_nth)
  ultimately show ?thesis using R(1) sum_length_filter_compl [of it_OK items] unfolding res summarize_counts by simp
qed

theorem bulk_results_witness:
  "\<exists>res s'. AddBots ex_services ex_rnd [0, 1, 1, 0] [''1:A'', ''1:A''] ex_backend = Some (res, s') \<and>
     blk_Total res = 2 \<and> blk_Succeeded res = 1 \<and> blk_Failed res = 1 \<and> map it_Index (blk_Items res) = [0, 1]"
proof -
  let ?run = "AddBots ex_services ex_rnd [0, 1, 1, 0] [''1:A'', ''1:A''] ex_backend"
  obtain res s' where r: "?run = Some (res, s')" and one: "length (filter it_OK (blk_Items res)) = 1"
    by (simp add: AddBots_def parallel_def par_run_def par_step_def par_start_def sem_used_def defaultConcurrency_def
        AddBots_item_def ex_services_def ex_backend_def ex_rnd_def on_bots_def bs_Add_def Encrypt_def IsEnabled_def
        bot_memory_def bm_Create_def bm_New_def new_bot_def wrap64_def summarize_def item_ok_def item_error_def
        zero_item_def numeral_2_eq_2 Let_def)
  have "[0..<2] = [0, 1 :: nat]" by (simp add: numeral_2_eq_2)
  then show ?thesis using bulk_results [OF r] r one by (intro exI [of _ res] exI [of _ s']) simp
qed

end
