(* ===== verification/Rest_Middleware.thy ===== *)
theory Rest_Middleware
  imports Auth Webhook Bulk Complex_Main
begin

text \<open>
  The REST API: requests, responses, the state of the main node behind the API, and the
  middlewares of \<open>api/rest/middleware\<close>. A middleware takes the rest of the chain as an argument,
  which it calls or not. The token bucket of \<open>golang.org/x/time/rate\<close> is a parameter.
\<close>

section \<open>Requests and responses\<close>

text \<open>
  A decoded JSON body: its string fields, absent ones missing from the list, and the arrays the API
  uses, \<open>None\<close> for an absent or null one. A body that is not JSON is an error.
\<close>

record json_body =
  jb_fields :: "(string, string) gomap"
  jb_items :: "string list option"
  jb_events :: "string list option"

record http_request =
  hr_Method :: string
  hr_Path :: "string list"
  hr_Query :: "(string, string) gomap"
  hr_ApiKey :: string
  hr_ClientIP :: string
  hr_Body :: "error + json_body"

text \<open>What the JSON of keys and webhooks shows: neither hash nor secret.\<close>

record key_view =
  kv_ID :: int
  kv_Name :: string
  kv_KeyPrefix :: string
  kv_CreatedAt :: int

record hook_view =
  hv_ID :: int
  hv_URL :: string
  hv_Events :: "string list option"
  hv_CreatedAt :: int

definition key_json :: "APIKey \<Rightarrow> key_view" where
  "key_json k = \<lparr>kv_ID = key_ID k, kv_Name = key_Name k, kv_KeyPrefix = key_KeyPrefix k, kv_CreatedAt = key_CreatedAt k\<rparr>"

definition hook_json :: "Webhook \<Rightarrow> hook_view" where
  "hook_json w = \<lparr>hv_ID = wh_ID w, hv_URL = wh_URL w, hv_Events = wh_Events w, hv_CreatedAt = wh_CreatedAt w\<rparr>"

datatype rbody =
    NoBody
  | ErrBody error
  | TextBody "(string \<times> string) list"
  | AccountBody Account | AccountsBody "Account list"
  | BotBody Bot | BotsBody "Bot list"
  | KeyBody key_view string | KeysBody "key_view list"
  | HookBody hook_view | HooksBody "hook_view list"
  | BulkBody BulkResult
  | WorkersBody "string list" | MetricsBody "WorkerMetrics list" | DrainBody DrainResult
  | SessionsBody "session list" | SessionBody session
  | DetailBody string error
  | OtherBody string

record response =
  rs_Status :: int
  rs_Body :: rbody

text \<open>A handler writes a response, panics, or has not returned yet under the given schedule.\<close>

datatype outcome = Respond response | Panicked error | Blocked

abbreviation reply :: "int \<Rightarrow> rbody \<Rightarrow> outcome" where
  "reply code body \<equiv> Respond \<lparr>rs_Status = code, rs_Body = body\<rparr>"

definition errorResp :: "int \<Rightarrow> error \<Rightarrow> outcome" where
  "errorResp code err = reply code (ErrBody err)"

section \<open>The main node\<close>

record 'l limiterEntry =
  le_limiter :: 'l
  le_lastSeen :: int

record ('a, 'b, 'c, 'k, 'h, 'p, 'l) node =
  nd_backend :: "('a, 'b, 'c) backend"
  nd_keys :: 'k
  nd_hooks :: 'h
  nd_pool :: "('p, unit) pool"
  nd_limiters :: "(string, 'l limiterEntry) gomap"
  nd_requests :: "(string \<times> string \<times> string, nat) gomap"

record ('a, 'b, 'c, 'k, 'h, 'p, 'l) deps =
  dp_services :: "('a, 'b, 'c) services"
  dp_auth :: "('k AuthRepository \<times> string) option"
  dp_hooks :: "'h WebhookRepository option"
  dp_bulk :: bool
  dp_ifc :: "'p TDClient"
  dp_RPS :: rat
  dp_newLimiter :: 'l
  dp_allow :: "int \<Rightarrow> 'l \<Rightarrow> bool \<times> 'l"
  dp_valid_url :: "string \<Rightarrow> bool"

text \<open>What chance and the environment decide for one request.\<close>

record chance =
  ch_now :: int
  ch_uuid :: string
  ch_nonce :: "error + bytes"
  ch_key :: "error + bytes"
  ch_order :: "nat list"
  ch_orders :: "nat \<Rightarrow> nat list"
  ch_bulk :: bulk_rnd
  ch_sched :: "nat list"
  ch_ping_db :: "error option option"
  ch_ping_redis :: "error option option"

section \<open>Middlewares\<close>

definition mw_Recovery :: "('s \<Rightarrow> outcome \<times> 's) \<Rightarrow> 's \<Rightarrow> outcome \<times> 's" where
  "mw_Recovery next_h s =
     (case next_h s of
        (Panicked err, s') \<Rightarrow> (reply 500 (ErrBody (Errorf ''internal server error'' [])), s')
      | (r, s') \<Rightarrow> (r, s'))"

text \<open>The logger only reads; a panic passes through it.\<close>

definition mw_Logger :: "('s \<Rightarrow> outcome \<times> 's) \<Rightarrow> 's \<Rightarrow> outcome \<times> 's" where
  "mw_Logger next_h s = next_h s"

text \<open>
  \<open>fullPath\<close> is the pattern of the route, empty when there is none. \<open>nd_requests\<close> is the counter by
  method, path and status; the histogram of latencies gets an observation at the same place.
\<close>

definition mw_Metrics :: "string \<Rightarrow> string \<Rightarrow>
    (('a, 'b, 'c, 'k, 'h, 'p, 'l) node \<Rightarrow> outcome \<times> ('a, 'b, 'c, 'k, 'h, 'p, 'l) node) \<Rightarrow>
    ('a, 'b, 'c, 'k, 'h, 'p, 'l) node \<Rightarrow> outcome \<times> ('a, 'b, 'c, 'k, 'h, 'p, 'l) node" where
  "mw_Metrics meth fullPath next_h s =
     (case next_h s of
        (Respond r, s') \<Rightarrow>
          (let path = (if fullPath = [] then ''unknown'' else fullPath);
               label = (meth, path, FormatInt (rs_Status r));
               n = (case go_get (nd_requests s') label of None \<Rightarrow> 0 | Some n \<Rightarrow> n)
           in (Respond r, s'\<lparr>nd_requests := go_put label (Suc n) (nd_requests s')\<rparr>))
      | (r, s') \<Rightarrow> (r, s'))"

definition mw_Auth :: "'k AuthRepository \<Rightarrow> string \<Rightarrow> string \<Rightarrow>
    (('a, 'b, 'c, 'k, 'h, 'p, 'l) node \<Rightarrow> outcome \<times> ('a, 'b, 'c, 'k, 'h, 'p, 'l) node) \<Rightarrow>
    ('a, 'b, 'c, 'k, 'h, 'p, 'l) node \<Rightarrow> outcome \<times> ('a, 'b, 'c, 'k, 'h, 'p, 'l) node" where
  "mw_Auth R masterKey key next_h s =
     (if key = [] then (errorResp 401 (Errorf ''X-Api-Key header required'' []), s)
      else
        (let (valid, ks) = ks_Validate R masterKey key (nd_keys s); s1 = s\<lparr>nd_keys := ks\<rparr>
         in if \<not> valid then (errorResp 401 (Errorf ''invalid api key'' []), s1) else next_h s1))"

subsection \<open>Rate limiting\<close>

definition rate_key :: "http_request \<Rightarrow> string" where
  "rate_key req = (if hr_ApiKey req \<noteq> [] then ''key:'' @ hr_ApiKey req else ''ip:'' @ hr_ClientIP req)"

definition ip_rate_key :: "http_request \<Rightarrow> string" where
  "ip_rate_key req = hr_ClientIP req"

definition getLimiter :: "'l \<Rightarrow> int \<Rightarrow> string \<Rightarrow> (string, 'l limiterEntry) gomap \<Rightarrow> 'l \<times> (string, 'l limiterEntry) gomap" where
  "getLimiter newLimiter now key limiters =
     (let e = (case go_get limiters key of
                 None \<Rightarrow> \<lparr>le_limiter = newLimiter, le_lastSeen = now\<rparr>
               | Some e \<Rightarrow> e\<lparr>le_lastSeen := now\<rparr>)
      in (le_limiter e, go_put key e limiters))"

text \<open>
  \<open>Allow\<close> on the limiter of the key. The entry is a pointer: what \<open>Allow\<close> consumes stays in the map.
\<close>

definition limiter_Allow :: "'l \<Rightarrow> (int \<Rightarrow> 'l \<Rightarrow> bool \<times> 'l) \<Rightarrow> int \<Rightarrow> string \<Rightarrow> (string, 'l limiterEntry) gomap \<Rightarrow>
    bool \<times> (string, 'l limiterEntry) gomap" where
  "limiter_Allow newLimiter allow now key limiters =
     (let (l, limiters1) = getLimiter newLimiter now key limiters;
          (allowed, l') = allow now l
      in (allowed, go_put key \<lparr>le_limiter = l', le_lastSeen = now\<rparr> limiters1))"

text \<open>The background clean-up, once a minute; times are in milliseconds.\<close>

definition limiter_cleanup :: "int \<Rightarrow> (string, 'l limiterEntry) gomap \<Rightarrow> (string, 'l limiterEntry) gomap" where
  "limiter_cleanup now limiters = filter (\<lambda>(k, e). \<not> (now - le_lastSeen e > 5 * 60 * 1000)) limiters"

definition mw_RateLimiter :: "'l \<Rightarrow> (int \<Rightarrow> 'l \<Rightarrow> bool \<times> 'l) \<Rightarrow> int \<Rightarrow> string \<Rightarrow>
    (('a, 'b, 'c, 'k, 'h, 'p, 'l) node \<Rightarrow> outcome \<times> ('a, 'b, 'c, 'k, 'h, 'p, 'l) node) \<Rightarrow>
    ('a, 'b, 'c, 'k, 'h, 'p, 'l) node \<Rightarrow> outcome \<times> ('a, 'b, 'c, 'k, 'h, 'p, 'l) node" where
  "mw_RateLimiter newLimiter allow now key next_h s =
     (let (allowed, ls) = limiter_Allow newLimiter allow now key (nd_limiters s); s1 = s\<lparr>nd_limiters := ls\<rparr>
      in if \<not> allowed then (errorResp 429 (Errorf ''rate limit exceeded'' []), s1) else next_h s1)"

section \<open>Facts about the middlewares\<close>

text \<open>Requests with the rate-limit key they fall under, and runs of the clean-up.\<close>

datatype limiter_event = Hit int string | Cleanup int

fun event_time :: "limiter_event \<Rightarrow> int" where
  "event_time (Hit t k) = t"
| "event_time (Cleanup t) = t"

fun limiter_run :: "'l \<Rightarrow> (int \<Rightarrow> 'l \<Rightarrow> bool \<times> 'l) \<Rightarrow> limiter_event list \<Rightarrow> (string, 'l limiterEntry) gomap \<Rightarrow> bool list" where
  "limiter_run new allow [] ls = []"
| "limiter_run new allow (Hit t k # es) ls =
     (let (b, ls') = limiter_Allow new allow t k ls in b # limiter_run new allow es ls')"
| "limiter_run new allow (Cleanup t # es) ls = limiter_run new allow es (limiter_cleanup t ls)"

text \<open>The reference: one limiter per key for ever.\<close>

fun bucket_run :: "'l \<Rightarrow> (int \<Rightarrow> 'l \<Rightarrow> bool \<times> 'l) \<Rightarrow> limiter_event list \<Rightarrow> (string \<Rightarrow> 'l) \<Rightarrow> bool list" where
  "bucket_run new allow [] m = []"
| "bucket_run new allow (Hit t k # es) m = (let (b, l) = allow t (m k) in b # bucket_run new allow es (m(k := l)))"
| "bucket_run new allow (Cleanup t # es) m = bucket_run new allow es m"

lemma limiter_Allow_eq:
  "limiter_Allow new allow t k ls =
     (let l = (case go_get ls k of None \<Rightarrow> new | Some e \<Rightarrow> le_limiter e); (b, l') = allow t l
      in (b, go_put k \<lparr>le_limiter = l', le_lastSeen = t\<rparr> (go_put k \<lparr>le_limiter = l, le_lastSeen = t\<rparr> ls)))"
  by (simp add: limiter_Allow_def getLimiter_def Let_def split: option.splits prod.splits)

text \<open>
  What \<open>golang.org/x/time/rate\<close> documents of a limiter of \<open>rate\<close> events per second with bursts of
  \<open>burst\<close>: \<open>level t l\<close> is the number of tokens it has at time \<open>t\<close> (\<open>TokensAt\<close>), \<open>charged l\<close> the
  last time it changed. It starts full, fills at \<open>rate\<close> up to \<open>burst\<close>, and \<open>Allow\<close> takes one token
  when there is one and is refused without a charge when there is none. Times are in milliseconds.
\<close>

locale token_bucket =
  fixes rate burst :: rat and new :: 'l and allow :: "int \<Rightarrow> 'l \<Rightarrow> bool \<times> 'l"
    and level :: "int \<Rightarrow> 'l \<Rightarrow> rat" and charged :: "'l \<Rightarrow> int"
  assumes limits: "0 \<le> rate" "0 \<le> burst"
    and full: "0 \<le> t \<Longrightarrow> charged new \<le> t \<and> level t new = burst"
    and fills: "charged l \<le> t \<Longrightarrow> t \<le> t' \<Longrightarrow> level t' l = min burst (level t l + rate * of_int (t' - t) / 1000)"
    and decides: "fst (allow t l) \<longleftrightarrow> 1 \<le> level t l"
    and charges: "charged l \<le> t \<Longrightarrow> charged (snd (allow t l)) \<le> t \<and>
      level t (snd (allow t l)) = (if 1 \<le> level t l then level t l - 1 else level t l)"
begin

text \<open>Two limiters that nobody can tell apart from time \<open>t\<close> on.\<close>

definition alike :: "int \<Rightarrow> 'l \<Rightarrow> 'l \<Rightarrow> bool" where
  "alike t l l' \<longleftrightarrow> charged l \<le> t \<and> charged l' \<le> t \<and> level t l = level t l' \<and> 0 \<le> level t l \<and> level t l \<le> burst"

lemma alike_refl: "charged l \<le> t \<Longrightarrow> 0 \<le> level t l \<Longrightarrow> level t l \<le> burst \<Longrightarrow> alike t l l"
  by (simp add: alike_def)

lemma alike_new: "0 \<le> t \<Longrightarrow> alike t new new"
  using full limits by (simp add: alike_def)

lemma alike_later:
  assumes "alike t l l'" "t \<le> t'"
  shows "alike t' l l'"
proof -
  have "0 \<le> rate * of_int (t' - t) / 1000" using limits assms(2) by simp
  then show ?thesis
    using assms fills [of l t t'] fills [of l' t t'] limits by (auto simp: alike_def)
qed

lemma alike_allow:
  assumes "alike t l l'"
  shows "fst (allow t l) = fst (allow t l') \<and> alike t (snd (allow t l)) (snd (allow t l'))"
  using assms decides charges [of l t] charges [of l' t] limits by (auto simp: alike_def)

end

text \<open>When five minutes fill an empty bucket, one that was idle that long is as good as new.\<close>

locale refilling_bucket = token_bucket rate burst new allow level charged
  for rate burst :: rat and new :: 'l and allow level charged +
  assumes refill: "burst \<le> 5 * 60 * rate"
begin

lemma alike_idle:
  assumes "alike t l l" "t + 5 * 60 * 1000 < t'" "0 \<le> t"
  shows "alike t' l new"
proof -
  have "5 * 60 * rate \<le> rate * of_int (t' - t) / 1000"
  proof -
    have "300000 \<le> t' - t" using assms(2) by simp
    then have "of_int 300000 \<le> (of_int (t' - t) :: rat)" by (rule of_int_le_iff [THEN iffD2])
    then have "(300000 :: rat) \<le> of_int (t' - t)" by simp
    from mult_left_mono [OF this limits(1)] show ?thesis by simp
  qed
  then have "burst \<le> level t l + rate * of_int (t' - t) / 1000" using refill assms(1) by (simp add: alike_def)
  then have "level t' l = burst" using fills [of l t t'] assms by (simp add: alike_def)
  then show ?thesis using assms full [of t'] limits by (simp add: alike_def)
qed

text \<open>\<open>m\<close> has every limiter ever made; a key without an entry has one that is as good as new.\<close>

fun same_limit :: "int \<Rightarrow> 'l limiterEntry option \<Rightarrow> 'l \<Rightarrow> bool" where
  "same_limit t (Some e) l \<longleftrightarrow> alike (le_lastSeen e) l (le_limiter e) \<and> 0 \<le> le_lastSeen e \<and> le_lastSeen e \<le> t"
| "same_limit t None l \<longleftrightarrow> alike t l new"

definition same_limits :: "int \<Rightarrow> (string, 'l limiterEntry) gomap \<Rightarrow> (string \<Rightarrow> 'l) \<Rightarrow> bool" where
  "same_limits t ls m \<longleftrightarrow> gomap_ok ls \<and> (\<forall>k. same_limit t (go_get ls k) (m k))"

lemma same_limit_later: "same_limit t e l \<Longrightarrow> t \<le> t' \<Longrightarrow> same_limit t' e l"
  by (cases e) (auto intro: alike_later)

lemma same_limits_later: "same_limits t ls m \<Longrightarrow> t \<le> t' \<Longrightarrow> same_limits t' ls m"
  unfolding same_limits_def using same_limit_later by blast

lemma same_limits_hit:
  assumes sim: "same_limits t ls m" and t: "0 \<le> t"
    and a: "allow t (m k) = (b, l)" and la: "limiter_Allow new allow t k ls = (b', ls')"
  shows "b' = b \<and> same_limits t ls' (m(k := l))"
proof -
  let ?l0 = "case go_get ls k of None \<Rightarrow> new | Some e \<Rightarrow> le_limiter e"
  obtain b0 l0 where a0: "allow t ?l0 = (b0, l0)" by fastforce
  have "alike t (m k) ?l0"
  proof -
    have "same_limit t (go_get ls k) (m k)" using sim by (simp add: same_limits_def)
    then show ?thesis by (cases "go_get ls k") (auto intro: alike_later)
  qed
  from alike_allow [OF this] have eq: "b0 = b" "alike t l l0" using a a0 by auto
  have ls': "b' = b0" "ls' = go_put k \<lparr>le_limiter = l0, le_lastSeen = t\<rparr> (go_put k \<lparr>le_limiter = ?l0, le_lastSeen = t\<rparr> ls)"
    using la a0 by (simp_all add: limiter_Allow_eq Let_def)
  have "go_get ls' j = (if j = k then Some \<lparr>le_limiter = l0, le_lastSeen = t\<rparr> else go_get ls j)" for j
    using ls'(2) by simp
  moreover have "gomap_ok ls'" using ls'(2) sim by (simp add: same_limits_def)
  ultimately show ?thesis using ls'(1) eq sim t by (simp add: same_limits_def)
qed

lemma same_limit_cleanup:
  assumes "same_limit t (Some e) l" "t - le_lastSeen e > 5 * 60 * 1000"
  shows "same_limit t None l"
proof -
  have "alike (le_lastSeen e) l l" using assms(1) by (simp add: alike_def)
  then show ?thesis using alike_idle assms by simp
qed

lemma same_limits_cleanup:
  assumes "same_limits t ls m"
  shows "same_limits t (limiter_cleanup t ls) m"
proof -
  let ?keep = "\<lambda>(k :: string, e). \<not> (t - le_lastSeen e > 5 * 60 * 1000)"
  have ok: "gomap_ok ls" using assms by (simp add: same_limits_def)
  have okf: "gomap_ok (filter ?keep ls)" using ok by (simp add: distinct_map_filter)
  have get: "go_get (filter ?keep ls) k = (case go_get ls k of None \<Rightarrow> None | Some e \<Rightarrow> if ?keep (k, e) then Some e else None)" for k
  proof (cases "go_get (filter ?keep ls) k")
    case None
    then have "\<not> (\<exists>e. (k, e) \<in> set ls \<and> ?keep (k, e))" by (force simp: map_of_eq_None_iff)
    then show ?thesis using None by (auto simp: go_get_Some_iff [OF ok] split: option.splits)
  next
    case (Some e)
    then have "(k, e) \<in> set ls" "?keep (k, e)" using go_get_Some_iff [OF okf] by auto
    then have "go_get ls k = Some e" using go_get_Some_iff [OF ok] by blast
    then show ?thesis using Some \<open>?keep (k, e)\<close> by simp
  qed
  have "same_limit t (go_get (filter ?keep ls) k) (m k)" for k
  proof -
    have k: "same_limit t (go_get ls k) (m k)" using assms by (simp add: same_limits_def)
    show ?thesis
    proof (cases "go_get ls k")
      case None
      then show ?thesis using k unfolding get by simp
    next
      case (Some e)
      then show ?thesis using k same_limit_cleanup [of t e "m k"] unfolding get by (simp del: same_limit.simps)
    qed
  qed
  then show ?thesis using okf unfolding same_limits_def limiter_cleanup_def by blast
qed

lemma limiter_equiv:
  assumes "same_limits t ls m" "0 \<le> t" "sorted (t # map event_time es)"
  shows "limiter_run new allow es ls = bucket_run new allow es m"
  using assms
proof (induction es arbitrary: t ls m)
  case (Cons e es)
  have later: "same_limits (event_time e) ls m" "0 \<le> event_time e" "sorted (event_time e # map event_time es)"
    using Cons.prems same_limits_later by auto
  show ?case
  proof (cases e)
    case (Hit t1 k)
    obtain b l where a: "allow t1 (m k) = (b, l)" by fastforce
    obtain b' ls' where la: "limiter_Allow new allow t1 k ls = (b', ls')" by fastforce
    have hit: "b' = b" "same_limits t1 ls' (m(k := l))"
      using same_limits_hit [where t = t1 and m = m, OF _ _ a la] later Hit by auto
    have "0 \<le> t1" "sorted (t1 # map event_time es)" using later Hit by simp_all
    from Cons.IH [OF hit(2) this] show ?thesis using Hit a la hit(1) by (simp add: fun_upd_def)
  next
    case (Cleanup t1)
    then show ?thesis using Cons.IH [OF same_limits_cleanup [OF later(1)] later(2,3)] by simp
  qed
qed simp

lemma limiter_equiv_start:
  "sorted (0 # map event_time es) \<Longrightarrow> limiter_run new allow es [] = bucket_run new allow es (\<lambda>_. new)"
  by (rule limiter_equiv [where t = 0]) (simp_all add: same_limits_def alike_new)

end

text \<open>A token bucket that keeps the promises, for every rate and burst.\<close>

record bucket =
  bu_tokens :: rat
  bu_last :: int

definition bucket_new :: "rat \<Rightarrow> bucket" where
  "bucket_new burst = \<lparr>bu_tokens = burst, bu_last = 0\<rparr>"

definition bucket_level :: "rat \<Rightarrow> rat \<Rightarrow> int \<Rightarrow> bucket \<Rightarrow> rat" where
  "bucket_level rate burst now l = min burst (bu_tokens l + rate * of_int (now - bu_last l) / 1000)"

definition bucket_allow :: "rat \<Rightarrow> rat \<Rightarrow> int \<Rightarrow> bucket \<Rightarrow> bool \<times> bucket" where
  "bucket_allow rate burst now l =
     (let tokens = bucket_level rate burst now l
      in if 1 \<le> tokens then (True, \<lparr>bu_tokens = tokens - 1, bu_last = now\<rparr>) else (False, l))"

lemma min_fill: "0 \<le> d \<Longrightarrow> min b (x + (a + d)) = min b (min b (x + a) + d)" for b x a d :: rat
  by (auto simp: min_def)

lemma bucket_promises:
  assumes "0 \<le> rate" "0 \<le> burst"
  shows "token_bucket rate burst (bucket_new burst) (bucket_allow rate burst) (bucket_level rate burst) bu_last"
proof (unfold_locales, goal_cases)
  case (4 l t t')
  have "rate * of_int (t' - bu_last l) / 1000 = rate * of_int (t - bu_last l) / 1000 + rate * of_int (t' - t) / 1000"
    by (simp add: field_simps)
  moreover have "0 \<le> rate * of_int (t' - t) / 1000" using assms 4 by simp
  ultimately show ?case unfolding bucket_level_def by (simp only: min_fill)
qed (use assms in \<open>auto simp: bucket_new_def bucket_level_def bucket_allow_def Let_def min_def\<close>)

lemma bucket_refills:
  assumes "0 \<le> rate" "0 \<le> burst" "burst \<le> 5 * 60 * rate"
  shows "refilling_bucket rate burst (bucket_new burst) (bucket_allow rate burst) (bucket_level rate burst) bu_last"
  using bucket_promises [OF assms(1,2)] assms(3) by (simp add: refilling_bucket_def refilling_bucket_axioms_def)

text \<open>The default configuration: 100 requests a second, bursts of 200.\<close>

interpretation default_bucket: refilling_bucket 100 200 "bucket_new 200" "bucket_allow 100 200" "bucket_level 100 200" bu_last
  by (rule bucket_refills) simp_all



text \<open>One token a quarter of an hour: the clean-up after five minutes gives it back at once.\<close>

lemma cleanup_gives_early_token:
  fixes es :: "limiter_event list"
  defines "es \<equiv> [Hit 0 ''key:a'', Cleanup 360000, Hit 360001 ''key:a'']"
  shows "limiter_run (bucket_new 1) (bucket_allow (1 / 900) 1) es [] = [True, True] \<and>
    bucket_run (bucket_new 1) (bucket_allow (1 / 900) 1) es (\<lambda>_. bucket_new 1) = [True, False]"
  unfolding es_def
  by (simp add: limiter_Allow_eq limiter_cleanup_def bucket_allow_def bucket_level_def bucket_new_def)

text \<open>The bucket belongs to the key of the request: a key not seen before starts with a full one.\<close>

lemma unseen_key_allowed:
  "go_get ls k = None \<Longrightarrow> fst (limiter_Allow new allow t k ls) = fst (allow t new)"
  by (simp add: limiter_Allow_eq Let_def split: prod.splits)

lemma other_keys_unaffected:
  "k' \<noteq> k \<Longrightarrow> go_get (snd (limiter_Allow new allow t k ls)) k' = go_get ls k'"
  by (simp add: limiter_Allow_eq Let_def split: prod.splits)

end
