(* ===== verification/Rest_Handlers.thy ===== *)
theory Rest_Handlers
  imports Rest_Middleware
begin

text \<open>
  The handlers of \<open>api/rest/handler\<close>, one definition per endpoint, every branch with its status
  code. A handler gets the wiring of the node, what chance decides, the path parameter where the
  route has one, and the request.
\<close>

section \<open>Helpers\<close>

definition on_backend :: "(('a, 'b, 'c) backend \<Rightarrow> 'x \<times> ('a, 'b, 'c) backend) \<Rightarrow>
    ('a, 'b, 'c, 'k, 'h, 'p, 'l) node \<Rightarrow> 'x \<times> ('a, 'b, 'c, 'k, 'h, 'p, 'l) node" where
  "on_backend f s = (let (x, b) = f (nd_backend s) in (x, s\<lparr>nd_backend := b\<rparr>))"

text \<open>A method call on the manager; on a nil pointer it panics, which is \<open>None\<close>.\<close>

definition call_mgr :: "('c manager \<Rightarrow> 'x \<times> 'c manager) \<Rightarrow>
    ('a, 'b, 'c, 'k, 'h, 'p, 'l) node \<Rightarrow> 'x option \<times> ('a, 'b, 'c, 'k, 'h, 'p, 'l) node" where
  "call_mgr f s =
     (case bk_mgr (nd_backend s) of
        None \<Rightarrow> (None, s)
      | Some m \<Rightarrow> (let (x, m') = f m in (Some x, s\<lparr>nd_backend := (nd_backend s)\<lparr>bk_mgr := Some m'\<rparr>\<rparr>)))"

definition nil_pointer :: outcome where
  "nil_pointer = Panicked (Panic ''invalid memory address or nil pointer dereference'')"

text \<open>\<open>ShouldBindJSON\<close> with the \<open>required\<close> tags of string fields.\<close>

definition field :: "json_body \<Rightarrow> string \<Rightarrow> string" where
  "field b key = (case go_get (jb_fields b) key of None \<Rightarrow> [] | Some v \<Rightarrow> v)"

fun check_required :: "string list \<Rightarrow> json_body \<Rightarrow> error option" where
  "check_required [] b = None"
| "check_required (k # ks) b =
     (if field b k = [] then Some (Errorf ''Field validation for %q failed on the 'required' tag'' [k]) else check_required ks b)"

definition bind_required :: "string list \<Rightarrow> http_request \<Rightarrow> error + json_body" where
  "bind_required keys req =
     (case hr_Body req of
        Inl err \<Rightarrow> Inl err
      | Inr b \<Rightarrow> (case check_required keys b of Some err \<Rightarrow> Inl err | None \<Rightarrow> Inr b))"

text \<open>\<open>required,min=lo,max=hi\<close> on an array.\<close>

definition bind_items :: "nat \<Rightarrow> nat \<Rightarrow> http_request \<Rightarrow> error + string list" where
  "bind_items lo hi req =
     (case hr_Body req of
        Inl err \<Rightarrow> Inl err
      | Inr b \<Rightarrow>
          (case jb_items b of
             None \<Rightarrow> Inl (Errorf ''Field validation failed on the 'required' tag'' [])
           | Some xs \<Rightarrow>
               (if length xs < lo then Inl (Errorf ''Field validation failed on the 'min' tag'' [])
                else if hi < length xs then Inl (Errorf ''Field validation failed on the 'max' tag'' [])
                else Inr xs)))"

definition parse_id :: "string \<Rightarrow> error + int" where
  "parse_id param =
     (case ParseInt param 10 of
        Inl ErrSyntax \<Rightarrow> Inl (Errorf ''strconv.ParseInt: parsing %q: invalid syntax'' [param])
      | Inl ErrRange \<Rightarrow> Inl (Errorf ''strconv.ParseInt: parsing %q: value out of range'' [param])
      | Inr i \<Rightarrow> Inr i)"

definition queryInt :: "http_request \<Rightarrow> string \<Rightarrow> int \<Rightarrow> int" where
  "queryInt req key def =
     (case go_get (hr_Query req) key of
        None \<Rightarrow> def
      | Some v \<Rightarrow> (if v = [] then def else (case Atoi v of Inl _ \<Rightarrow> def | Inr n \<Rightarrow> n)))"

definition list_filter :: "http_request \<Rightarrow> ListFilter" where
  "list_filter req =
     \<lparr>lf_Status = (case go_get (hr_Query req) ''status'' of None \<Rightarrow> None | Some st \<Rightarrow> if st = [] then None else Some st),
      lf_WorkerID = None, lf_Limit = queryInt req ''limit'' 50, lf_Offset = queryInt req ''offset'' 0\<rparr>"

section \<open>Accounts\<close>

text \<open>\<open>worker\<close> says whether the interface of the manager in the handler is not nil.\<close>

definition acc_create where
  "acc_create D worker ch req s =
     (case bind_required [''phone''] req of
        Inl err \<Rightarrow> (errorResp 400 err, s)
      | Inr b \<Rightarrow>
          (case on_backend (on_accounts (as_Add (sv_accounts (dp_services D)) (ch_uuid ch) (field b ''phone''))) s of
             (Inl err, s1) \<Rightarrow> (errorResp 500 err, s1)
           | (Inr a, s1) \<Rightarrow>
               (if \<not> worker then (reply 201 (AccountBody a), s1)
                else
                  (case call_mgr (AssignAccount (sv_env (dp_services D)) (ch_order ch) (acc_SessionID a) (acc_Phone a)) s1 of
                     (None, s2) \<Rightarrow> (nil_pointer, s2)
                   | (Some (Inl err), s2) \<Rightarrow> (errorResp 500 err, s2)
                   | (Some (Inr workerID), s2) \<Rightarrow>
                       (let a' = a\<lparr>acc_WorkerID := Some workerID, acc_Status := ''authorizing''\<rparr>;
                            (_, s3) = on_backend (on_accounts (as_UpdateStatus (sv_accounts (dp_services D)) (acc_ID a') ''authorizing'')) s2;
                            (_, s4) = on_backend (on_accounts (as_UpdateWorkerID (sv_accounts (dp_services D)) (acc_SessionID a') workerID)) s3
                        in (reply 201 (AccountBody a'), s4))))))"

definition acc_list where
  "acc_list D req s =
     (case on_backend (on_accounts (as_List (sv_accounts (dp_services D)) (list_filter req))) s of
        (Inl err, s1) \<Rightarrow> (errorResp 500 err, s1)
      | (Inr accounts, s1) \<Rightarrow> (reply 200 (AccountsBody accounts), s1))"

definition acc_get where
  "acc_get D param s =
     (case parse_id param of
        Inl err \<Rightarrow> (errorResp 400 err, s)
      | Inr i \<Rightarrow>
          (case on_backend (on_accounts (as_Get (sv_accounts (dp_services D)) i)) s of
             (Inl err, s1) \<Rightarrow> (errorResp (if errors_Is err ErrNoRows then 404 else 500) err, s1)
           | (Inr a, s1) \<Rightarrow> (reply 200 (AccountBody a), s1)))"

definition acc_delete where
  "acc_delete D param s =
     (case parse_id param of
        Inl err \<Rightarrow> (errorResp 400 err, s)
      | Inr i \<Rightarrow>
          (case on_backend (on_accounts (as_Remove (sv_accounts (dp_services D)) i)) s of
             (Some err, s1) \<Rightarrow> (errorResp 500 err, s1)
           | (None, s1) \<Rightarrow> (reply 204 NoBody, s1)))"

text \<open>
  The two endpoints that submit a secret to the worker of an account share their shape: \<open>key\<close> is
  the field of the body, \<open>submit\<close> the call on the manager.
\<close>

definition acc_submit where
  "acc_submit D worker key submit status param req s =
     (if \<not> worker then (errorResp 501 (Errorf ''auth not available'' []), s)
      else
        (case parse_id param of
           Inl err \<Rightarrow> (errorResp 400 err, s)
         | Inr i \<Rightarrow>
             (case bind_required [key] req of
                Inl err \<Rightarrow> (errorResp 400 err, s)
              | Inr b \<Rightarrow>
                  (case on_backend (on_accounts (as_Get (sv_accounts (dp_services D)) i)) s of
                     (Inl err, s1) \<Rightarrow> (errorResp 404 err, s1)
                   | (Inr a, s1) \<Rightarrow>
                       (case acc_WorkerID a of
                          None \<Rightarrow> (errorResp 400 (Errorf ''account not assigned to a worker'' []), s1)
                        | Some w \<Rightarrow>
                            (case call_mgr (submit w (acc_SessionID a) (field b key)) s1 of
                               (None, s2) \<Rightarrow> (nil_pointer, s2)
                             | (Some (Inl err), s2) \<Rightarrow> (errorResp 500 err, s2)
                             | (Some (Inr _), s2) \<Rightarrow> (reply 200 (TextBody [(''status'', status)]), s2)))))))"

definition acc_sendAuthCode where
  "acc_sendAuthCode D worker param req s =
     acc_submit D worker ''code'' (mgr_SendAuthCode (sv_env (dp_services D))) ''code_submitted'' param req s"

definition acc_sendPassword where
  "acc_sendPassword D worker param req s =
     acc_submit D worker ''password'' (mgr_SendPassword (sv_env (dp_services D))) ''password_submitted'' param req s"

definition acc_getAuthState where
  "acc_getAuthState D worker param s =
     (if \<not> worker then (errorResp 501 (Errorf ''auth not available'' []), s)
      else
        (case parse_id param of
           Inl err \<Rightarrow> (errorResp 400 err, s)
         | Inr i \<Rightarrow>
             (case on_backend (on_accounts (as_Get (sv_accounts (dp_services D)) i)) s of
                (Inl err, s1) \<Rightarrow> (errorResp 404 err, s1)
              | (Inr a, s1) \<Rightarrow>
                  (case acc_WorkerID a of
                     None \<Rightarrow> (reply 200 (TextBody [(''session_id'', acc_SessionID a), (''state'', ''not_assigned'')]), s1)
                   | Some w \<Rightarrow>
                       (case call_mgr (mgr_GetAuthState (sv_env (dp_services D)) w (acc_SessionID a)) s1 of
                          (None, s2) \<Rightarrow> (nil_pointer, s2)
                        | (Some (Inl err), s2) \<Rightarrow> (errorResp 500 err, s2)
                        | (Some (Inr state), s2) \<Rightarrow>
                            (reply 200 (TextBody [(''session_id'', acc_SessionID a), (''state'', state)]), s2))))))"

section \<open>Bots\<close>

definition bot_create where
  "bot_create D worker ch req s =
     (case bind_required [''token''] req of
        Inl err \<Rightarrow> (errorResp 400 err, s)
      | Inr body \<Rightarrow>
          (case on_backend (on_bots (bs_Add (sv_bots (dp_services D)) (sv_enc (dp_services D)) (ch_nonce ch) (ch_uuid ch) (field body ''token''))) s of
             (Inl err, s1) \<Rightarrow> (errorResp 500 err, s1)
           | (Inr b, s1) \<Rightarrow>
               (if \<not> worker then (reply 201 (BotBody b), s1)
                else
                  (case call_mgr (AssignBot (sv_env (dp_services D)) (ch_order ch) (bot_SessionID b) (bot_Token b)) s1 of
                     (None, s2) \<Rightarrow> (nil_pointer, s2)
                   | (Some (Inl err), s2) \<Rightarrow> (errorResp 500 err, s2)
                   | (Some (Inr workerID), s2) \<Rightarrow>
                       (let b' = b\<lparr>bot_WorkerID := Some workerID, bot_Status := ''ready''\<rparr>;
                            (_, s3) = on_backend (on_bots (bs_UpdateStatus (sv_bots (dp_services D)) (bot_ID b') ''ready'')) s2;
                            (_, s4) = on_backend (on_bots (bs_UpdateWorkerID (sv_bots (dp_services D)) (bot_SessionID b') workerID)) s3
                        in (reply 201 (BotBody b'), s4))))))"

definition bot_list where
  "bot_list D req s =
     (case on_backend (on_bots (bs_List (sv_bots (dp_services D)) (sv_enc (dp_services D)) (list_filter req))) s of
        (Inl err, s1) \<Rightarrow> (errorResp 500 err, s1)
      | (Inr bots, s1) \<Rightarrow> (reply 200 (BotsBody bots), s1))"

definition bot_get where
  "bot_get D param s =
     (case parse_id param of
        Inl err \<Rightarrow> (errorResp 400 err, s)
      | Inr i \<Rightarrow>
          (case on_backend (on_bots (bs_Get (sv_bots (dp_services D)) (sv_enc (dp_services D)) i)) s of
             (Inl err, s1) \<Rightarrow> (errorResp (if errors_Is err ErrNoRows then 404 else 500) err, s1)
           | (Inr b, s1) \<Rightarrow> (reply 200 (BotBody b), s1)))"

definition bot_delete where
  "bot_delete D param s =
     (case parse_id param of
        Inl err \<Rightarrow> (errorResp 400 err, s)
      | Inr i \<Rightarrow>
          (case on_backend (on_bots (bs_Remove (sv_bots (dp_services D)) i)) s of
             (Some err, s1) \<Rightarrow> (errorResp 500 err, s1)
           | (None, s1) \<Rightarrow> (reply 204 NoBody, s1)))"

section \<open>Sessions of the node\<close>

definition ses_list where
  "ses_list s = (reply 200 (SessionsBody (Pool_List (nd_pool s))), s)"

definition ses_get where
  "ses_get param s =
     (case Pool_Get param (nd_pool s) of
        None \<Rightarrow> (errorResp 404 (Errorf ''session %q not found'' [param]), s)
      | Some x \<Rightarrow> (reply 200 (SessionBody x), s))"

definition ses_stop where
  "ses_stop D param s =
     (case Pool_Remove (dp_ifc D) param (nd_pool s) of
        (Some err, p) \<Rightarrow> (errorResp 404 err, s\<lparr>nd_pool := p\<rparr>)
      | (None, p) \<Rightarrow> (reply 204 NoBody, s\<lparr>nd_pool := p\<rparr>))"

section \<open>Workers\<close>

definition wk_list where
  "wk_list ch s =
     (case call_mgr (\<lambda>m. (Workers (ch_order ch) m, m)) s of
        (None, s1) \<Rightarrow> (nil_pointer, s1)
      | (Some ws, s1) \<Rightarrow> (reply 200 (WorkersBody ws), s1))"

definition wk_metrics where
  "wk_metrics D ch s =
     (case call_mgr (CollectMetrics (sv_env (dp_services D)) (ch_order ch)) s of
        (None, s1) \<Rightarrow> (nil_pointer, s1)
      | (Some ms, s1) \<Rightarrow> (reply 200 (MetricsBody ms), s1))"

definition wk_add where
  "wk_add D req s =
     (case bind_required [''id'', ''addr''] req of
        Inl err \<Rightarrow> (errorResp 400 err, s)
      | Inr b \<Rightarrow>
          (case call_mgr (AddWorker (sv_env (dp_services D)) \<lparr>cfg_ID = field b ''id'', cfg_Addr = field b ''addr''\<rparr>) s of
             (None, s1) \<Rightarrow> (nil_pointer, s1)
           | (Some (Some err), s1) \<Rightarrow> (errorResp 400 err, s1)
           | (Some None, s1) \<Rightarrow>
               (reply 201 (TextBody [(''id'', field b ''id''), (''addr'', field b ''addr'')]), s1)))"

definition wk_remove where
  "wk_remove param s =
     (case call_mgr (RemoveWorker param) s of
        (None, s1) \<Rightarrow> (nil_pointer, s1)
      | (Some (Some err), s1) \<Rightarrow> (errorResp 404 err, s1)
      | (Some None, s1) \<Rightarrow> (reply 204 NoBody, s1))"

definition wk_drain where
  "wk_drain D ch param s =
     (case call_mgr (DrainWorker (sv_env (dp_services D)) (ch_orders ch) param) s of
        (None, s1) \<Rightarrow> (nil_pointer, s1)
      | (Some (Inl err), s1) \<Rightarrow> (errorResp 400 err, s1)
      | (Some (Inr (result, Some err)), s1) \<Rightarrow> (errorResp 400 err, s1)
      | (Some (Inr (result, None)), s1) \<Rightarrow> (reply 200 (DrainBody result), s1))"

section \<open>API keys\<close>

definition key_create where
  "key_create R ch req s =
     (case bind_required [''name''] req of
        Inl err \<Rightarrow> (errorResp 400 err, s)
      | Inr b \<Rightarrow>
          (case ks_Create R (ch_key ch) (field b ''name'') (nd_keys s) of
             (Inl err, r) \<Rightarrow> (errorResp 500 err, s\<lparr>nd_keys := r\<rparr>)
           | (Inr (k, rawKey), r) \<Rightarrow> (reply 201 (KeyBody (key_json k) rawKey), s\<lparr>nd_keys := r\<rparr>)))"

definition key_list where
  "key_list R s =
     (case ks_List R (nd_keys s) of
        (Inl err, r) \<Rightarrow> (errorResp 500 err, s\<lparr>nd_keys := r\<rparr>)
      | (Inr keys, r) \<Rightarrow> (reply 200 (KeysBody (map key_json keys)), s\<lparr>nd_keys := r\<rparr>))"

definition key_delete where
  "key_delete R param s =
     (case parse_id param of
        Inl err \<Rightarrow> (errorResp 400 (Errorf ''invalid id'' []), s)
      | Inr i \<Rightarrow>
          (case ks_Delete R i (nd_keys s) of
             (Some err, r) \<Rightarrow>
               (if err = ErrNotFound then errorResp 404 (Errorf ''key not found'' []) else errorResp 500 err, s\<lparr>nd_keys := r\<rparr>)
           | (None, r) \<Rightarrow> (reply 204 NoBody, s\<lparr>nd_keys := r\<rparr>)))"

section \<open>Webhooks\<close>

definition hook_create where
  "hook_create D R req s =
     (case bind_required [''url''] req of
        Inl err \<Rightarrow> (errorResp 400 err, s)
      | Inr b \<Rightarrow>
          (if \<not> dp_valid_url D (field b ''url'')
           then (errorResp 400 (Errorf ''Field validation for %q failed on the 'url' tag'' [''url'']), s)
           else
             (let events = (case jb_events b of None \<Rightarrow> Some [] | Some es \<Rightarrow> Some es) in
              case hs_Create R (field b ''url'') (field b ''secret'') events (nd_hooks s) of
                (Inl err, r) \<Rightarrow> (errorResp 500 err, s\<lparr>nd_hooks := r\<rparr>)
              | (Inr wh, r) \<Rightarrow> (reply 201 (HookBody (hook_json wh)), s\<lparr>nd_hooks := r\<rparr>))))"

definition hook_list where
  "hook_list R s =
     (case hs_List R (nd_hooks s) of
        (Inl err, r) \<Rightarrow> (errorResp 500 err, s\<lparr>nd_hooks := r\<rparr>)
      | (Inr hooks, r) \<Rightarrow> (reply 200 (HooksBody (map hook_json hooks)), s\<lparr>nd_hooks := r\<rparr>))"

definition hook_delete where
  "hook_delete R param s =
     (case parse_id param of
        Inl err \<Rightarrow> (errorResp 400 (Errorf ''invalid id'' []), s)
      | Inr i \<Rightarrow>
          (case hs_Delete R i (nd_hooks s) of
             (Some err, r) \<Rightarrow>
               (if err = ErrWebhookNotFound then errorResp 404 (Errorf ''webhook not found'' []) else errorResp 500 err,
                s\<lparr>nd_hooks := r\<rparr>)
           | (None, r) \<Rightarrow> (reply 204 NoBody, s\<lparr>nd_hooks := r\<rparr>)))"

section \<open>Bulk operations\<close>

definition bulk_reply where
  "bulk_reply res s =
     (case res of
        None \<Rightarrow> (Blocked, s)
      | Some (result, b) \<Rightarrow> (reply 207 (BulkBody result), s\<lparr>nd_backend := b\<rparr>))"

definition bulk_addBots where
  "bulk_addBots D ch req s =
     (case bind_items 1 500 req of
        Inl err \<Rightarrow> (errorResp 400 err, s)
      | Inr tokens \<Rightarrow> bulk_reply (AddBots (dp_services D) (ch_bulk ch) (ch_sched ch) tokens (nd_backend s)) s)"

definition bulk_addAccounts where
  "bulk_addAccounts D ch req s =
     (case bind_items 1 500 req of
        Inl err \<Rightarrow> (errorResp 400 err, s)
      | Inr phones \<Rightarrow> bulk_reply (AddAccounts (dp_services D) (ch_bulk ch) (ch_sched ch) phones (nd_backend s)) s)"

definition bulk_removeSessions where
  "bulk_removeSessions D ch req s =
     (case bind_items 1 1000 req of
        Inl err \<Rightarrow> (errorResp 400 err, s)
      | Inr sids \<Rightarrow> bulk_reply (RemoveSessions (dp_services D) (ch_sched ch) sids (nd_backend s)) s)"

section \<open>Health\<close>

text \<open>A probe of a dependency that is not configured is \<open>None\<close>.\<close>

definition health where
  "health s = (reply 200 (TextBody [(''status'', ''ok'')]), s)"

definition ready where
  "ready ch s =
     (case ch_ping_db ch of
        Some (Some err) \<Rightarrow> (reply 503 (DetailBody ''postgres: '' err), s)
      | _ \<Rightarrow>
          (case ch_ping_redis ch of
             Some (Some err) \<Rightarrow> (reply 503 (DetailBody ''redis: '' err), s)
           | _ \<Rightarrow> (reply 200 (TextBody [(''status'', ''ok'')]), s)))"

end
