(* ===== verification/Rest_Server.thy ===== *)
theory Rest_Server
  imports Rest_Handlers
begin

text \<open>
  \<open>api/rest/server.go\<close>: the routes of the API and the middlewares in front of them. Routes are
  registered in the order of the code, and a route gets the middlewares its group has at that
  moment, which is how the key endpoints come to be unprotected and all later ones protected.
\<close>

section \<open>Routes\<close>

datatype seg = Lit string | Param string | CatchAll string

datatype mw = Recovery | Logger | Metrics | KeyRateLimiter | AuthKey

datatype endpoint =
    Health | Ready | MetricsPage | WebUI | Root
  | KeyCreate | KeyList | KeyDelete
  | AccCreate | AccList | AccGet | AccDelete | AccAuthCode | AccPassword | AccAuthState
  | BotCreate | BotList | BotGet | BotDelete
  | SesList | SesGet | SesStop
  | WkList | WkMetrics | WkAdd | WkRemove | WkDrain
  | HookCreate | HookList | HookDelete
  | BulkBots | BulkAccounts | BulkSessions

text \<open>The statements that build the router: on the engine or on the group \<open>/api/v1\<close>.\<close>

datatype action = UseEngine mw | GroupV1 | UseV1 mw | HandleEngine string "seg list" endpoint | HandleV1 string "seg list" endpoint

record route =
  rt_Method :: string
  rt_Path :: "seg list"
  rt_Chain :: "mw list"
  rt_Endpoint :: endpoint

record router =
  ro_Engine :: "mw list"
  ro_V1 :: "mw list"
  ro_Routes :: "route list"

fun build_step :: "router \<Rightarrow> action \<Rightarrow> router" where
  "build_step r (UseEngine m) = r\<lparr>ro_Engine := ro_Engine r @ [m]\<rparr>"
| "build_step r GroupV1 = r\<lparr>ro_V1 := ro_Engine r\<rparr>"
| "build_step r (UseV1 m) = r\<lparr>ro_V1 := ro_V1 r @ [m]\<rparr>"
| "build_step r (HandleEngine meth path e) =
     r\<lparr>ro_Routes := ro_Routes r @ [\<lparr>rt_Method = meth, rt_Path = path, rt_Chain = ro_Engine r, rt_Endpoint = e\<rparr>]\<rparr>"
| "build_step r (HandleV1 meth path e) =
     r\<lparr>ro_Routes := ro_Routes r @
        [\<lparr>rt_Method = meth, rt_Path = [Lit ''api'', Lit ''v1''] @ path, rt_Chain = ro_V1 r, rt_Endpoint = e\<rparr>]\<rparr>"

definition build :: "action list \<Rightarrow> router" where
  "build acts = foldl build_step \<lparr>ro_Engine = [], ro_V1 = [], ro_Routes = []\<rparr> acts"

definition Register_auth :: "action list" where
  "Register_auth =
     [HandleV1 ''POST'' [Lit ''auth'', Lit ''keys''] KeyCreate,
      HandleV1 ''GET'' [Lit ''auth'', Lit ''keys''] KeyList,
      HandleV1 ''DELETE'' [Lit ''auth'', Lit ''keys'', Param ''id''] KeyDelete]"

definition Register_accounts :: "action list" where
  "Register_accounts =
     [HandleV1 ''POST'' [Lit ''accounts''] AccCreate,
      HandleV1 ''GET'' [Lit ''accounts''] AccList,
      HandleV1 ''GET'' [Lit ''accounts'', Param ''id''] AccGet,
      HandleV1 ''DELETE'' [Lit ''accounts'', Param ''id''] AccDelete,
      HandleV1 ''POST'' [Lit ''accounts'', Param ''id'', Lit ''auth-code''] AccAuthCode,
      HandleV1 ''POST'' [Lit ''accounts'', Param ''id'', Lit ''password''] AccPassword,
      HandleV1 ''GET'' [Lit ''accounts'', Param ''id'', Lit ''auth-state''] AccAuthState]"

definition Register_bots :: "action list" where
  "Register_bots =
     [HandleV1 ''POST'' [Lit ''bots''] BotCreate,
      HandleV1 ''GET'' [Lit ''bots''] BotList,
      HandleV1 ''GET'' [Lit ''bots'', Param ''id''] BotGet,
      HandleV1 ''DELETE'' [Lit ''bots'', Param ''id''] BotDelete]"

definition Register_sessions :: "action list" where
  "Register_sessions =
     [HandleV1 ''GET'' [Lit ''sessions''] SesList,
      HandleV1 ''GET'' [Lit ''sessions'', Param ''id''] SesGet,
      HandleV1 ''DELETE'' [Lit ''sessions'', Param ''id''] SesStop]"

definition Register_workers :: "action list" where
  "Register_workers =
     [HandleV1 ''GET'' [Lit ''workers''] WkList,
      HandleV1 ''GET'' [Lit ''workers'', Lit ''metrics''] WkMetrics,
      HandleV1 ''POST'' [Lit ''workers''] WkAdd,
      HandleV1 ''DELETE'' [Lit ''workers'', Param ''id''] WkRemove,
      HandleV1 ''POST'' [Lit ''workers'', Param ''id'', Lit ''drain''] WkDrain]"

definition Register_webhooks :: "action list" where
  "Register_webhooks =
     [HandleV1 ''POST'' [Lit ''webhooks''] HookCreate,
      HandleV1 ''GET'' [Lit ''webhooks''] HookList,
      HandleV1 ''DELETE'' [Lit ''webhooks'', Param ''id''] HookDelete]"

definition Register_bulk :: "action list" where
  "Register_bulk =
     [HandleV1 ''POST'' [Lit ''bulk'', Lit ''bots''] BulkBots,
      HandleV1 ''POST'' [Lit ''bulk'', Lit ''accounts''] BulkAccounts,
      HandleV1 ''DELETE'' [Lit ''bulk'', Lit ''sessions''] BulkSessions]"

text \<open>
  \<open>NewServer\<close> as far as the configuration decides: rate limiting, the key service, the manager, the
  webhook and the bulk service may each be missing.
\<close>

definition NewServer :: "bool \<Rightarrow> bool \<Rightarrow> bool \<Rightarrow> bool \<Rightarrow> bool \<Rightarrow> action list" where
  "NewServer rate auth mgr hooks bulk =
     [UseEngine Recovery, UseEngine Logger, UseEngine Metrics] @
     (if rate then [UseEngine KeyRateLimiter] else []) @
     [HandleEngine ''GET'' [Lit ''health''] Health, HandleEngine ''GET'' [Lit ''ready''] Ready,
      HandleEngine ''GET'' [Lit ''metrics''] MetricsPage,
      HandleEngine ''GET'' [Lit ''ui'', CatchAll ''path''] WebUI,
      HandleEngine ''GET'' [] Root,
      GroupV1] @
     (if auth then Register_auth else []) @
     (if auth then [UseV1 AuthKey] else []) @
     Register_accounts @ Register_bots @ Register_sessions @
     (if mgr then Register_workers else []) @
     (if hooks then Register_webhooks else []) @
     (if bulk then Register_bulk else [])"

section \<open>Serving a request\<close>

text \<open>
  Which route a request has is decided by the router of the web framework, which is a parameter of
  \<open>serve\<close>: it gives a registered route with its path parameter, no route, or a redirection to the
  path with or without its trailing slash, which no middleware sees.
\<close>

datatype routed = Matched route string | NoRoute | Redirected int

fun seg_string :: "seg \<Rightarrow> string" where
  "seg_string (Lit a) = ''/'' @ a"
| "seg_string (Param a) = ''/:'' @ a"
| "seg_string (CatchAll a) = ''/*'' @ a"

definition fullPath :: "seg list \<Rightarrow> string" where
  "fullPath segs = (if segs = [] then ''/'' else concat (map seg_string segs))"

text \<open>The endpoint of a route with its path parameter.\<close>

definition run_endpoint ::
  "('a, 'b, 'c, 'k, 'h, 'p, 'l) deps \<Rightarrow> chance \<Rightarrow> http_request \<Rightarrow> endpoint \<Rightarrow> string \<Rightarrow>
   ('a, 'b, 'c, 'k, 'h, 'p, 'l) node \<Rightarrow> outcome \<times> ('a, 'b, 'c, 'k, 'h, 'p, 'l) node" where
  "run_endpoint D ch req e param s =
     (case e of
        Health \<Rightarrow> health s
      | Ready \<Rightarrow> ready ch s
      | MetricsPage \<Rightarrow> (reply 200 (OtherBody ''metrics''), s)
      | WebUI \<Rightarrow> (reply 200 (OtherBody ''web ui''), s)
      | Root \<Rightarrow> (reply 302 (OtherBody ''/ui/''), s)
      | KeyCreate \<Rightarrow> (case dp_auth D of None \<Rightarrow> (nil_pointer, s) | Some (R, _) \<Rightarrow> key_create R ch req s)
      | KeyList \<Rightarrow> (case dp_auth D of None \<Rightarrow> (nil_pointer, s) | Some (R, _) \<Rightarrow> key_list R s)
      | KeyDelete \<Rightarrow> (case dp_auth D of None \<Rightarrow> (nil_pointer, s) | Some (R, _) \<Rightarrow> key_delete R param s)
      | AccCreate \<Rightarrow> acc_create D True ch req s
      | AccList \<Rightarrow> acc_list D req s
      | AccGet \<Rightarrow> acc_get D param s
      | AccDelete \<Rightarrow> acc_delete D param s
      | AccAuthCode \<Rightarrow> acc_sendAuthCode D True param req s
      | AccPassword \<Rightarrow> acc_sendPassword D True param req s
      | AccAuthState \<Rightarrow> acc_getAuthState D True param s
      | BotCreate \<Rightarrow> bot_create D True ch req s
      | BotList \<Rightarrow> bot_list D req s
      | BotGet \<Rightarrow> bot_get D param s
      | BotDelete \<Rightarrow> bot_delete D param s
      | SesList \<Rightarrow> ses_list s
      | SesGet \<Rightarrow> ses_get param s
      | SesStop \<Rightarrow> ses_stop D param s
      | WkList \<Rightarrow> wk_list ch s
      | WkMetrics \<Rightarrow> wk_metrics D ch s
      | WkAdd \<Rightarrow> wk_add D req s
      | WkRemove \<Rightarrow> wk_remove param s
      | WkDrain \<Rightarrow> wk_drain D ch param s
      | HookCreate \<Rightarrow> (case dp_hooks D of None \<Rightarrow> (nil_pointer, s) | Some R \<Rightarrow> hook_create D R req s)
      | HookList \<Rightarrow> (case dp_hooks D of None \<Rightarrow> (nil_pointer, s) | Some R \<Rightarrow> hook_list R s)
      | HookDelete \<Rightarrow> (case dp_hooks D of None \<Rightarrow> (nil_pointer, s) | Some R \<Rightarrow> hook_delete R param s)
      | BulkBots \<Rightarrow> bulk_addBots D ch req s
      | BulkAccounts \<Rightarrow> bulk_addAccounts D ch req s
      | BulkSessions \<Rightarrow> bulk_removeSessions D ch req s)"

definition apply_mw ::
  "('a, 'b, 'c, 'k, 'h, 'p, 'l) deps \<Rightarrow> chance \<Rightarrow> http_request \<Rightarrow> string \<Rightarrow> mw \<Rightarrow>
   (('a, 'b, 'c, 'k, 'h, 'p, 'l) node \<Rightarrow> outcome \<times> ('a, 'b, 'c, 'k, 'h, 'p, 'l) node) \<Rightarrow>
   ('a, 'b, 'c, 'k, 'h, 'p, 'l) node \<Rightarrow> outcome \<times> ('a, 'b, 'c, 'k, 'h, 'p, 'l) node" where
  "apply_mw D ch req path m next_h =
     (case m of
        Recovery \<Rightarrow> mw_Recovery next_h
      | Logger \<Rightarrow> mw_Logger next_h
      | Metrics \<Rightarrow> mw_Metrics (hr_Method req) path next_h
      | KeyRateLimiter \<Rightarrow> mw_RateLimiter (dp_newLimiter D) (dp_allow D) (ch_now ch) (rate_key req) next_h
      | AuthKey \<Rightarrow> (case dp_auth D of None \<Rightarrow> next_h | Some (R, master) \<Rightarrow> mw_Auth R master (hr_ApiKey req) next_h))"

definition router_of :: "('a, 'b, 'c, 'k, 'h, 'p, 'l) deps \<Rightarrow> ('a, 'b, 'c, 'k, 'h, 'p, 'l) node \<Rightarrow> router" where
  "router_of D s =
     build (NewServer (dp_RPS D > 0) (dp_auth D \<noteq> None) (bk_mgr (nd_backend s) \<noteq> None) (dp_hooks D \<noteq> None) (dp_bulk D))"

definition serve ::
  "(route list \<Rightarrow> string \<Rightarrow> string list \<Rightarrow> routed) \<Rightarrow> router \<Rightarrow> ('a, 'b, 'c, 'k, 'h, 'p, 'l) deps \<Rightarrow> chance \<Rightarrow>
   http_request \<Rightarrow> ('a, 'b, 'c, 'k, 'h, 'p, 'l) node \<Rightarrow> outcome \<times> ('a, 'b, 'c, 'k, 'h, 'p, 'l) node" where
  "serve lookup ro D ch req =
     (case lookup (ro_Routes ro) (hr_Method req) (hr_Path req) of
        NoRoute \<Rightarrow>
          foldr (apply_mw D ch req []) (ro_Engine ro) (\<lambda>s. (reply 404 (OtherBody ''404 page not found''), s))
      | Redirected code \<Rightarrow> (\<lambda>s. (reply code (OtherBody ''redirect''), s))
      | Matched r param \<Rightarrow>
          foldr (apply_mw D ch req (fullPath (rt_Path r))) (rt_Chain r) (run_endpoint D ch req (rt_Endpoint r) param))"

section \<open>The routes that are registered\<close>

definition public :: "endpoint \<Rightarrow> bool" where
  "public e \<longleftrightarrow> e \<in> {Health, Ready, MetricsPage, WebUI, Root, KeyCreate, KeyList, KeyDelete}"

abbreviation base_chain :: "bool \<Rightarrow> mw list" where
  "base_chain rate \<equiv> [Recovery, Logger, Metrics] @ (if rate then [KeyRateLimiter] else [])"

lemmas register_defs = Register_auth_def Register_accounts_def Register_bots_def Register_sessions_def
  Register_workers_def Register_webhooks_def Register_bulk_def

text \<open>
  With a key service every route but the public ones has the key check as the last middleware of
  its chain, and every chain starts with the base.
\<close>

lemma protected_chains:
  "list_all (\<lambda>r. rt_Chain r = base_chain rate @ (if public (rt_Endpoint r) then [] else [AuthKey]))
     (ro_Routes (build (NewServer rate True mgr hooks bulk)))"
  by (cases rate; cases mgr; cases hooks; cases bulk)
    (simp_all add: build_def NewServer_def register_defs public_def)

lemma engine_chain: "ro_Engine (build (NewServer rate auth mgr hooks bulk)) = base_chain rate"
  by (cases rate; cases auth; cases mgr; cases hooks; cases bulk)
    (simp_all add: build_def NewServer_def register_defs)

lemma all_chains:
  "list_all (\<lambda>r. \<exists>ms. rt_Chain r = Recovery # ms) (ro_Routes (build (NewServer rate auth mgr hooks bulk)))"
  by (cases rate; cases auth; cases mgr; cases hooks; cases bulk)
    (simp_all add: build_def NewServer_def register_defs)

text \<open>A router that tries the routes in the order of their registration.\<close>

fun match_path :: "seg list \<Rightarrow> string list \<Rightarrow> string \<Rightarrow> string option" where
  "match_path [] [] p = Some p"
| "match_path (Lit a # segs) (b # path) p = (if a = b then match_path segs path p else None)"
| "match_path (Param _ # segs) (b # path) p = match_path segs path b"
| "match_path [CatchAll _] (b # path) p = Some p"
| "match_path _ _ p = None"

fun find_route :: "route list \<Rightarrow> string \<Rightarrow> string list \<Rightarrow> routed" where
  "find_route [] meth path = NoRoute"
| "find_route (r # rs) meth path =
     (if rt_Method r = meth then
        (case match_path (rt_Path r) path [] of Some p \<Rightarrow> Matched r p | None \<Rightarrow> find_route rs meth path)
      else find_route rs meth path)"

lemma find_route_mem: "find_route rs meth path = Matched r p \<Longrightarrow> r \<in> set rs"
  by (induction rs) (auto split: if_splits option.splits)

section \<open>Properties of the server\<close>

text \<open>What a middleware in front of the key check does to the rest of the node: nothing.\<close>

definition untouched :: "('a, 'b, 'c, 'k, 'h, 'p, 'l) node \<Rightarrow> ('a, 'b, 'c, 'k, 'h, 'p, 'l) node \<Rightarrow> bool" where
  "untouched s s' \<longleftrightarrow> nd_backend s' = nd_backend s \<and> nd_hooks s' = nd_hooks s \<and> nd_pool s' = nd_pool s"

definition refused :: "(('a, 'b, 'c, 'k, 'h, 'p, 'l) node \<Rightarrow> bool) \<Rightarrow>
    (('a, 'b, 'c, 'k, 'h, 'p, 'l) node \<Rightarrow> outcome \<times> ('a, 'b, 'c, 'k, 'h, 'p, 'l) node) \<Rightarrow> bool" where
  "refused P h \<longleftrightarrow> (\<forall>s. P s \<longrightarrow> (\<exists>r. fst (h s) = Respond r \<and> rs_Status r \<in> {401, 429}) \<and> untouched s (snd (h s)) \<and> P (snd (h s)))"

lemma refused_mw:
  assumes "refused P h" and "m \<noteq> AuthKey"
    and "\<And>s ls. P (s\<lparr>nd_limiters := ls\<rparr>) = P s" and "\<And>s rs. P (s\<lparr>nd_requests := rs\<rparr>) = P s"
  shows "refused P (apply_mw D ch req path m h)"
proof -
  have H: "(\<exists>r. fst (h s) = Respond r \<and> rs_Status r \<in> {401, 429}) \<and> untouched s (snd (h s)) \<and> P (snd (h s))" if "P s" for s
    using assms(1) that unfolding refused_def by blast
  show ?thesis
  proof (cases m)
    case Recovery
    then show ?thesis using H unfolding refused_def
      by (fastforce simp: apply_mw_def mw_Recovery_def split: prod.splits outcome.splits)
  next
    case Logger
    then show ?thesis using assms(1) by (simp add: apply_mw_def mw_Logger_def [abs_def])
  next
    case Metrics
    then show ?thesis using H assms(4) unfolding refused_def
      by (fastforce simp: apply_mw_def mw_Metrics_def untouched_def Let_def split: prod.splits outcome.splits)
  next
    case KeyRateLimiter
    have "(\<exists>r. fst (apply_mw D ch req path m h s) = Respond r \<and> rs_Status r \<in> {401, 429}) \<and>
        untouched s (snd (apply_mw D ch req path m h s)) \<and> P (snd (apply_mw D ch req path m h s))" if "P s" for s
    proof -
      obtain b ls where a: "limiter_Allow (dp_newLimiter D) (dp_allow D) (ch_now ch) (rate_key req) (nd_limiters s) = (b, ls)" by fastforce
      have "P (s\<lparr>nd_limiters := ls\<rparr>)" using assms(3) that by simp
      from H [OF this] a assms(3) that show ?thesis using KeyRateLimiter
        by (cases b) (auto simp: apply_mw_def mw_RateLimiter_def untouched_def errorResp_def)
    qed
    then show ?thesis unfolding refused_def by blast
  next
    case AuthKey
    then show ?thesis using assms(2) by simp
  qed
qed

lemma refused_chain:
  assumes "refused P h" and "AuthKey \<notin> set ms"
    and "\<And>s ls. P (s\<lparr>nd_limiters := ls\<rparr>) = P s" and "\<And>s rs. P (s\<lparr>nd_requests := rs\<rparr>) = P s"
  shows "refused P (foldr (apply_mw D ch req path) ms h)"
  using assms(2)
proof (induction ms)
  case (Cons m ms)
  then have "refused P (foldr (apply_mw D ch req path) ms h)" "m \<noteq> AuthKey" by auto
  from refused_mw [OF this assms(3,4)] show ?case by simp
qed (simp add: assms(1))

text \<open>The state of the key table as the history of the key service leaves it.\<close>

definition keys_at :: "(APIKey \<Rightarrow> error option) \<Rightarrow> (int \<Rightarrow> string option) \<Rightarrow>
    ('a, 'b, 'c, APIKey table, 'h, 'p, 'l) node \<Rightarrow> bool" where
  "keys_at check issued s \<longleftrightarrow> key_history check (nd_keys s) issued"

lemma refused_auth:
  fixes h :: "('a, 'b, 'c, APIKey table, 'h, 'p, 'l) node \<Rightarrow> outcome \<times> ('a, 'b, 'c, APIKey table, 'h, 'p, 'l) node"
  assumes "\<not> (master \<noteq> [] \<and> key = master)" and "\<And>i raw. issued i = Some raw \<Longrightarrow> hashKey raw \<noteq> hashKey key"
  shows "refused (keys_at check issued) (mw_Auth (auth_postgres check now) master key h)"
  unfolding refused_def
proof (intro allI impI)
  fix s :: "('a, 'b, 'c, APIKey table, 'h, 'p, 'l) node"
  assume k: "keys_at check issued s"
  obtain b t where v: "ks_Validate (auth_postgres check now) master key (nd_keys s) = (b, t)" by fastforce
  have hist: "key_history check (nd_keys s) issued" using k by (simp add: keys_at_def)
  have "\<not> b" using validate_issued(1) [OF hist, of now master key] v assms by auto
  moreover have "key_history check t issued" using key_history.validate [OF hist v] .
  ultimately show "(\<exists>r. fst (mw_Auth (auth_postgres check now) master key h s) = Respond r \<and> rs_Status r \<in> {401, 429}) \<and>
      untouched s (snd (mw_Auth (auth_postgres check now) master key h s)) \<and>
      keys_at check issued (snd (mw_Auth (auth_postgres check now) master key h s))"
    using v k by (auto simp: mw_Auth_def errorResp_def untouched_def keys_at_def)
qed

text \<open>
  C1: The API requires a key. Whatever keys were issued and revoked before and whatever database
  statements fail, a request to any route other than the health, metrics, web and key endpoints
  whose key is neither the master key nor an issued key that was not revoked is answered with 401
  or 429, and neither accounts, bots, workers, webhooks nor sessions change.
\<close>

theorem api_requires_key:
  assumes "dp_auth D = Some (auth_postgres check now, master)" and "key_history check (nd_keys s) issued"
    and "lookup (ro_Routes (router_of D s0)) (hr_Method req) (hr_Path req) = Matched r param"
    and "r \<in> set (ro_Routes (router_of D s0))" and "\<not> public (rt_Endpoint r)" and "\<not> (master \<noteq> [] \<and> hr_ApiKey req = master)"
    and "\<And>i raw. issued i = Some raw \<Longrightarrow> hashKey raw \<noteq> hashKey (hr_ApiKey req)"
  shows "(\<exists>rs. fst (serve lookup (router_of D s0) D ch req s) = Respond rs \<and> rs_Status rs \<in> {401, 429}) \<and>
    untouched s (snd (serve lookup (router_of D s0) D ch req s)) \<and>
    key_history check (nd_keys (snd (serve lookup (router_of D s0) D ch req s))) issued"
proof -
  let ?path = "fullPath (rt_Path r)" and ?run = "run_endpoint D ch req (rt_Endpoint r) param"
  have "rt_Chain r = base_chain (dp_RPS D > 0) @ [AuthKey]"
    using assms(4) protected_chains assms(1,5) by (auto simp: list_all_iff router_of_def)
  then have sv: "serve lookup (router_of D s0) D ch req =
      foldr (apply_mw D ch req ?path) (base_chain (dp_RPS D > 0)) (mw_Auth (auth_postgres check now) master (hr_ApiKey req) ?run)"
    using assms(1,3) by (simp add: serve_def apply_mw_def)
  have "refused (keys_at check issued) (mw_Auth (auth_postgres check now) master (hr_ApiKey req) ?run)"
    by (rule refused_auth) (use assms(6,7) in auto)
  then have "refused (keys_at check issued) (serve lookup (router_of D s0) D ch req)"
    unfolding sv by (rule refused_chain) (auto simp: keys_at_def)
  then show ?thesis using assms(2) unfolding refused_def keys_at_def by blast
qed

definition ex_deps :: "(AccountMemory, BotMemory, mockClient, APIKey table, WebhookMemory, mockClient, bucket) deps" where
  "ex_deps = \<lparr>dp_services = ex_services, dp_auth = Some (auth_postgres (\<lambda>_. None) 8, []), dp_hooks = Some (webhook_memory []),
     dp_bulk = True, dp_ifc = mock_iface, dp_RPS = 100, dp_newLimiter = bucket_new 200, dp_allow = bucket_allow 100 200,
     dp_valid_url = (\<lambda>_. True)\<rparr>"

definition ex_node :: "(AccountMemory, BotMemory, mockClient, APIKey table, WebhookMemory, mockClient, bucket) node" where
  "ex_node = \<lparr>nd_backend = ex_backend, nd_keys = tb_empty, nd_hooks = wm_New, nd_pool = NewPool None True,
     nd_limiters = [], nd_requests = []\<rparr>"

definition ex_chance :: chance where
  "ex_chance = \<lparr>ch_now = 1, ch_uuid = ''u1'', ch_nonce = Inr [], ch_key = Inr (replicate 32 1), ch_order = [], ch_orders = (\<lambda>_. []),
     ch_bulk = ex_rnd, ch_sched = [], ch_ping_db = None, ch_ping_redis = None\<rparr>"

definition ex_request :: "string \<Rightarrow> string list \<Rightarrow> http_request" where
  "ex_request meth path = \<lparr>hr_Method = meth, hr_Path = path, hr_Query = [], hr_ApiKey = ''guess'', hr_ClientIP = ''10.0.0.1'',
     hr_Body = Inr \<lparr>jb_fields = [(''phone'', ''+1'')], jb_items = None, jb_events = None\<rparr>\<rparr>"

theorem api_requires_key_witness:
  "\<exists>rs. fst (serve find_route (router_of ex_deps ex_node) ex_deps ex_chance (ex_request ''POST'' [''api'', ''v1'', ''accounts'']) ex_node) = Respond rs \<and>
     rs_Status rs \<in> {401, 429}"
proof -
  let ?req = "ex_request ''POST'' [''api'', ''v1'', ''accounts'']"
  obtain r where r: "find_route (ro_Routes (router_of ex_deps ex_node)) (hr_Method ?req) (hr_Path ?req) = Matched r []" "rt_Endpoint r = AccCreate"
    by (simp add: router_of_def ex_deps_def ex_node_def ex_backend_def ex_request_def build_def NewServer_def register_defs)
  have auth: "dp_auth ex_deps = Some (auth_postgres (\<lambda>_. None) 8, [])" by (simp add: ex_deps_def)
  have keys: "key_history (\<lambda>_. None) (nd_keys ex_node) Map.empty" using ex_history_start by (simp add: ex_node_def)
  have "\<not> public (rt_Endpoint r)" using r(2) by (simp add: public_def)
  from api_requires_key [where lookup = find_route and req = ?req, OF auth keys r(1) find_route_mem [OF r(1)] this, of ex_chance] show ?thesis by simp
qed

text \<open>
  C29: No panic reaches a client. Whatever a handler does, the server answers a request or is still
  working on it. Every route has the recovery outermost: what the rest of its chain and the handler
  answer is the answer, and when they panic the answer is a 500 with the message \<open>internal server
  error\<close>, over the state they left. A request that matches no route is answered with 404 or 429.
\<close>

theorem serve_never_panics:
  assumes "\<And>rs meth path r param. lookup rs meth path = Matched r param \<Longrightarrow> r \<in> set rs"
  shows "(\<nexists>e. fst (serve lookup (router_of D s0) D ch req s) = Panicked e) \<and>
   (\<forall>r param. lookup (ro_Routes (router_of D s0)) (hr_Method req) (hr_Path req) = Matched r param \<longrightarrow>
     (\<exists>ms out s'. rt_Chain r = Recovery # ms \<and>
       foldr (apply_mw D ch req (fullPath (rt_Path r))) ms (run_endpoint D ch req (rt_Endpoint r) param) s = (out, s') \<and>
       serve lookup (router_of D s0) D ch req s =
         (case out of
            Panicked e \<Rightarrow> Respond \<lparr>rs_Status = 500, rs_Body = ErrBody (Errorf ''internal server error'' [])\<rparr>
          | _ \<Rightarrow> out, s'))) \<and>
   (lookup (ro_Routes (router_of D s0)) (hr_Method req) (hr_Path req) = NoRoute \<longrightarrow>
     (\<exists>rs. fst (serve lookup (router_of D s0) D ch req s) = Respond rs \<and> rs_Status rs \<in> {404, 429}))"
proof (cases "lookup (ro_Routes (router_of D s0)) (hr_Method req) (hr_Path req)")
  case NoRoute
  then have sv: "serve lookup (router_of D s0) D ch req s =
      foldr (apply_mw D ch req []) (base_chain (dp_RPS D > 0)) (\<lambda>s. (reply 404 (OtherBody ''404 page not found''), s)) s"
    unfolding serve_def router_of_def engine_chain by simp
  have "\<exists>rs. fst (serve lookup (router_of D s0) D ch req s) = Respond rs \<and> rs_Status rs \<in> {404, 429}"
    unfolding sv by (simp add: apply_mw_def mw_Recovery_def mw_Logger_def mw_Metrics_def mw_RateLimiter_def errorResp_def Let_def
        split: prod.splits if_splits)
  then show ?thesis using NoRoute by auto
next
  case (Redirected code)
  then show ?thesis by (simp add: serve_def)
next
  case (Matched r param)
  let ?inner = "\<lambda>ms. foldr (apply_mw D ch req (fullPath (rt_Path r))) ms (run_endpoint D ch req (rt_Endpoint r) param) s"
  obtain ms where ms: "rt_Chain r = Recovery # ms"
    using assms [OF Matched] all_chains unfolding router_of_def list_all_iff by blast
  obtain out s' where inner: "?inner ms = (out, s')" by fastforce
  have sv: "serve lookup (router_of D s0) D ch req s =
      (case out of Panicked e \<Rightarrow> reply 500 (ErrBody (Errorf ''internal server error'' [])) | _ \<Rightarrow> out, s')"
    using Matched ms inner by (simp add: serve_def apply_mw_def mw_Recovery_def split: outcome.splits)
  then have "fst (serve lookup (router_of D s0) D ch req s) \<noteq> Panicked e" for e by (simp split: outcome.splits)
  then show ?thesis using Matched ms inner sv by auto
qed

text \<open>A server without a worker manager: the handler of new accounts calls it all the same.\<close>

theorem serve_never_panics_witness:
  "fst (serve find_route (router_of (ex_deps\<lparr>dp_auth := None\<rparr>) ex_node) (ex_deps\<lparr>dp_auth := None\<rparr>) ex_chance
      (ex_request ''POST'' [''api'', ''v1'', ''accounts'']) ex_node) =
    Respond \<lparr>rs_Status = 500, rs_Body = ErrBody (Errorf ''internal server error'' [])\<rparr>"
proof -
  let ?D = "ex_deps\<lparr>dp_auth := None\<rparr>" and ?s = ex_node and ?req = "ex_request ''POST'' [''api'', ''v1'', ''accounts'']"
  obtain r where r: "find_route (ro_Routes (router_of ?D ?s)) (hr_Method ?req) (hr_Path ?req) = Matched r []"
    "rt_Endpoint r = AccCreate" "rt_Chain r = base_chain True"
    by (simp add: router_of_def ex_deps_def ex_node_def ex_backend_def ex_request_def build_def NewServer_def register_defs)
  have "\<exists>ms out s'. rt_Chain r = Recovery # ms \<and>
      foldr (apply_mw ?D ex_chance ?req (fullPath (rt_Path r))) ms (run_endpoint ?D ex_chance ?req (rt_Endpoint r) []) ?s = (out, s') \<and>
      serve find_route (router_of ?D ?s) ?D ex_chance ?req ?s =
        (case out of Panicked e \<Rightarrow> reply 500 (ErrBody (Errorf ''internal server error'' [])) | _ \<Rightarrow> out, s')"
    by (rule serve_never_panics [of find_route ?D ?s ex_chance ?req ?s, THEN conjunct2, THEN conjunct1, rule_format, OF _ r(1)], rule find_route_mem)
  then obtain ms out s' where served: "rt_Chain r = Recovery # ms"
    "foldr (apply_mw ?D ex_chance ?req (fullPath (rt_Path r))) ms (run_endpoint ?D ex_chance ?req AccCreate []) ?s = (out, s')"
    "serve find_route (router_of ?D ?s) ?D ex_chance ?req ?s =
       (case out of Panicked e \<Rightarrow> reply 500 (ErrBody (Errorf ''internal server error'' [])) | _ \<Rightarrow> out, s')"
    unfolding r(2) by blast
  have "\<exists>e. fst (foldr (apply_mw ?D ex_chance ?req path) [Logger, Metrics, KeyRateLimiter] (run_endpoint ?D ex_chance ?req AccCreate []) ?s) = Panicked e" for path
    by (simp add: ex_deps_def ex_node_def ex_backend_def ex_request_def ex_chance_def ex_services_def run_endpoint_def acc_create_def
        bind_required_def on_backend_def on_accounts_def call_mgr_def nil_pointer_def apply_mw_def mw_Logger_def mw_Metrics_def mw_RateLimiter_def
        limiter_Allow_eq bucket_allow_def bucket_level_def bucket_new_def account_memory_def as_Add_def am_Create_def am_New_def field_def Let_def)
  from this [of "fullPath (rt_Path r)"] obtain e where "out = Panicked e" using served(1,2) r(3) by auto
  then show ?thesis using served(3) by simp
qed

end
