(* ===== verification/Replication.thy ===== *)
theory Replication
  imports Repository Update_Stream
begin

text \<open>
  Message replication, \<open>internal/replication\<close>: the loop that copies every update of the stream to
  the table of messages, with up to three attempts per message.
\<close>

section \<open>Model\<close>

record Message =
  msg_ID :: int
  msg_SessionID :: string
  msg_WorkerID :: string
  msg_Type :: string
  msg_Payload :: string
  msg_ReceivedAt :: int

text \<open>The table, the seconds waited, and the readings of the clock and the cancellations to come.\<close>

record repl_world =
  rw_table :: "Message table"
  rw_waits :: nat
  rw_clock :: "int list"
  rw_cancels :: "bool list"

definition strVal :: "rvals \<Rightarrow> string \<Rightarrow> string" where
  "strVal m key = (case go_get m key of Some (RString v) \<Rightarrow> v | _ \<Rightarrow> [])"

definition int64Val :: "rvals \<Rightarrow> string \<Rightarrow> int" where
  "int64Val m key =
     (case go_get m key of Some (RInt64 v) \<Rightarrow> v | Some (RString v) \<Rightarrow> Sscan_int64 v | _ \<Rightarrow> 0)"

section \<open>Inserting\<close>

text \<open>\<open>check\<close> is the database's check of the column types, the cast of the payload included.\<close>

definition mk_message :: "rvals \<Rightarrow> int \<Rightarrow> int \<Rightarrow> Message" where
  "mk_message vals now i =
     (let payload = strVal vals ''payload''; ms = int64Val vals ''received_at'' in
      \<lparr>msg_ID = i, msg_SessionID = strVal vals ''session_id'', msg_WorkerID = strVal vals ''worker_id'',
       msg_Type = strVal vals ''type'', msg_Payload = (if payload = [] then ''{}'' else payload),
       msg_ReceivedAt = (if 0 < ms then ms else now)\<rparr>)"

definition repl_insert :: "(Message \<Rightarrow> error option) \<Rightarrow> rvals \<Rightarrow> repl_world \<Rightarrow> error option \<times> repl_world" where
  "repl_insert check vals w =
     (let (now, clock) = pop 0 (rw_clock w) in
      case tb_insert check (\<lambda>_ _. False) (mk_message vals now) (rw_table w) of
        (Inl err, t) \<Rightarrow> (Some err, w\<lparr>rw_table := t, rw_clock := clock\<rparr>)
      | (Inr _, t) \<Rightarrow> (None, w\<lparr>rw_table := t, rw_clock := clock\<rparr>))"

definition ctx_Canceled :: error where
  "ctx_Canceled = Sentinel ''context canceled''"

fun insert_loop :: "(Message \<Rightarrow> error option) \<Rightarrow> rvals \<Rightarrow> nat \<Rightarrow> nat \<Rightarrow> error option \<Rightarrow> repl_world \<Rightarrow>
    error option \<times> repl_world" where
  "insert_loop check vals attempt 0 lastErr w = (lastErr, w)"
| "insert_loop check vals attempt (Suc left) lastErr w =
     (let (stop, cancels) = (if 0 < attempt then pop False (rw_cancels w) else (False, rw_cancels w));
          w1 = w\<lparr>rw_cancels := cancels, rw_waits := rw_waits w + (if stop then 0 else attempt)\<rparr>
      in if stop then (Some ctx_Canceled, w1)
         else
           (case repl_insert check vals w1 of
              (Some err, w2) \<Rightarrow> insert_loop check vals (Suc attempt) left (Some err) w2
            | (None, w2) \<Rightarrow> (None, w2)))"

definition insertWithRetry :: "(Message \<Rightarrow> error option) \<Rightarrow> rvals \<Rightarrow> repl_world \<Rightarrow> error option \<times> repl_world" where
  "insertWithRetry check vals w = insert_loop check vals 0 3 None w"

definition Replicator_Run :: "nat \<Rightarrow> ('q \<Rightarrow> bool) \<Rightarrow> (string \<Rightarrow> nat \<Rightarrow> 'q \<Rightarrow> read_result \<times> 'q) \<Rightarrow>
    (Message \<Rightarrow> error option) \<Rightarrow> 'q \<Rightarrow> repl_world \<Rightarrow> bool \<times> string \<times> 'q \<times> repl_world" where
  "Replicator_Run n ctx_done xread check q w =
     stream_loop n ctx_done xread 200 (\<lambda>_ vals w. snd (insertWithRetry check vals w)) ''$'' q w"

section \<open>What an insertion does\<close>

definition row_of :: "rvals \<Rightarrow> Message \<Rightarrow> bool" where
  "row_of vals x \<longleftrightarrow> msg_SessionID x = strVal vals ''session_id'' \<and> msg_WorkerID x = strVal vals ''worker_id'' \<and>
     msg_Type x = strVal vals ''type'' \<and>
     msg_Payload x = (if strVal vals ''payload'' = [] then ''{}'' else strVal vals ''payload'') \<and>
     (0 < int64Val vals ''received_at'' \<longrightarrow> msg_ReceivedAt x = int64Val vals ''received_at'')"

lemma mk_message_row [simp]: "row_of vals (mk_message vals now i)" "msg_ID (mk_message vals now i) = i"
  by (simp_all add: row_of_def mk_message_def Let_def)

abbreviation rw_ok :: "repl_world \<Rightarrow> bool" where
  "rw_ok w \<equiv> tb_ok msg_ID (rw_table w)"

definition inserted :: "rvals \<Rightarrow> error option \<Rightarrow> repl_world \<Rightarrow> repl_world \<Rightarrow> bool" where
  "inserted vals err w w' \<longleftrightarrow> rw_ok w' \<and> (case err of
       None \<Rightarrow> (\<exists>i x. tb_rows (rw_table w') = tb_rows (rw_table w) @ [(i, x)] \<and> row_of vals x)
     | Some _ \<Rightarrow> tb_rows (rw_table w') = tb_rows (rw_table w))"

lemma repl_insert_inserted:
  assumes ok: "rw_ok w" and r: "repl_insert check vals w = (err, w')"
  shows "inserted vals err w w'"
proof -
  obtain now clock where c: "pop 0 (rw_clock w) = (now, clock)" by fastforce
  obtain res t where ins: "tb_insert check (\<lambda>_ _. False) (mk_message vals now) (rw_table w) = (res, t)" by fastforce
  have t: "rw_table w' = t" and err: "err = (case res of Inl e \<Rightarrow> Some e | Inr _ \<Rightarrow> None)"
    using r c ins by (auto simp: repl_insert_def split: sum.splits)
  have "tb_ok msg_ID t" by (rule tb_insert_ok [OF ins ok]) simp
  moreover have "tb_rows t = tb_rows (rw_table w)" if "res = Inl e" for e
    using tb_insert_error ins that by blast
  moreover have "tb_rows t = tb_rows (rw_table w) @ [(tb_seq (rw_table w) + 1, mk_message vals now (tb_seq (rw_table w) + 1))]"
    if "res = Inr x" for x
    using tb_insert_row [OF ins [unfolded that]] go_put_new [OF tb_insert_fresh [OF ok]] by simp
  ultimately show ?thesis using t err by (cases res) (auto simp: inserted_def)
qed

definition rw_quiet :: "(Message \<Rightarrow> error option) \<Rightarrow> repl_world \<Rightarrow> bool" where
  "rw_quiet check w \<longleftrightarrow> tb_faults (rw_table w) = [] \<and> (\<forall>x. check x = None)"

lemma repl_insert_succeeds:
  assumes "rw_quiet check w" "tb_seq (rw_table w) < 2 ^ 63 - 1"
  shows "\<exists>w'. repl_insert check vals w = (None, w') \<and> rw_quiet check w' \<and> tb_seq (rw_table w') = tb_seq (rw_table w) + 1"
  using assms by (auto simp: repl_insert_def rw_quiet_def tb_insert_def Let_def list_ex_iff split: prod.splits)

text \<open>However many attempts it takes, a message is inserted once or not at all.\<close>

lemma insert_loop_inserted:
  assumes "rw_ok w" "lastErr \<noteq> None \<or> 0 < left" "insert_loop check vals a left lastErr w = (err, w')"
  shows "inserted vals err w w'"
  using assms
proof (induction left arbitrary: a lastErr w)
  case 0
  then show ?case by (auto simp: inserted_def)
next
  case (Suc left)
  obtain stop cancels where p: "(if 0 < a then pop False (rw_cancels w) else (False, rw_cancels w)) = (stop, cancels)"
    by fastforce
  define w1 where "w1 = w\<lparr>rw_cancels := cancels, rw_waits := rw_waits w + (if stop then 0 else a)\<rparr>"
  have w1: "rw_table w1 = rw_table w" by (simp add: w1_def)
  show ?case
  proof (cases stop)
    case True
    then have "err = Some ctx_Canceled" "w' = w1" using Suc.prems(3) p by (auto simp: Let_def w1_def)
    then show ?thesis using Suc.prems(1) w1 by (simp add: inserted_def)
  next
    case False
    obtain e1 w2 where i: "repl_insert check vals w1 = (e1, w2)" by fastforce
    have ins: "inserted vals e1 w1 w2" using repl_insert_inserted [OF _ i] Suc.prems(1) w1 by simp
    have l: "(case e1 of Some e \<Rightarrow> insert_loop check vals (Suc a) left (Some e) w2 | None \<Rightarrow> (None, w2)) = (err, w')"
      using Suc.prems(3) p False i by (simp add: Let_def w1_def split: option.splits)
    show ?thesis
    proof (cases e1)
      case None
      then show ?thesis using l ins w1 by (simp add: inserted_def)
    next
      case (Some e)
      then have "rw_ok w2" "tb_rows (rw_table w2) = tb_rows (rw_table w)" using ins w1 by (simp_all add: inserted_def)
      with Suc.IH [of w2 "Some e" "Suc a"] l Some show ?thesis by (auto simp: inserted_def split: option.splits)
    qed
  qed
qed

lemma insertWithRetry_inserted:
  "rw_ok w \<Longrightarrow> insertWithRetry check vals w = (err, w') \<Longrightarrow> inserted vals err w w'"
  unfolding insertWithRetry_def by (rule insert_loop_inserted [where a = 0 and left = 3 and lastErr = None]) simp_all

lemma insertWithRetry_succeeds:
  assumes "rw_quiet check w" "tb_seq (rw_table w) < 2 ^ 63 - 1"
  shows "\<exists>w'. insertWithRetry check vals w = (None, w') \<and> rw_quiet check w' \<and> tb_seq (rw_table w') = tb_seq (rw_table w) + 1"
proof -
  have "w\<lparr>rw_cancels := rw_cancels w, rw_waits := rw_waits w\<rparr> = w" by simp
  then show ?thesis using repl_insert_succeeds [OF assms, of vals]
    by (auto simp: insertWithRetry_def numeral_3_eq_3)
qed

section \<open>What the replicator stores\<close>

lemma replicate_all:
  assumes "rw_ok w"
  shows "\<exists>kept new. tb_rows (rw_table (handled (\<lambda>_ vals w. snd (insertWithRetry check vals w)) ms w)) = tb_rows (rw_table w) @ new \<and>
    subseq kept ms \<and> list_all2 (\<lambda>(_, vals) (_, x). row_of vals x) kept new \<and>
    (rw_quiet check w \<and> tb_seq (rw_table w) + int (length ms) < 2 ^ 63 \<longrightarrow> kept = ms)"
  using assms
proof (induction ms arbitrary: w)
  case Nil
  then show ?case by (intro exI [of _ "[]"]) simp
next
  case (Cons m ms)
  obtain i vals where m: "m = (i, vals)" by fastforce
  obtain err w1 where ins: "insertWithRetry check vals w = (err, w1)" by fastforce
  have R: "inserted vals err w w1" by (rule insertWithRetry_inserted [OF Cons.prems ins])
  then have ok1: "rw_ok w1" by (simp add: inserted_def)
  obtain kept new where k: "tb_rows (rw_table (handled (\<lambda>_ vals w. snd (insertWithRetry check vals w)) ms w1)) = tb_rows (rw_table w1) @ new"
    "subseq kept ms" "list_all2 (\<lambda>(_, vals) (_, x). row_of vals x) kept new"
    "rw_quiet check w1 \<and> tb_seq (rw_table w1) + int (length ms) < 2 ^ 63 \<longrightarrow> kept = ms"
    using Cons.IH [OF ok1] by blast
  have step: "handled (\<lambda>_ vals w. snd (insertWithRetry check vals w)) (m # ms) w =
      handled (\<lambda>_ vals w. snd (insertWithRetry check vals w)) ms w1" using m ins by (simp add: handled_def)
  have quiet: "err = None \<and> rw_quiet check w1 \<and> tb_seq (rw_table w1) = tb_seq (rw_table w) + 1"
    if "rw_quiet check w" "tb_seq (rw_table w) + int (length (m # ms)) < 2 ^ 63"
    using insertWithRetry_succeeds [OF that(1), of vals] that(2) ins by simp
  show ?case
  proof (cases err)
    case None
    then obtain j x where "tb_rows (rw_table w1) = tb_rows (rw_table w) @ [(j, x)]" "row_of vals x"
      using R by (auto simp: inserted_def)
    then show ?thesis using k m quiet unfolding step
      by (intro exI [of _ "m # kept"] exI [of _ "(j, x) # new"]) auto
  next
    case (Some e)
    then have "tb_rows (rw_table w1) = tb_rows (rw_table w)" using R by (simp add: inserted_def)
    then show ?thesis using k quiet Some unfolding step
      by (intro exI [of _ kept] exI [of _ new]) auto
  qed
qed

text \<open>
  What the replicator stores. Whatever reads, statements and cancellations fail, the rows it
  adds are the messages of a subsequence of the stream entries it was given: at most one row per
  entry, in the order of the stream, with the fields of the entry. When no statement fails it is one
  row for every entry. Entries it falls \<open>MaxLen\<close> behind may be missing.
\<close>

lemma replicated_rows:
  assumes "redis_stream ok entries trimmed MaxLen xread" and "ok q" and "rw_ok w"
    and "Replicator_Run n ctx_done xread check q w = (ret, lastID, q', w')"
  shows "\<exists>ms kept new. picked (length (entries q)) (length (entries q') - MaxLen) (entries q') ms \<and>
    prefix (entries q) (entries q') \<and> lastID = last_id ''$'' ms \<and>
    tb_rows (rw_table w') = tb_rows (rw_table w) @ new \<and> subseq kept ms \<and>
    list_all2 (\<lambda>(_, vals) (_, x). row_of vals x) kept new \<and>
    (rw_quiet check w \<and> tb_seq (rw_table w) + int (length ms) < 2 ^ 63 \<longrightarrow> kept = ms)"
proof -
  obtain ms where "picked (length (entries q)) (length (entries q') - MaxLen) (entries q') ms" "prefix (entries q) (entries q')"
    "lastID = last_id ''$'' ms" "w' = handled (\<lambda>_ vals w. snd (insertWithRetry check vals w)) ms w"
    using redis_stream.loop_picks [OF assms(1,2) assms(4) [unfolded Replicator_Run_def]] by blast
  with replicate_all [OF assms(3), of check ms] show ?thesis by blast
qed

definition ex_repl :: repl_world where
  "ex_repl = \<lparr>rw_table = tb_empty, rw_waits = 0, rw_clock = [], rw_cancels = []\<rparr>"

end
