(* ===== verification/Configuration.thy ===== *)
theory Configuration
  imports TDLib_Client Complex_Main
begin

text \<open>
  The configuration of both nodes (\<open>internal/config/config.go\<close>): its fields, the defaults and the
  precedence of what the configuration library finds.
\<close>

datatype cfg_value = CStr string | CInt int | CBool bool | CFloat rat

record Config =
  cfg_AppMode :: string
  cfg_AppName :: string
  cfg_DSN :: string
  cfg_MaxOpenConns :: int
  cfg_MaxIdleConns :: int
  cfg_ConnMaxLifetime :: int
  cfg_RedisAddr :: string
  cfg_RedisPassword :: string
  cfg_RedisDB :: int
  cfg_TDLib :: TDLibConfig
  cfg_GRPCMainAddr :: string
  cfg_GRPCListenAddr :: string
  cfg_HTTPAddr :: string
  cfg_LogLevel :: string
  cfg_LogJSON :: bool
  cfg_MasterKey :: string
  cfg_TokenEncryptKey :: string
  cfg_RPS :: rat
  cfg_Burst :: int

definition setDefaults :: "(string, cfg_value) gomap" where
  "setDefaults =
     [(''app.mode'', CStr ''main''), (''app.name'', CStr ''tgplane''),
      (''database.max_open_conns'', CInt 25), (''database.max_idle_conns'', CInt 10),
      (''database.conn_max_lifetime_seconds'', CInt 300),
      (''redis.addr'', CStr ''localhost:6379''), (''redis.db'', CInt 0),
      (''tdlib.data_dir'', CStr ''./data/sessions''), (''tdlib.log_level'', CInt 1),
      (''grpc.listen_addr'', CStr '':50051''), (''http.addr'', CStr '':8080''),
      (''log.level'', CStr ''info''), (''log.json'', CBool False),
      (''rate_limit.rps'', CInt 100), (''rate_limit.burst'', CInt 200)]"

text \<open>
  \<open>found\<close> is what the configuration library finds in the environment or in the file, already
  converted; it wins over the default. A field with neither keeps its zero value.
\<close>

definition cfg_lookup :: "(string \<Rightarrow> cfg_value option) \<Rightarrow> string \<Rightarrow> cfg_value option" where
  "cfg_lookup found key = (case found key of Some v \<Rightarrow> Some v | None \<Rightarrow> go_get setDefaults key)"

definition cfg_str :: "(string \<Rightarrow> cfg_value option) \<Rightarrow> string \<Rightarrow> string" where
  "cfg_str found key = (case cfg_lookup found key of Some (CStr x) \<Rightarrow> x | _ \<Rightarrow> [])"

definition cfg_int :: "(string \<Rightarrow> cfg_value option) \<Rightarrow> string \<Rightarrow> int" where
  "cfg_int found key = (case cfg_lookup found key of Some (CInt x) \<Rightarrow> x | _ \<Rightarrow> 0)"

definition cfg_bool :: "(string \<Rightarrow> cfg_value option) \<Rightarrow> string \<Rightarrow> bool" where
  "cfg_bool found key = (case cfg_lookup found key of Some (CBool x) \<Rightarrow> x | _ \<Rightarrow> False)"

definition cfg_float :: "(string \<Rightarrow> cfg_value option) \<Rightarrow> string \<Rightarrow> rat" where
  "cfg_float found key = (case cfg_lookup found key of Some (CFloat x) \<Rightarrow> x | Some (CInt i) \<Rightarrow> of_int i | _ \<Rightarrow> 0)"

text \<open>
  Reading the file may fail, and so may the conversion of what was found to the types of the fields
  (\<open>decode\<close>); otherwise the fields are filled one by one.
\<close>

definition Load :: "error + (string \<Rightarrow> cfg_value option) \<Rightarrow> error option \<Rightarrow> error + Config" where
  "Load source decode =
     (case (source, decode) of
        (Inl err, _) \<Rightarrow> Inl err
      | (Inr _, Some err) \<Rightarrow> Inl err
      | (Inr found, None) \<Rightarrow>
          Inr \<lparr>cfg_AppMode = cfg_str found ''app.mode'', cfg_AppName = cfg_str found ''app.name'',
               cfg_DSN = cfg_str found ''database.dsn'',
               cfg_MaxOpenConns = cfg_int found ''database.max_open_conns'',
               cfg_MaxIdleConns = cfg_int found ''database.max_idle_conns'',
               cfg_ConnMaxLifetime = cfg_int found ''database.conn_max_lifetime_seconds'',
               cfg_RedisAddr = cfg_str found ''redis.addr'', cfg_RedisPassword = cfg_str found ''redis.password'',
               cfg_RedisDB = cfg_int found ''redis.db'',
               cfg_TDLib = \<lparr>APIID = cfg_int found ''tdlib.api_id'', APIHash = cfg_str found ''tdlib.api_hash'',
                 DataDir = cfg_str found ''tdlib.data_dir'', LogLevel = cfg_int found ''tdlib.log_level'',
                 UseTestDC = cfg_bool found ''tdlib.use_test_dc''\<rparr>,
               cfg_GRPCMainAddr = cfg_str found ''grpc.main_addr'', cfg_GRPCListenAddr = cfg_str found ''grpc.listen_addr'',
               cfg_HTTPAddr = cfg_str found ''http.addr'',
               cfg_LogLevel = cfg_str found ''log.level'', cfg_LogJSON = cfg_bool found ''log.json'',
               cfg_MasterKey = cfg_str found ''auth.master_key'', cfg_TokenEncryptKey = cfg_str found ''auth.token_encrypt_key'',
               cfg_RPS = cfg_float found ''rate_limit.rps'', cfg_Burst = cfg_int found ''rate_limit.burst''\<rparr>)"

end
