(* ===== verification/Infrastructure.thy ===== *)
theory Infrastructure
  imports Configuration Worker_Server
begin

text \<open>
  What both nodes set up from the configuration before any component runs: the database connection
  and its migrations (\<open>internal/database\<close>), the logger (\<open>internal/logger\<close>), the Redis client
  (\<open>internal/redisclient\<close>), the options of the gRPC server and client, and the registration of the
  Prometheus metrics (\<open>internal/metrics/metrics.go\<close>). The libraries are arguments.
\<close>

section \<open>How a process ends\<close>

text \<open>\<open>main\<close> returns, a fatal log entry ends the process with its message and error, or a panic does.\<close>

datatype exit_reason = Returned | Fatal string error | Crashed error

fun exit_code :: "exit_reason \<Rightarrow> int" where
  "exit_code Returned = 0"
| "exit_code (Fatal msg err) = 1"
| "exit_code (Crashed err) = 2"

text \<open>
  Runs of a process. A run is an infinite sequence of states in which the process steps or nothing
  happens. The process consists of tasks: goroutines, the passing of time, and what is relied on of
  the environment. A run is fair when a task that can act from some time on for ever acts again.
\<close>

definition run_of :: "('s \<Rightarrow> 's \<Rightarrow> bool) \<Rightarrow> (nat \<Rightarrow> 's) \<Rightarrow> bool" where
  "run_of step r \<longleftrightarrow> (\<forall>i. step (r i) (r (Suc i)) \<or> r (Suc i) = r i)"

definition fair :: "('t \<Rightarrow> 's \<Rightarrow> 's \<Rightarrow> bool) \<Rightarrow> (nat \<Rightarrow> 's) \<Rightarrow> bool" where
  "fair task r \<longleftrightarrow> (\<forall>t i. (\<forall>j\<ge>i. \<exists>s'. task t (r j) s') \<longrightarrow> (\<exists>j\<ge>i. task t (r j) (r (Suc j))))"

text \<open>A run that comes to rest is fair.\<close>

lemma fair_at_rest:
  assumes "\<And>t j s'. k \<le> j \<Longrightarrow> \<not> task t (r j) s'"
  shows "fair task r"
  unfolding fair_def
proof (intro allI impI)
  fix t i
  assume "\<forall>j\<ge>i. \<exists>s'. task t (r j) s'"
  then have "\<exists>s'. task t (r (max i k)) s'" by simp
  then show "\<exists>j\<ge>i. task t (r j) (r (Suc j))" using assms [of "max i k" t] by simp
qed

text \<open>
  When every fair run ends: on the way to the end there is always one helpful task that can act,
  which brings the process closer to the end, and until it acts every other step brings it closer
  too or leaves the distance and the helpful task as they are.
\<close>

locale fair_progress =
  fixes step :: "'s \<Rightarrow> 's \<Rightarrow> bool" and on_way ended :: "'s \<Rightarrow> bool" and rank work :: "'s \<Rightarrow> nat"
    and task :: "'t \<Rightarrow> 's \<Rightarrow> 's \<Rightarrow> bool" and helpful :: "'s \<Rightarrow> 't"
  assumes stays: "on_way s \<Longrightarrow> step s s' \<Longrightarrow> ended s' \<or> on_way s' \<and> (rank s' < rank s \<or> rank s' = rank s \<and> work s' < work s \<or>
      rank s' = rank s \<and> work s' = work s \<and> helpful s' = helpful s)"
    and can: "on_way s \<Longrightarrow> \<exists>s'. task (helpful s) s s'"
    and helps: "on_way s \<Longrightarrow> task (helpful s) s s' \<Longrightarrow> ended s' \<or> rank s' < rank s \<or> rank s' = rank s \<and> work s' < work s"
begin

abbreviation closer :: "'s \<Rightarrow> 's \<Rightarrow> bool" where
  "closer s' s \<equiv> rank s' < rank s \<or> rank s' = rank s \<and> work s' < work s"

text \<open>As long as the run neither ends nor comes closer, the same task stays the helpful one.\<close>

lemma same_helpful:
  assumes "run_of step r" "on_way (r i)"
    and "\<And>j. i \<le> j \<Longrightarrow> \<not> ended (r j) \<and> \<not> (on_way (r j) \<and> closer (r j) (r i))"
    and "i \<le> j"
  shows "on_way (r j) \<and> helpful (r j) = helpful (r i) \<and> rank (r j) = rank (r i) \<and> work (r j) = work (r i)"
  using assms(4)
proof (induction j rule: dec_induct)
  case (step n)
  have "step (r n) (r (Suc n)) \<or> r (Suc n) = r n" using assms(1) by (simp add: run_of_def)
  then show ?case
  proof
    assume "step (r n) (r (Suc n))"
    from stays [OF _ this] step assms(3) [of "Suc n"] show ?thesis by auto
  qed (use step in simp)
qed (simp add: assms(2))

lemma comes_closer:
  assumes "run_of step r" "fair task r" "on_way (r i)"
  shows "\<exists>j\<ge>i. ended (r j) \<or> on_way (r j) \<and> closer (r j) (r i)"
proof (rule ccontr)
  assume "\<not> ?thesis"
  then have no: "\<not> ended (r j) \<and> \<not> (on_way (r j) \<and> closer (r j) (r i))" if "i \<le> j" for j using that by blast
  have same: "on_way (r j) \<and> helpful (r j) = helpful (r i) \<and> rank (r j) = rank (r i) \<and> work (r j) = work (r i)" if "i \<le> j" for j
    by (rule same_helpful [OF assms(1,3) _ that]) (rule no)
  have "\<forall>j\<ge>i. \<exists>s'. task (helpful (r i)) (r j) s'" using same can by metis
  then obtain j where j: "i \<le> j" "task (helpful (r i)) (r j) (r (Suc j))" using assms(2) unfolding fair_def by blast
  have "on_way (r j)" "helpful (r j) = helpful (r i)" using same [OF j(1)] by auto
  then have "ended (r (Suc j)) \<or> closer (r (Suc j)) (r j)" using helps j(2) by metis
  moreover have "\<not> ended (r (Suc j))" "rank (r (Suc j)) = rank (r j)" "work (r (Suc j)) = work (r j)"
    using no [of "Suc j"] same [OF j(1)] same [of "Suc j"] j(1) by simp_all
  ultimately show False by simp
qed

lemma fair_run_ends:
  assumes "run_of step r" "fair task r"
  shows "on_way (r i) \<Longrightarrow> \<exists>j\<ge>i. ended (r j)"
proof (induction i rule: wf_induct_rule [OF wf_measures [of "[\<lambda>i. rank (r i), \<lambda>i. work (r i)]"]])
  case (1 i)
  from comes_closer [OF assms 1(2)] obtain j where j: "i \<le> j" "ended (r j) \<or> on_way (r j) \<and> closer (r j) (r i)" by blast
  show ?case
  proof (cases "ended (r j)")
    case True
    then show ?thesis using j(1) by blast
  next
    case False
    then obtain l where "j \<le> l" "ended (r l)" using 1(1) [of j] j(2) by auto
    then show ?thesis using j(1) le_trans by blast
  qed
qed

end

section \<open>Database\<close>

text \<open>
  A connection pool with its limits; the lifetime is a duration in nanoseconds, computed in 64 bits.
  \<open>open_db\<close> parses the data source name, \<open>ping\<close> is the answer of the server.
\<close>

record db_conn =
  db_DSN :: string
  db_MaxOpenConns :: int
  db_MaxIdleConns :: int
  db_ConnMaxLifetime :: int

definition Connect :: "(string \<Rightarrow> error option) \<Rightarrow> error option \<Rightarrow> Config \<Rightarrow> error + db_conn" where
  "Connect open_db ping cfg =
     (case open_db (cfg_DSN cfg) of
        Some err \<Rightarrow> Inl (Wrapf ''open postgres: %w'' [] err)
      | None \<Rightarrow>
          (let db = \<lparr>db_DSN = cfg_DSN cfg, db_MaxOpenConns = cfg_MaxOpenConns cfg, db_MaxIdleConns = cfg_MaxIdleConns cfg,
                     db_ConnMaxLifetime = wrap64 (cfg_ConnMaxLifetime cfg * Second)\<rparr>
           in case ping of
                Some err \<Rightarrow> Inl (Wrapf ''ping postgres: %w'' [] err)
              | None \<Rightarrow> Inr db))"

text \<open>
  The migration library fails to wrap the connection, to read the directory, or to apply a
  migration; that nothing is left to apply is not an error.
\<close>

definition ErrNoChange :: error where
  "ErrNoChange = Sentinel ''no change''"

definition Migrate :: "error option \<Rightarrow> error option \<Rightarrow> error option \<Rightarrow> error option" where
  "Migrate driver init up =
     (case driver of
        Some err \<Rightarrow> Some (Wrapf ''migrate driver: %w'' [] err)
      | None \<Rightarrow>
          (case init of
             Some err \<Rightarrow> Some (Wrapf ''migrate init: %w'' [] err)
           | None \<Rightarrow>
               (case up of
                  Some err \<Rightarrow> if err \<noteq> ErrNoChange then Some (Wrapf ''migrate up: %w'' [] err) else None
                | None \<Rightarrow> None)))"

section \<open>Logger\<close>

text \<open>
  The settings handed to the logging library: the production or the development profile, colours,
  and the level. An unknown level becomes \<open>info\<close>; \<open>build\<close> is the library's constructor.
\<close>

record 'v log_config =
  lc_production :: bool
  lc_color :: bool
  lc_Level :: 'v

definition logger_New :: "(string \<Rightarrow> error + 'v) \<Rightarrow> 'v \<Rightarrow> ('v log_config \<Rightarrow> error option) \<Rightarrow> string \<Rightarrow> bool \<Rightarrow>
    error + 'v log_config" where
  "logger_New parse info build level json =
     (let lvl = (case parse level of Inl err \<Rightarrow> info | Inr l \<Rightarrow> l);
          cfg = (if json then \<lparr>lc_production = True, lc_color = False, lc_Level = lvl\<rparr>
                 else \<lparr>lc_production = False, lc_color = True, lc_Level = lvl\<rparr>)
      in case build cfg of Some err \<Rightarrow> Inl err | None \<Rightarrow> Inr cfg)"

definition logger_Must :: "(string \<Rightarrow> error + 'v) \<Rightarrow> 'v \<Rightarrow> ('v log_config \<Rightarrow> error option) \<Rightarrow> string \<Rightarrow> bool \<Rightarrow>
    exit_reason + 'v log_config" where
  "logger_Must parse info build level json =
     (case logger_New parse info build level json of Inl err \<Rightarrow> Inl (Crashed err) | Inr l \<Rightarrow> Inr l)"

section \<open>Redis\<close>

record redis_options =
  ro_Addr :: string
  ro_Password :: string
  ro_DB :: int

definition redisclient_New :: "Config \<Rightarrow> redis_options" where
  "redisclient_New cfg = \<lparr>ro_Addr = cfg_RedisAddr cfg, ro_Password = cfg_RedisPassword cfg, ro_DB = cfg_RedisDB cfg\<rparr>"

section \<open>Keep-alive of gRPC connections\<close>

record server_keepalive =
  ka_MaxConnectionIdle :: int
  ka_Time :: int
  ka_Timeout :: int
  ka_MinTime :: int
  ka_PermitWithoutStream :: bool

definition NewGRPCServer_options :: server_keepalive where
  "NewGRPCServer_options =
     \<lparr>ka_MaxConnectionIdle = 5 * 60 * Second, ka_Time = 30 * Second, ka_Timeout = 10 * Second,
      ka_MinTime = 15 * Second, ka_PermitWithoutStream = True\<rparr>"

record client_keepalive =
  kc_Time :: int
  kc_Timeout :: int
  kc_PermitWithoutStream :: bool

definition wc_New_options :: client_keepalive where
  "wc_New_options = \<lparr>kc_Time = 30 * Second, kc_Timeout = 10 * Second, kc_PermitWithoutStream = True\<rparr>"

text \<open>
  The enforcement policy of a server, as the library documents it: a ping that comes less than
  \<open>MinTime\<close> after the previous one, or without a stream where that is not permitted, is a strike, and
  the third strike closes the connection.
\<close>

fun ping_strikes :: "server_keepalive \<Rightarrow> int \<Rightarrow> (int \<times> bool) list \<Rightarrow> nat" where
  "ping_strikes ka prev [] = 0"
| "ping_strikes ka prev ((t, stream) # ps) =
     (if t < prev + ka_MinTime ka \<or> \<not> stream \<and> \<not> ka_PermitWithoutStream ka then 1 else 0) + ping_strikes ka t ps"

text \<open>A client pings no earlier than \<open>Time\<close> after the previous ping, and idle only if it permits that.\<close>

fun client_pings :: "client_keepalive \<Rightarrow> int \<Rightarrow> (int \<times> bool) list \<Rightarrow> bool" where
  "client_pings kc prev [] \<longleftrightarrow> True"
| "client_pings kc prev ((t, stream) # ps) \<longleftrightarrow>
     prev + kc_Time kc \<le> t \<and> (stream \<or> kc_PermitWithoutStream kc) \<and> client_pings kc t ps"

lemma keepalive_strikes:
  assumes "ka_MinTime ka \<le> kc_Time kc" and "ka_PermitWithoutStream ka \<or> \<not> kc_PermitWithoutStream kc"
  shows "client_pings kc prev ps \<Longrightarrow> ping_strikes ka prev ps = 0"
  using assms by (induction kc prev ps rule: client_pings.induct) auto

section \<open>Registration of the metrics\<close>

datatype metric_kind = GaugeVec | CounterVec | HistogramVec "rat list" | Gauge

record metric =
  mt_kind :: metric_kind
  mt_Namespace :: string
  mt_Name :: string
  mt_labels :: "string list"

definition session_metrics :: "metric list" where
  "session_metrics =
     [\<lparr>mt_kind = GaugeVec, mt_Namespace = ''tgplane'', mt_Name = ''sessions_active'', mt_labels = [''type'', ''status'']\<rparr>,
      \<lparr>mt_kind = CounterVec, mt_Namespace = ''tgplane'', mt_Name = ''sessions_total'', mt_labels = [''type'']\<rparr>,
      \<lparr>mt_kind = CounterVec, mt_Namespace = ''tgplane'', mt_Name = ''session_errors_total'', mt_labels = [''type'']\<rparr>]"

definition update_metrics :: "metric list" where
  "update_metrics =
     [\<lparr>mt_kind = CounterVec, mt_Namespace = ''tgplane'', mt_Name = ''updates_received_total'',
       mt_labels = [''worker_id'', ''session_type'']\<rparr>,
      \<lparr>mt_kind = CounterVec, mt_Namespace = ''tgplane'', mt_Name = ''updates_dispatched_total'', mt_labels = [''worker_id'']\<rparr>,
      \<lparr>mt_kind = CounterVec, mt_Namespace = ''tgplane'', mt_Name = ''updates_dropped_total'', mt_labels = [''worker_id'']\<rparr>]"

definition http_metrics :: "metric list" where
  "http_metrics =
     [\<lparr>mt_kind = CounterVec, mt_Namespace = ''tgplane'', mt_Name = ''http_requests_total'',
       mt_labels = [''method'', ''path'', ''status'']\<rparr>,
      \<lparr>mt_kind = HistogramVec [5 / 1000, 1 / 100, 25 / 1000, 5 / 100, 1 / 10, 25 / 100, 5 / 10, 1, 25 / 10],
       mt_Namespace = ''tgplane'', mt_Name = ''http_request_duration_seconds'', mt_labels = [''method'', ''path'']\<rparr>]"

definition rpc_metrics :: "metric list" where
  "rpc_metrics =
     [\<lparr>mt_kind = CounterVec, mt_Namespace = ''tgplane'', mt_Name = ''worker_rpc_total'', mt_labels = [''method'', ''status'']\<rparr>,
      \<lparr>mt_kind = Gauge, mt_Namespace = ''tgplane'', mt_Name = ''worker_subscribers'', mt_labels = []\<rparr>]"

definition build_metrics :: "metric list" where
  "build_metrics =
     [\<lparr>mt_kind = GaugeVec, mt_Namespace = ''tgplane'', mt_Name = ''build_info'', mt_labels = [''version'', ''node'']\<rparr>]"

definition all_metrics :: "metric list" where
  "all_metrics = session_metrics @ update_metrics @ http_metrics @ rpc_metrics @ build_metrics"

text \<open>
  The documented rules of the metrics library: a name is \<open>[a-zA-Z_:][a-zA-Z0-9_:]*\<close>, a label the same
  without colons and not starting with two underscores; labels do not repeat, buckets increase
  strictly, and a name is registered once. A violation panics when the package is initialised.
\<close>

definition fqName :: "metric \<Rightarrow> string" where
  "fqName d = mt_Namespace d @ ''_'' @ mt_Name d"

definition is_letter :: "char \<Rightarrow> bool" where
  "is_letter c \<longleftrightarrow> of_char c \<in> {65..90 :: nat} \<or> of_char c \<in> {97..122 :: nat} \<or> c = CHR ''_''"

definition is_digit :: "char \<Rightarrow> bool" where
  "is_digit c \<longleftrightarrow> of_char c \<in> {48..57 :: nat}"

definition valid_name :: "(char \<Rightarrow> bool) \<Rightarrow> string \<Rightarrow> bool" where
  "valid_name extra x \<longleftrightarrow> x \<noteq> [] \<and> (is_letter (hd x) \<or> extra (hd x)) \<and> list_all (\<lambda>c. is_letter c \<or> is_digit c \<or> extra c) x"

definition valid_label :: "string \<Rightarrow> bool" where
  "valid_label l \<longleftrightarrow> valid_name (\<lambda>_. False) l \<and> take 2 l \<noteq> ''__''"

definition valid_metric :: "metric \<Rightarrow> bool" where
  "valid_metric d \<longleftrightarrow> valid_name (\<lambda>c. c = CHR '':'') (fqName d) \<and> list_all valid_label (mt_labels d) \<and> distinct (mt_labels d) \<and>
     (case mt_kind d of HistogramVec bs \<Rightarrow> sorted_wrt (<) bs \<and> ''le'' \<notin> set (mt_labels d) | _ \<Rightarrow> True)"

fun register_all :: "metric list \<Rightarrow> metric list \<Rightarrow> error + metric list" where
  "register_all [] reg = Inr reg"
| "register_all (d # ds) reg =
     (if valid_metric d \<and> fqName d \<notin> fqName ` set reg then register_all ds (reg @ [d])
      else Inl (Panic ''metrics registration''))"

text \<open>\<open>WithLabelValues\<close> panics unless there is a value for each label; the values select the series.\<close>

definition WithLabelValues :: "metric list \<Rightarrow> string \<Rightarrow> string list \<Rightarrow> error + string \<times> string list" where
  "WithLabelValues reg name vals =
     (case find (\<lambda>d. fqName d = name) reg of
        Some d \<Rightarrow> if length vals = length (mt_labels d) then Inr (name, vals) else Inl (Panic ''inconsistent label cardinality'')
      | None \<Rightarrow> Inl (Panic ''unregistered metric''))"

text \<open>The series each call of the session hook selects, in the order of the calls.\<close>

fun hook_series :: "hook_call \<Rightarrow> (string \<times> string list) list" where
  "hook_series (OnAdded t) =
     [(''tgplane_sessions_total'', [sess_type_string t]),
      (''tgplane_sessions_active'', [sess_type_string t, status_string StatusAuthorizing])]"
| "hook_series (OnRemoved t finalStatus) =
     [(''tgplane_sessions_active'', [sess_type_string t, status_string finalStatus])]"
| "hook_series (OnStatusChanged t old new) =
     [(''tgplane_sessions_active'', [sess_type_string t, status_string old]),
      (''tgplane_sessions_active'', [sess_type_string t, status_string new])]"
| "hook_series (OnError t) = [(''tgplane_session_errors_total'', [sess_type_string t])]"

text \<open>The series of an update on the bus of a worker, of a request, and of the build information.\<close>

definition dispatch_series :: "string \<Rightarrow> (string \<times> string list) list" where
  "dispatch_series wid = [(''tgplane_updates_received_total'', [wid, ''unknown'']),
     (''tgplane_updates_dispatched_total'', [wid]), (''tgplane_updates_dropped_total'', [wid])]"

definition request_series :: "string \<Rightarrow> string \<Rightarrow> string \<Rightarrow> (string \<times> string list) list" where
  "request_series meth fullPath st =
     (let path = (if fullPath = [] then ''unknown'' else fullPath)
      in [(''tgplane_http_requests_total'', [meth, path, st]), (''tgplane_http_request_duration_seconds'', [meth, path])])"

definition build_series :: "string \<Rightarrow> (string \<times> string list) list" where
  "build_series node = [(''tgplane_build_info'', [''0.1.0'', node])]"

lemma label_strings_inj:
  "sess_type_string t = sess_type_string t' \<longleftrightarrow> t = t'" "status_string st = status_string st' \<longleftrightarrow> st = st'"
  by (cases t; cases t'; simp) (cases st; cases st'; simp)

lemmas metric_lists = all_metrics_def session_metrics_def update_metrics_def http_metrics_def rpc_metrics_def build_metrics_def

lemma register_all_metrics: "register_all all_metrics [] = Inr all_metrics"
  by (simp add: metric_lists fqName_def valid_metric_def valid_name_def valid_label_def is_letter_def is_digit_def)

text \<open>
  The metrics are usable. The initialisation of the package registers all metrics without a panic;
  no call of the session hook, of the update bus, of the request middleware or of the start-up
  selects a series that does not exist; and different types and statuses select different series,
  so that the gauges of the model, indexed by type and status, are the series of the program.
\<close>

theorem metrics_usable:
  "register_all all_metrics [] = Inr all_metrics \<and>
   (\<forall>call wid meth path st node. \<forall>(name, vals) \<in> set (hook_series call @ dispatch_series wid @ request_series meth path st @ build_series node).
      WithLabelValues all_metrics name vals = Inr (name, vals)) \<and>
   (\<forall>t st t' st'. WithLabelValues all_metrics ''tgplane_sessions_active'' [sess_type_string t, status_string st] =
      WithLabelValues all_metrics ''tgplane_sessions_active'' [sess_type_string t', status_string st'] \<longrightarrow> t = t' \<and> st = st')"
proof (intro conjI allI)
  show "register_all all_metrics [] = Inr all_metrics" by (rule register_all_metrics)
  show "\<forall>(name, vals) \<in> set (hook_series call @ dispatch_series wid @ request_series meth path st @ build_series node).
      WithLabelValues all_metrics name vals = Inr (name, vals)" for call wid meth path st node
    by (cases call) (simp_all add: dispatch_series_def request_series_def build_series_def WithLabelValues_def metric_lists fqName_def Let_def)
  show "WithLabelValues all_metrics ''tgplane_sessions_active'' [sess_type_string t, status_string st] =
      WithLabelValues all_metrics ''tgplane_sessions_active'' [sess_type_string t', status_string st'] \<longrightarrow> t = t' \<and> st = st'" for t st t' st'
    by (simp add: WithLabelValues_def metric_lists fqName_def label_strings_inj)
qed

text \<open>Keep-alive pings of a client of the program are never punished by a server of the program.\<close>

theorem keepalive_compatible:
  "client_pings wc_New_options prev ps \<Longrightarrow> ping_strikes NewGRPCServer_options prev ps = 0"
  by (rule keepalive_strikes) (simp_all add: wc_New_options_def NewGRPCServer_options_def Second_def)

end
