(* ===== verification/Main_Node.thy ===== *)
theory Main_Node
  imports Rest_Server Replication Infrastructure
begin

text \<open>
  The main node: what \<open>cmd/main/main.go\<close> adds to the
  components it wires, the handler that publishes updates, the order in which workers are restored,
  and the call-back that restores the sessions of a worker.
\<close>

section \<open>Wiring\<close>

text \<open>
  What \<open>main\<close> does not decide: the checks of the column types by the database, the environment of
  the workers, the method table of TDLib clients, the token buckets and the check of URLs of the
  libraries.
\<close>

record ('c, 'p, 'l) externals =
  xt_acc :: "Account \<Rightarrow> error option"
  xt_bot :: "Bot \<Rightarrow> error option"
  xt_key :: "APIKey \<Rightarrow> error option"
  xt_hook :: "Webhook \<Rightarrow> error option"
  xt_env :: "'c env"
  xt_ifc :: "'p TDClient"
  xt_newLimiter :: "rat \<Rightarrow> int \<Rightarrow> 'l"
  xt_allow :: "int \<Rightarrow> 'l \<Rightarrow> bool \<times> 'l"
  xt_valid_url :: "string \<Rightarrow> bool"

text \<open>Repositories, services and the dependencies of the API, with the database clock at \<open>now\<close>.\<close>

definition main_deps :: "('c, 'p, 'l) externals \<Rightarrow> Config \<Rightarrow> TokenEncryptor \<Rightarrow> int \<Rightarrow>
    (Account table, Bot table, 'c, APIKey table, Webhook table, 'p, 'l) deps" where
  "main_deps X cfg tokenEnc now =
     \<lparr>dp_services =
        \<lparr>sv_accounts = account_postgres (xt_acc X) FormatInt now, sv_bots = bot_postgres (xt_bot X) FormatInt now,
         sv_enc = Some tokenEnc, sv_env = xt_env X\<rparr>,
      dp_auth = Some (auth_postgres (xt_key X) now, cfg_MasterKey cfg),
      dp_hooks = Some (webhook_postgres (xt_hook X) now),
      dp_bulk = True, dp_ifc = xt_ifc X, dp_RPS = cfg_RPS cfg,
      dp_newLimiter = xt_newLimiter X (cfg_RPS cfg) (cfg_Burst cfg), dp_allow = xt_allow X,
      dp_valid_url = xt_valid_url X\<rparr>"

definition main_setup :: "('c, 'p, 'l) externals \<Rightarrow> Config \<Rightarrow> int \<Rightarrow>
    error + (Account table, Bot table, 'c, APIKey table, Webhook table, 'p, 'l) deps" where
  "main_setup X cfg now =
     (case NewTokenEncryptor (cfg_TokenEncryptKey cfg) of
        Inl err \<Rightarrow> Inl err
      | Inr tokenEnc \<Rightarrow> Inr (main_deps X cfg tokenEnc now))"

text \<open>The session pool of the main node has a factory that always fails and a handler that only logs.\<close>

definition main_factory :: "'p ClientFactory" where
  "main_factory sid phone token = Inl (Errorf ''tdlib not available on main node; use a worker'' [])"

definition main_pool :: "('p, unit) pool" where
  "main_pool = NewPool (Some ()) True"

section \<open>Starting up\<close>

text \<open>\<open>main\<close> restores the registered workers before it installs the call-back for ready workers.\<close>

definition main_workers :: "'c env \<Rightarrow> worker_table \<Rightarrow> 'c net \<Rightarrow> 'c manager" where
  "main_workers E t n = SetOnWorkerReady (snd (RestoreWorkers E (NewManager (Some t) n)))"

text \<open>The node when the server starts, over the tables of the database and the network it finds.\<close>

definition main_node :: "('c, 'p, 'l) externals \<Rightarrow> Account table \<Rightarrow> Bot table \<Rightarrow> APIKey table \<Rightarrow> Webhook table \<Rightarrow>
    worker_table \<Rightarrow> 'c net \<Rightarrow> (Account table, Bot table, 'c, APIKey table, Webhook table, 'p, 'l) node" where
  "main_node X accounts bots keys hooks workers n =
     \<lparr>nd_backend = \<lparr>bk_accounts = accounts, bk_bots = bots, bk_mgr = Some (main_workers (xt_env X) workers n)\<rparr>,
      nd_keys = keys, nd_hooks = hooks, nd_pool = main_pool, nd_limiters = [], nd_requests = []\<rparr>"

text \<open>
  What the libraries answer during the start: the configuration file and its conversion, the level
  parser and the constructor of the logger, the database and the migrations.
\<close>

record 'v boot =
  bt_source :: "error + (string \<Rightarrow> cfg_value option)"
  bt_decode :: "error option"
  bt_level :: "string \<Rightarrow> error + 'v"
  bt_info :: 'v
  bt_log :: "'v log_config \<Rightarrow> error option"
  bt_open :: "string \<Rightarrow> error option"
  bt_ping :: "error option"
  bt_driver :: "error option"
  bt_init :: "error option"
  bt_up :: "error option"

text \<open>The steps both nodes share: configuration and logger.\<close>

definition boot_config :: "'v boot \<Rightarrow> exit_reason + Config" where
  "boot_config B =
     (case Load (bt_source B) (bt_decode B) of
        Inl err \<Rightarrow> Inl (Fatal ''load config: %v'' err)
      | Inr cfg \<Rightarrow>
          (case logger_Must (bt_level B) (bt_info B) (bt_log B) (cfg_LogLevel cfg) (cfg_LogJSON cfg) of
             Inl e \<Rightarrow> Inl e
           | Inr l \<Rightarrow> Inr cfg))"

text \<open>
  The start of the main node up to its server: either the process ends, or the dependencies and
  the state of the node are set up.
\<close>

definition main_start :: "('c, 'p, 'l) externals \<Rightarrow> 'v boot \<Rightarrow> int \<Rightarrow>
    Account table \<Rightarrow> Bot table \<Rightarrow> APIKey table \<Rightarrow> Webhook table \<Rightarrow> worker_table \<Rightarrow> 'c net \<Rightarrow>
    exit_reason + (Account table, Bot table, 'c, APIKey table, Webhook table, 'p, 'l) deps \<times>
      (Account table, Bot table, 'c, APIKey table, Webhook table, 'p, 'l) node" where
  "main_start X B now accounts bots keys hooks workers n =
     (case boot_config B of
        Inl e \<Rightarrow> Inl e
      | Inr cfg \<Rightarrow>
          (case Connect (bt_open B) (bt_ping B) cfg of
             Inl err \<Rightarrow> Inl (Fatal ''connect to postgres'' err)
           | Inr db \<Rightarrow>
               (case Migrate (bt_driver B) (bt_init B) (bt_up B) of
                  Some err \<Rightarrow> Inl (Fatal ''run migrations'' err)
                | None \<Rightarrow>
                    (case main_setup X cfg now of
                       Inl err \<Rightarrow> Inl (Fatal ''init token encryptor'' err)
                     | Inr D \<Rightarrow> Inr (D, main_node X accounts bots keys hooks workers n)))))"

text \<open>A worker node: its name, and its server over an empty pool, whose update handler the server sets.\<close>

definition worker_name :: "string \<Rightarrow> Config \<Rightarrow> string" where
  "worker_name flag cfg = (if flag \<noteq> [] then flag else cfg_AppName cfg)"

definition worker_start :: "string \<Rightarrow> 'v boot \<Rightarrow> exit_reason + 'c server" where
  "worker_start flag B =
     (case boot_config B of
        Inl e \<Rightarrow> Inl e
      | Inr cfg \<Rightarrow> Inr (NewWorkerServer (worker_name flag cfg) (NewPool None True)))"

text \<open>The handler of updates from a worker: an error of the stream is logged only.\<close>

definition onUpdate_main ::
  "(string \<Rightarrow> nat \<Rightarrow> bool \<Rightarrow> rvals \<Rightarrow> 'q \<Rightarrow> error option \<times> 'q) \<Rightarrow> int \<Rightarrow> string \<Rightarrow> TelegramUpdate \<Rightarrow> 'q \<Rightarrow> 'q" where
  "onUpdate_main xadd now workerID upd q = snd (Publish xadd workerID upd now q)"

section \<open>Restoring the sessions of a worker\<close>

fun restore_bots :: "'c env \<Rightarrow> string \<Rightarrow> Bot list \<Rightarrow> 'c manager \<Rightarrow> 'c manager" where
  "restore_bots E workerID [] m = m"
| "restore_bots E workerID (b # bots) m =
     restore_bots E workerID bots (snd (AssignBotToWorker E workerID (bot_SessionID b) (bot_Token b) m))"

fun restore_accounts :: "'c env \<Rightarrow> string \<Rightarrow> Account list \<Rightarrow> 'c manager \<Rightarrow> 'c manager" where
  "restore_accounts E workerID [] m = m"
| "restore_accounts E workerID (a # accounts) m =
     restore_accounts E workerID accounts (snd (AssignAccountToWorker E workerID (acc_SessionID a) (acc_Phone a) m))"

definition onWorkerReady :: "('a, 'b, 'c) services \<Rightarrow> string \<Rightarrow> ('a, 'b, 'c) backend \<Rightarrow> ('a, 'b, 'c) backend" where
  "onWorkerReady V workerID s =
     (case on_bots (bs_ListByWorkerID (sv_bots V) (sv_enc V) workerID) s of
        (Inl err, s1) \<Rightarrow> s1
      | (Inr bots, s1) \<Rightarrow>
          (let s2 = s1\<lparr>bk_mgr := map_option (restore_bots (sv_env V) workerID bots) (bk_mgr s1)\<rparr> in
           case on_accounts (as_ListByWorkerID (sv_accounts V) workerID) s2 of
             (Inl err, s3) \<Rightarrow> s3
           | (Inr accounts, s3) \<Rightarrow>
               s3\<lparr>bk_mgr := map_option (restore_accounts (sv_env V) workerID accounts) (bk_mgr s3)\<rparr>))"

text \<open>A worker that answers: registered, connected, running, and nothing is lost on the way.\<close>

definition answering :: "'c env \<Rightarrow> string \<Rightarrow> wclient \<Rightarrow> 'c manager \<Rightarrow> bool" where
  "answering E wid c m \<longleftrightarrow> go_get (mgr_workers m) wid = Some c \<and> wc_conn c \<in> set (net_open (mgr_net m)) \<and>
     net_wire (mgr_net m) = [] \<and> (\<exists>s. net_nodes (mgr_net m) (wc_addr c) = Some s) \<and>
     (\<forall>sid phone token. \<exists>x. env_factory E (wc_addr c) sid phone token = Inr x)"

definition runs_at :: "'c manager \<Rightarrow> string \<Rightarrow> string \<Rightarrow> bool" where
  "runs_at m addr sid \<longleftrightarrow> (\<exists>s. net_nodes (mgr_net m) addr = Some s \<and> go_get (sessions (srv_pool s)) sid \<noteq> None)"

lemma Pool_add_present:
  "factory sid phone token = Inr x \<Longrightarrow> go_get (sessions (snd (Pool_add factory now sid phone token t p))) sid \<noteq> None"
  by (simp add: Pool_add_def Let_def split: option.splits)

lemma start_call:
  assumes open_c: "wc_conn c \<in> set (net_open n)" "net_wire n = []" "net_nodes n (wc_addr c) = Some s"
    and "starts h sid" and "go_get (sessions (srv_pool (snd (h s)))) sid \<noteq> None"
  shows "\<exists>r s'. wc_call c h n = (r, n\<lparr>net_nodes := (net_nodes n)(wc_addr c \<mapsto> s')\<rparr>) \<and>
    go_get (sessions (srv_pool s')) sid \<noteq> None \<and>
    (\<forall>a. go_get (sessions (srv_pool s)) a \<noteq> None \<longrightarrow> go_get (sessions (srv_pool s')) a \<noteq> None)"
proof -
  obtain r s' where h: "h s = (r, s')" by fastforce
  have ran: "\<not> is_panic r" "\<forall>a. go_get (sessions (srv_pool s)) a \<noteq> None \<longrightarrow> go_get (sessions (srv_pool s')) a \<noteq> None"
    using assms(4) h unfolding starts_def by auto
  have same: "n\<lparr>net_wire := [], net_nodes := f\<rparr> = n\<lparr>net_nodes := f\<rparr>" for f using open_c(2) by (cases n) simp
  have "wc_call c h n = (r, n\<lparr>net_wire := [], net_nodes := (net_nodes n)(wc_addr c \<mapsto> s')\<rparr>)"
    using open_c h ran(1) by (simp add: wc_call_def Let_def)
  then have "wc_call c h n = (r, n\<lparr>net_nodes := (net_nodes n)(wc_addr c \<mapsto> s')\<rparr>)" unfolding same .
  moreover have "go_get (sessions (srv_pool s')) sid \<noteq> None" using assms(5) h by simp
  ultimately show ?thesis using ran(2) by blast
qed

lemma restore_one:
  assumes ans: "answering E wid c m" and h: "starts h sid"
    and present: "\<And>s. go_get (sessions (srv_pool (snd (h s)))) sid \<noteq> None"
    and m': "m' = m\<lparr>mgr_net := snd (wc_call c h (mgr_net m))\<rparr>"
  shows "answering E wid c m' \<and> runs_at m' (wc_addr c) sid \<and> (\<forall>a. runs_at m (wc_addr c) a \<longrightarrow> runs_at m' (wc_addr c) a)"
proof -
  obtain s where w: "go_get (mgr_workers m) wid = Some c" "wc_conn c \<in> set (net_open (mgr_net m))" "net_wire (mgr_net m) = []"
    "net_nodes (mgr_net m) (wc_addr c) = Some s" using ans by (auto simp: answering_def)
  obtain r s' where call: "wc_call c h (mgr_net m) = (r, (mgr_net m)\<lparr>net_nodes := (net_nodes (mgr_net m))(wc_addr c \<mapsto> s')\<rparr>)"
    and s': "go_get (sessions (srv_pool s')) sid \<noteq> None"
      "\<And>a. go_get (sessions (srv_pool s)) a \<noteq> None \<Longrightarrow> go_get (sessions (srv_pool s')) a \<noteq> None"
    using start_call [OF w(2-4) h present] by blast
  have "m' = m\<lparr>mgr_net := (mgr_net m)\<lparr>net_nodes := (net_nodes (mgr_net m))(wc_addr c \<mapsto> s')\<rparr>\<rparr>"
    using m' call by simp
  then show ?thesis using ans s' w(4) by (auto simp: answering_def runs_at_def)
qed

definition restored :: "'c env \<Rightarrow> string \<Rightarrow> wclient \<Rightarrow> string set \<Rightarrow> 'c manager \<Rightarrow> 'c manager \<Rightarrow> bool" where
  "restored E wid c sids m m' \<longleftrightarrow> answering E wid c m' \<and> (\<forall>sid \<in> sids. runs_at m' (wc_addr c) sid) \<and>
     (\<forall>sid. runs_at m (wc_addr c) sid \<longrightarrow> runs_at m' (wc_addr c) sid)"

lemma restored_trans: "restored E wid c A m m1 \<Longrightarrow> restored E wid c B m1 m2 \<Longrightarrow> restored E wid c (A \<union> B) m m2"
  by (auto simp: restored_def)

lemma AssignBotToWorker_restored:
  assumes "answering E wid c m"
  shows "restored E wid c {sid} m (snd (AssignBotToWorker E wid sid token m))"
proof -
  let ?h = "srv_AddBot (env_factory E (wc_addr c)) (env_now E) sid token"
  have w: "go_get (mgr_workers m) wid = Some c" using assms by (simp add: answering_def)
  have m': "snd (AssignBotToWorker E wid sid token m) = m\<lparr>mgr_net := snd (wc_call c ?h (mgr_net m))\<rparr>"
    using w by (simp add: AssignBotToWorker_def with_worker_def wc_AddBot_def split: prod.splits sum.splits)
  obtain x where "env_factory E (wc_addr c) sid [] token = Inr x" using assms unfolding answering_def by blast
  then have "go_get (sessions (srv_pool (snd (?h s)))) sid \<noteq> None" for s
    using Pool_add_present [of "env_factory E (wc_addr c)" sid "[]" token x] by (simp add: Pool_AddBot_def)
  from restore_one [OF assms starts_AddBot this m'] show ?thesis by (simp add: restored_def)
qed

lemma AssignAccountToWorker_restored:
  assumes "answering E wid c m"
  shows "restored E wid c {sid} m (snd (AssignAccountToWorker E wid sid phone m))"
proof -
  let ?h = "srv_AddAccount (env_factory E (wc_addr c)) (env_now E) sid phone"
  have w: "go_get (mgr_workers m) wid = Some c" using assms by (simp add: answering_def)
  have m': "snd (AssignAccountToWorker E wid sid phone m) = m\<lparr>mgr_net := snd (wc_call c ?h (mgr_net m))\<rparr>"
    using w by (simp add: AssignAccountToWorker_def with_worker_def wc_AddAccount_def split: prod.splits sum.splits)
  obtain x where "env_factory E (wc_addr c) sid phone [] = Inr x" using assms unfolding answering_def by blast
  then have "go_get (sessions (srv_pool (snd (?h s)))) sid \<noteq> None" for s
    using Pool_add_present [of "env_factory E (wc_addr c)" sid phone "[]" x] by (simp add: Pool_Add_def)
  from restore_one [OF assms starts_AddAccount this m'] show ?thesis by (simp add: restored_def)
qed

lemma restore_bots_restored:
  "answering E wid c m \<Longrightarrow> restored E wid c (bot_SessionID ` set bots) m (restore_bots E wid bots m)"
proof (induction bots arbitrary: m)
  case Nil
  then show ?case by (simp add: restored_def)
next
  case (Cons b bots)
  note one = AssignBotToWorker_restored [OF Cons.prems, of "bot_SessionID b" "bot_Token b"]
  from restored_trans [OF one Cons.IH] one show ?case by (simp add: restored_def)
qed

lemma restore_accounts_restored:
  "answering E wid c m \<Longrightarrow> restored E wid c (acc_SessionID ` set accounts) m (restore_accounts E wid accounts m)"
proof (induction accounts arbitrary: m)
  case Nil
  then show ?case by (simp add: restored_def)
next
  case (Cons a accounts)
  note one = AssignAccountToWorker_restored [OF Cons.prems, of "acc_SessionID a" "acc_Phone a"]
  from restored_trans [OF one Cons.IH] one show ?case by (simp add: restored_def)
qed

lemma ready_restores:
  assumes "bk_mgr s = Some m" and "answering (sv_env V) wid c m"
    and "fst (bs_ListByWorkerID (sv_bots V) (sv_enc V) wid (bk_bots s)) = Inr bots"
    and "fst (as_ListByWorkerID (sv_accounts V) wid (bk_accounts s)) = Inr accounts"
  shows "\<exists>m'. bk_mgr (onWorkerReady V wid s) = Some m' \<and>
    restored (sv_env V) wid c (bot_SessionID ` set bots \<union> acc_SessionID ` set accounts) m m'"
proof -
  let ?m1 = "restore_bots (sv_env V) wid bots m"
  let ?m2 = "restore_accounts (sv_env V) wid accounts ?m1"
  have r1: "restored (sv_env V) wid c (bot_SessionID ` set bots) m ?m1" using restore_bots_restored [OF assms(2)] .
  then have "answering (sv_env V) wid c ?m1" by (simp add: restored_def)
  from restored_trans [OF r1 restore_accounts_restored [OF this]]
  have r: "restored (sv_env V) wid c (bot_SessionID ` set bots \<union> acc_SessionID ` set accounts) m ?m2" .
  obtain br where b: "bs_ListByWorkerID (sv_bots V) (sv_enc V) wid (bk_bots s) = (Inr bots, br)"
    using assms(3) by (metis prod.collapse)
  obtain ar where a: "as_ListByWorkerID (sv_accounts V) wid (bk_accounts s) = (Inr accounts, ar)"
    using assms(4) by (metis prod.collapse)
  have "bk_mgr (onWorkerReady V wid s) = Some ?m2"
    using assms(1) a b by (simp add: onWorkerReady_def on_bots_def on_accounts_def Let_def)
  then show ?thesis using r by blast
qed

text \<open>Over the tables of the database the two lists are the rows with the worker's name.\<close>

lemma tb_select_rows: "tb_faults t = [] \<Longrightarrow> \<exists>xs. fst (tb_select P t) = Inr xs \<and> set xs = {x \<in> snd ` set (tb_rows t). P x}"
  by (auto simp: tb_select_def tb_stmt_def)

lemma accounts_of_worker:
  assumes "tb_faults t = []"
  shows "\<exists>xs. fst (as_ListByWorkerID (account_postgres check show_int now) wid t) = Inr xs \<and>
    acc_SessionID ` set xs = {acc_SessionID a | i a. (i, a) \<in> set (tb_rows t) \<and> acc_WorkerID a = Some wid}"
  using tb_select_rows [OF assms, of "\<lambda>a. acc_WorkerID a = Some wid"]
  by (cases "tb_select (\<lambda>a. acc_WorkerID a = Some wid) t")
    (force simp: as_ListByWorkerID_def account_postgres_def ap_ListByWorkerID_def wrap_result_def)

lemma decrypt_all_sessions:
  "(\<And>x. x \<in> set bs \<Longrightarrow> \<exists>plain. Decrypt enc (bot_Token x) = Inr plain) \<Longrightarrow>
   \<exists>xs. decrypt_all enc bs = Inr xs \<and> map bot_SessionID xs = map bot_SessionID bs"
proof (induction bs)
  case (Cons b bs)
  obtain plain where "Decrypt enc (bot_Token b) = Inr plain" using Cons.prems [of b] by auto
  moreover obtain xs where "decrypt_all enc bs = Inr xs" "map bot_SessionID xs = map bot_SessionID bs"
    using Cons.IH Cons.prems by auto
  ultimately show ?case by (simp add: decryptToken_def)
qed simp

lemma bots_of_worker:
  assumes "tb_faults t = []"
    and "\<And>i x. (i, x) \<in> set (tb_rows t) \<Longrightarrow> bot_WorkerID x = Some wid \<Longrightarrow> \<exists>plain. Decrypt enc (bot_Token x) = Inr plain"
  shows "\<exists>xs. fst (bs_ListByWorkerID (bot_postgres check show_int now) enc wid t) = Inr xs \<and>
    bot_SessionID ` set xs = {bot_SessionID x | i x. (i, x) \<in> set (tb_rows t) \<and> bot_WorkerID x = Some wid}"
proof -
  obtain bs t' where sel: "tb_select (\<lambda>x. bot_WorkerID x = Some wid) t = (Inr bs, t')"
    and bs: "set bs = {x \<in> snd ` set (tb_rows t). bot_WorkerID x = Some wid}"
    using tb_select_rows [OF assms(1), of "\<lambda>x. bot_WorkerID x = Some wid"] by (metis prod.collapse)
  have "\<exists>plain. Decrypt enc (bot_Token x) = Inr plain" if "x \<in> set bs" for x
    using that assms(2) unfolding bs by auto
  from decrypt_all_sessions [OF this] obtain xs where xs: "decrypt_all enc bs = Inr xs" "map bot_SessionID xs = map bot_SessionID bs"
    by blast
  then have "bot_SessionID ` set xs = bot_SessionID ` set bs" by (metis list.set_map)
  also have "\<dots> = {bot_SessionID x | i x. (i, x) \<in> set (tb_rows t) \<and> bot_WorkerID x = Some wid}" unfolding bs by force
  finally have "bot_SessionID ` set xs = {bot_SessionID x | i x. (i, x) \<in> set (tb_rows t) \<and> bot_WorkerID x = Some wid}" .
  moreover have "fst (bs_ListByWorkerID (bot_postgres check show_int now) enc wid t) = Inr xs"
    using sel xs(1) by (simp add: bs_ListByWorkerID_def bot_postgres_def bp_ListByWorkerID_def wrap_result_def)
  ultimately show ?thesis by blast
qed

text \<open>A worker that was added over a transport that loses nothing answers, and its call-back is due.\<close>

lemma added_answers:
  assumes "AddWorker E \<lparr>cfg_ID = wid, cfg_Addr = addr\<rparr> m = (None, m1)" and "net_wire (mgr_net m) = []"
    and "\<And>sid phone token. \<exists>x. env_factory E addr sid phone token = Inr x"
  shows "\<exists>c. wc_addr c = addr \<and> answering E wid c m1 \<and> (\<forall>sid. runs_at m addr sid \<longrightarrow> runs_at m1 addr sid) \<and>
    (mgr_ready_set m \<longrightarrow> mgr_ready_calls m1 = wid # mgr_ready_calls m)"
proof -
  obtain c m0 where c: "AddWorker_connect E \<lparr>cfg_ID = wid, cfg_Addr = addr\<rparr> m = (Inr c, m0)"
    and m1: "m1 = AddWorker_publish c (AddWorker_insert c m0)"
    using assms(1) by (auto simp: AddWorker_def split: prod.splits sum.splits)
  then have conn: "wc_id c = wid" "wc_addr c = addr" "wc_conn c \<in> set (net_open (mgr_net m0))" "net_wire (mgr_net m0) = []"
    "net_nodes (mgr_net m0) = net_nodes (mgr_net m)" "\<exists>s. net_nodes (mgr_net m) addr = Some s"
    "mgr_ready_set m0 = mgr_ready_set m" "mgr_ready_calls m0 = mgr_ready_calls m"
    using assms(2)
    by (auto simp: AddWorker_connect_def wc_New_def wc_Health_def wc_call_def srv_Health_def is_panic_def Let_def
        split: option.splits sum.splits prod.splits if_splits)
  then show ?thesis using assms(3) m1
    by (intro exI [of _ c]) (auto simp: answering_def runs_at_def AddWorker_publish_def AddWorker_insert_def Let_def)
qed

lemma AddWorker_before_ready:
  "AddWorker E cfg m = (e, m') \<Longrightarrow> \<not> mgr_ready_set m \<Longrightarrow> \<not> mgr_ready_set m' \<and> mgr_ready_calls m' = mgr_ready_calls m"
  by (auto simp: AddWorker_def AddWorker_connect_def AddWorker_publish_def AddWorker_insert_def Let_def
      split: option.splits sum.splits prod.splits if_splits)

lemma main_workers_no_calls: "mgr_ready_set (main_workers E t n) \<and> mgr_ready_calls (main_workers E t n) = []"
proof -
  have "mgr_ready_calls (snd (restore_entries E es k m)) = mgr_ready_calls m" if "\<not> mgr_ready_set m" for es k m
    using that
  proof (induction E es k m rule: restore_entries.induct)
    case (2 E wid addr es k m)
    obtain e m' where a: "AddWorker E \<lparr>cfg_ID = wid, cfg_Addr = addr\<rparr> m = (e, m')" by fastforce
    from AddWorker_before_ready [OF a 2(3)] 2(1,2) a show ?case by (cases e) simp_all
  qed simp
  then show ?thesis
    by (auto simp: main_workers_def SetOnWorkerReady_def RestoreWorkers_def NewManager_def Let_def split: prod.splits sum.splits option.splits)
qed

text \<open>The sessions that the database has for a worker: the rows of both tables with its name.\<close>

definition stored_sessions :: "string \<Rightarrow> (Account table, Bot table, 'c) backend \<Rightarrow> string set" where
  "stored_sessions wid b =
     {acc_SessionID a | i a. (i, a) \<in> set (tb_rows (bk_accounts b)) \<and> acc_WorkerID a = Some wid} \<union>
     {bot_SessionID x | i x. (i, x) \<in> set (tb_rows (bk_bots b)) \<and> bot_WorkerID x = Some wid}"

text \<open>
  C14: Sessions come back when their worker is added again. When \<open>AddWorker\<close> succeeds after the main
  node has installed its call-back, the call-back is started for the worker; and when it then runs
  and neither a statement nor a message is lost, no token of the worker's bots is undecipherable and the worker's
  factory succeeds, every session whose row of the account or bot table has that worker is on the
  worker afterwards, and none it had is gone. It is only then: for the workers that the start of the main node itself
  restores the call-back is never started, so their sessions stay away until the worker is removed
  and added again.
\<close>

theorem sessions_restored:
  assumes "bk_mgr b = Some m" and "mgr_ready_set m"
    and "AddWorker (xt_env X) \<lparr>cfg_ID = wid, cfg_Addr = addr\<rparr> m = (None, m1)"
    and "net_wire (mgr_net m) = []" and "tb_faults (bk_accounts b) = []" and "tb_faults (bk_bots b) = []"
    and "\<forall>sid phone token. \<exists>x. env_factory (xt_env X) addr sid phone token = Inr x"
    and "\<forall>(i, x) \<in> set (tb_rows (bk_bots b)). bot_WorkerID x = Some wid \<longrightarrow> (\<exists>plain. Decrypt (Some enc) (bot_Token x) = Inr plain)"
  shows "mgr_ready_calls m1 = wid # mgr_ready_calls m \<and>
    (\<exists>m2. bk_mgr (onWorkerReady (dp_services (main_deps X cfg enc now)) wid (b\<lparr>bk_mgr := Some m1\<rparr>)) = Some m2 \<and>
      (\<forall>sid \<in> stored_sessions wid b. runs_at m2 addr sid) \<and> (\<forall>sid. runs_at m addr sid \<longrightarrow> runs_at m2 addr sid)) \<and>
    mgr_ready_calls (main_workers (xt_env X) workers n) = []"
proof -
  let ?V = "dp_services (main_deps X cfg enc now)" and ?b = "b\<lparr>bk_mgr := Some m1\<rparr>"
  have V: "sv_env ?V = xt_env X" "sv_enc ?V = Some enc" "sv_accounts ?V = account_postgres (xt_acc X) FormatInt now"
    "sv_bots ?V = bot_postgres (xt_bot X) FormatInt now" by (simp_all add: main_deps_def)
  obtain c where c: "wc_addr c = addr" "answering (xt_env X) wid c m1" "\<And>sid. runs_at m addr sid \<Longrightarrow> runs_at m1 addr sid"
    "mgr_ready_calls m1 = wid # mgr_ready_calls m"
    using added_answers [OF assms(3,4) assms(7) [rule_format]] assms(2) by blast
  obtain as where as: "fst (as_ListByWorkerID (account_postgres (xt_acc X) FormatInt now) wid (bk_accounts b)) = Inr as"
    "acc_SessionID ` set as = {acc_SessionID a | i a. (i, a) \<in> set (tb_rows (bk_accounts b)) \<and> acc_WorkerID a = Some wid}"
    using accounts_of_worker [OF assms(5)] by blast
  obtain bs where bs: "fst (bs_ListByWorkerID (bot_postgres (xt_bot X) FormatInt now) (Some enc) wid (bk_bots b)) = Inr bs"
    "bot_SessionID ` set bs = {bot_SessionID x | i x. (i, x) \<in> set (tb_rows (bk_bots b)) \<and> bot_WorkerID x = Some wid}"
    using bots_of_worker [where wid = wid and enc = "Some enc", OF assms(6)] assms(8) by fast
  obtain m2 where "bk_mgr (onWorkerReady ?V wid ?b) = Some m2"
    "restored (xt_env X) wid c (bot_SessionID ` set bs \<union> acc_SessionID ` set as) m1 m2"
    using ready_restores [of ?b m1 ?V wid c bs as] as(1) bs(1) c(2) V by auto
  moreover have "bot_SessionID ` set bs \<union> acc_SessionID ` set as = stored_sessions wid b"
    using as(2) bs(2) by (auto simp: stored_sessions_def)
  ultimately show ?thesis using c main_workers_no_calls [of "xt_env X" workers n] by (auto simp: restored_def)
qed

text \<open>A node with one worker, which is registered in the database.\<close>

definition ex_ext :: "(mockClient, mockClient, bucket) externals" where
  "ex_ext = \<lparr>xt_acc = (\<lambda>_. None), xt_bot = (\<lambda>_. None), xt_key = (\<lambda>_. None), xt_hook = (\<lambda>_. None), xt_env = mock_env,
     xt_ifc = mock_iface, xt_newLimiter = (\<lambda>rps burst. bucket_new (of_int burst)),
     xt_allow = bucket_allow 100 200, xt_valid_url = (\<lambda>_. True)\<rparr>"

definition ex_cfg :: Config where
  "ex_cfg = (case Load (Inr (\<lambda>_. None)) None of Inr c \<Rightarrow> c)"

definition ex_tokens :: TokenEncryptor where
  "ex_tokens = \<lparr>te_key = [], te_enabled = False\<rparr>"

definition ex_table :: worker_table where
  "ex_table = \<lparr>wt_rows = [(''w1'', ''h1'')], wt_faults = []\<rparr>"

definition ex_net :: "mockClient net" where
  "ex_net = \<lparr>net_nodes = [''h1'' \<mapsto> mock_node ''w1''], net_wire = [], net_open = [], net_next = 0\<rparr>"

lemma ex_main_workers:
  "main_workers mock_env ex_table ex_net =
     \<lparr>mgr_workers = [(''w1'', \<lparr>wc_id = ''w1'', wc_addr = ''h1'', wc_conn = 0\<rparr>)], mgr_ready_set = True,
      mgr_store = Some ex_table, mgr_loops = [\<lparr>wc_id = ''w1'', wc_addr = ''h1'', wc_conn = 0\<rparr>], mgr_ready_calls = [],
      mgr_net = ex_net\<lparr>net_open := [0], net_next := 1\<rparr>\<rparr>"
  by (simp add: main_workers_def ex_table_def ex_net_def RestoreWorkers_def NewManager_def wr_List_def wt_exec_def AddWorker_def
      AddWorker_connect_def AddWorker_insert_def AddWorker_publish_def wc_New_def wc_Health_def wc_call_def mock_env_def
      srv_Health_def mock_node_def wr_Upsert_def SetOnWorkerReady_def Let_def)

text \<open>An account of the worker \<open>w2\<close>, which is added after the start.\<close>

definition ex_account_row :: Account where
  "ex_account_row = (new_account ''u1'' ''+1'')\<lparr>acc_ID := 1, acc_WorkerID := Some ''w2''\<rparr>"

theorem sessions_restored_witness:
  "\<exists>m1 m2. AddWorker mock_env \<lparr>cfg_ID = ''w2'', cfg_Addr = ''h1''\<rparr> (main_workers mock_env \<lparr>wt_rows = [], wt_faults = []\<rparr> ex_net) = (None, m1) \<and>
     bk_mgr (onWorkerReady (dp_services (main_deps ex_ext ex_cfg ex_tokens 5)) ''w2''
       \<lparr>bk_accounts = \<lparr>tb_rows = [(1, ex_account_row)], tb_seq = 1, tb_faults = []\<rparr>, bk_bots = tb_empty, bk_mgr = Some m1\<rparr>) = Some m2 \<and>
     runs_at m2 ''h1'' ''u1''"
proof -
  let ?m = "main_workers mock_env \<lparr>wt_rows = [], wt_faults = []\<rparr> ex_net"
  let ?b = "\<lparr>bk_accounts = \<lparr>tb_rows = [(1, ex_account_row)], tb_seq = 1, tb_faults = []\<rparr>, bk_bots = tb_empty, bk_mgr = Some ?m\<rparr>"
  have env: "xt_env ex_ext = mock_env" by (simp add: ex_ext_def)
  have m: "?m = \<lparr>mgr_workers = [], mgr_ready_set = True, mgr_store = Some \<lparr>wt_rows = [], wt_faults = []\<rparr>, mgr_loops = [],
      mgr_ready_calls = [], mgr_net = ex_net\<rparr>"
    by (simp add: main_workers_def RestoreWorkers_def NewManager_def wr_List_def wt_exec_def SetOnWorkerReady_def Let_def)
  obtain m1 where add: "AddWorker mock_env \<lparr>cfg_ID = ''w2'', cfg_Addr = ''h1''\<rparr> ?m = (None, m1)"
    unfolding m by (simp add: AddWorker_def AddWorker_connect_def wc_New_def wc_Health_def wc_call_def mock_env_def
        srv_Health_def mock_node_def ex_net_def Let_def)
  have f: "\<forall>sid phone token. \<exists>x. env_factory (xt_env ex_ext) ''h1'' sid phone token = Inr x"
    unfolding env by (simp add: mock_env_def mock_factory_def)
  have start: "bk_mgr ?b = Some ?m" "mgr_ready_set ?m" "net_wire (mgr_net ?m) = []" "tb_faults (bk_accounts ?b) = []" "tb_faults (bk_bots ?b) = []"
    unfolding m by (simp_all add: ex_net_def tb_empty_def)
  have tok: "\<forall>(i, x) \<in> set (tb_rows (bk_bots ?b)). bot_WorkerID x = Some ''w2'' \<longrightarrow> (\<exists>plain. Decrypt (Some ex_tokens) (bot_Token x) = Inr plain)"
    by (simp add: tb_empty_def)
  have add': "AddWorker (xt_env ex_ext) \<lparr>cfg_ID = ''w2'', cfg_Addr = ''h1''\<rparr> ?m = (None, m1)" unfolding env by (rule add)
  obtain m2 where "bk_mgr (onWorkerReady (dp_services (main_deps ex_ext ex_cfg ex_tokens 5)) ''w2'' (?b\<lparr>bk_mgr := Some m1\<rparr>)) = Some m2"
      "\<forall>sid \<in> stored_sessions ''w2'' ?b. runs_at m2 ''h1'' sid"
    using sessions_restored [OF start(1,2) add' start(3-5) f tok, THEN conjunct2, THEN conjunct1] by blast
  moreover have "''u1'' \<in> stored_sessions ''w2'' ?b"
    by (simp add: stored_sessions_def ex_account_row_def new_account_def)
  ultimately show ?thesis using add by (intro exI [of _ m1] exI [of _ m2]) simp
qed

text \<open>When the parts of the start succeed.\<close>

definition boots :: "'v boot \<Rightarrow> Config \<Rightarrow> bool" where
  "boots B cfg \<longleftrightarrow> Load (bt_source B) (bt_decode B) = Inr cfg \<and>
     bt_log B \<lparr>lc_production = cfg_LogJSON cfg, lc_color = \<not> cfg_LogJSON cfg,
       lc_Level = (case bt_level B (cfg_LogLevel cfg) of Inl _ \<Rightarrow> bt_info B | Inr l \<Rightarrow> l)\<rparr> = None"

lemma boot_config_outcomes:
  "case boot_config B of Inl e \<Rightarrow> (\<nexists>cfg. boots B cfg) \<and> exit_code e \<noteq> 0 | Inr cfg \<Rightarrow> boots B cfg"
  by (simp add: boot_config_def boots_def logger_Must_def logger_New_def Let_def split: sum.split option.split)

definition database_ready :: "'v boot \<Rightarrow> Config \<Rightarrow> bool" where
  "database_ready B cfg \<longleftrightarrow> bt_open B (cfg_DSN cfg) = None \<and> bt_ping B = None \<and> bt_driver B = None \<and> bt_init B = None \<and>
     (bt_up B = None \<or> bt_up B = Some ErrNoChange)"

lemma Connect_Migrate_ready:
  "database_ready B cfg \<longleftrightarrow>
     (\<exists>db. Connect (bt_open B) (bt_ping B) cfg = Inr db) \<and> Migrate (bt_driver B) (bt_init B) (bt_up B) = None"
  by (auto simp: database_ready_def Connect_def Migrate_def Let_def split: option.splits)

definition token_key_ok :: "string \<Rightarrow> bool" where
  "token_key_ok k \<longleftrightarrow> k = [] \<or> length k = 64 \<and> list_all (\<lambda>c. hex_val c \<noteq> None) k"

lemma token_key_cases:
  "case NewTokenEncryptor k of Inl _ \<Rightarrow> \<not> token_key_ok k | Inr e \<Rightarrow> token_key_ok k \<and> te_enabled e = (k \<noteq> [])"
  using hex_decode_cases [of k] by (auto simp: NewTokenEncryptor_def token_key_ok_def list_all_iff split: sum.splits)

text \<open>
  C30: Starting the main node. It starts exactly when the configuration can be read and converted,
  the logger can be built, with the level \<open>info\<close> in place of an unknown one, the database answers and
  has nothing left to migrate, and the token key is empty or 64 hexadecimal digits; otherwise the
  process ends with a non-zero code. It starts with the sessions, limiters and counters empty, the
  workers of the table registered without a call for ready workers, and tokens encrypted exactly if
  a key is configured.
\<close>

theorem main_start_outcomes:
  "case main_start X B now accounts bots keys hooks workers n of
     Inl e \<Rightarrow> (\<nexists>cfg. boots B cfg \<and> database_ready B cfg \<and> token_key_ok (cfg_TokenEncryptKey cfg)) \<and> exit_code e \<noteq> 0
   | Inr (D, s) \<Rightarrow> (\<exists>cfg. boots B cfg \<and> database_ready B cfg \<and> token_key_ok (cfg_TokenEncryptKey cfg) \<and>
       IsEnabled (sv_enc (dp_services D)) = (cfg_TokenEncryptKey cfg \<noteq> []) \<and>
       sessions (nd_pool s) = [] \<and> nd_limiters s = [] \<and> nd_requests s = [] \<and>
       bk_mgr (nd_backend s) = Some (SetOnWorkerReady (snd (RestoreWorkers (xt_env X) (NewManager (Some workers) n)))))"
proof (cases "boot_config B")
  case (Inl e)
  then show ?thesis using boot_config_outcomes [of B] by (simp add: main_start_def)
next
  case (Inr cfg)
  then have cfg: "boots B cfg" "\<And>c. boots B c \<longleftrightarrow> c = cfg" using boot_config_outcomes [of B] by (auto simp: boots_def)
  show ?thesis
  proof (cases "database_ready B cfg")
    case True
    then obtain db where db: "Connect (bt_open B) (bt_ping B) cfg = Inr db" "Migrate (bt_driver B) (bt_init B) (bt_up B) = None"
      by (auto simp: Connect_Migrate_ready)
    show ?thesis using token_key_cases [of "cfg_TokenEncryptKey cfg"] True db cfg Inr
      by (cases "NewTokenEncryptor (cfg_TokenEncryptKey cfg)")
        (simp_all add: main_start_def main_setup_def main_deps_def main_node_def main_pool_def NewPool_def main_workers_def IsEnabled_def)
  next
    case False
    then show ?thesis using Inr cfg by (auto simp: main_start_def Connect_Migrate_ready split: sum.splits option.splits)
  qed
qed

end
