(* ===== verification/Node_Invariants.thy ===== *)
theory Node_Invariants
  imports Main_Node
begin

text \<open>
  What stays true of the main node while it serves requests: a contract for invariants that the
  middlewares and every endpoint keep, and two invariants of the node that \<open>cmd/main/main.go\<close>
  wires: its tables and its workers stay well-formed, and its own session pool stays empty.
\<close>

section \<open>Invariants that requests keep\<close>

definition preserves :: "('s \<Rightarrow> bool) \<Rightarrow> ('s \<Rightarrow> 'x \<times> 's) \<Rightarrow> bool" where
  "preserves holds f \<longleftrightarrow> (\<forall>s. holds s \<longrightarrow> holds (snd (f s)))"

lemma preservesI: "(\<And>s. holds s \<Longrightarrow> holds (snd (f s))) \<Longrightarrow> preserves holds f"
  by (simp add: preserves_def)

lemma preservesS: "preserves holds f \<Longrightarrow> holds s \<Longrightarrow> holds (snd (f s))"
  by (simp add: preserves_def)

lemma preservesD: "preserves holds f \<Longrightarrow> f s = (x, s') \<Longrightarrow> holds s \<Longrightarrow> holds s'"
  unfolding preserves_def by (metis snd_conv)

text \<open>
  \<open>wired\<close> are the wirings of the node over time, which differ in the clock. An invariant may not
  depend on the limiters or the request counters, and the check of a key and every endpoint keep it.
\<close>

locale served_invariant =
  fixes wired :: "('a, 'b, 'c, 'k, 'h, 'p, 'l) deps \<Rightarrow> bool" and holds :: "('a, 'b, 'c, 'k, 'h, 'p, 'l) node \<Rightarrow> bool"
  assumes inv_limiters: "holds s \<Longrightarrow> holds (s\<lparr>nd_limiters := ls\<rparr>)"
    and inv_requests: "holds s \<Longrightarrow> holds (s\<lparr>nd_requests := rs\<rparr>)"
    and inv_validate: "wired D \<Longrightarrow> dp_auth D = Some (R, master) \<Longrightarrow> holds s \<Longrightarrow>
      holds (s\<lparr>nd_keys := snd (ks_Validate R master key (nd_keys s))\<rparr>)"
    and inv_endpoint: "wired D \<Longrightarrow> preserves holds (run_endpoint D ch req e param)"
begin

lemma keeps_mw:
  assumes "wired D" and h: "preserves holds h"
  shows "preserves holds (apply_mw D ch req path m h)"
proof (rule preservesI)
  fix s
  assume s: "holds s"
  show "holds (snd (apply_mw D ch req path m h s))"
  proof (cases m)
    case Recovery
    then show ?thesis using preservesD [OF h _ s]
      by (auto simp: apply_mw_def mw_Recovery_def split: prod.splits outcome.splits)
  next
    case Logger
    then show ?thesis using preservesS [OF h s] by (simp add: apply_mw_def mw_Logger_def)
  next
    case Metrics
    then show ?thesis using preservesD [OF h _ s] inv_requests
      by (auto simp: apply_mw_def mw_Metrics_def Let_def split: prod.splits outcome.splits)
  next
    case KeyRateLimiter
    obtain b ls where "limiter_Allow (dp_newLimiter D) (dp_allow D) (ch_now ch) (rate_key req) (nd_limiters s) = (b, ls)" by fastforce
    then show ?thesis using KeyRateLimiter inv_limiters [OF s, of ls] preservesS [OF h inv_limiters [OF s, of ls]]
      by (simp add: apply_mw_def mw_RateLimiter_def Let_def)
  next
    case AuthKey
    show ?thesis
    proof (cases "dp_auth D")
      case None
      then show ?thesis using AuthKey preservesS [OF h s] by (simp add: apply_mw_def)
    next
      case (Some a)
      then obtain R master where a: "dp_auth D = Some (R, master)" by (cases a) auto
      obtain b ks where v: "ks_Validate R master (hr_ApiKey req) (nd_keys s) = (b, ks)" by fastforce
      have "holds (s\<lparr>nd_keys := ks\<rparr>)" using inv_validate [OF assms(1) a s, of "hr_ApiKey req"] v by simp
      moreover from preservesS [OF h this] have "holds (snd (h (s\<lparr>nd_keys := ks\<rparr>)))" .
      ultimately show ?thesis using AuthKey a v s by (simp add: apply_mw_def mw_Auth_def Let_def)
    qed
  qed
qed

lemma keeps_chain: "wired D \<Longrightarrow> preserves holds h \<Longrightarrow> preserves holds (foldr (apply_mw D ch req path) ms h)"
  by (induction ms) (auto intro: keeps_mw)

lemma serve_keeps:
  assumes "wired D" and "holds s"
  shows "holds (snd (serve lookup ro D ch req s))"
proof -
  have n: "preserves holds (\<lambda>s. (r, s))" for r :: outcome by (simp add: preserves_def)
  have "preserves holds (serve lookup ro D ch req)"
    using keeps_chain [OF assms(1) n] keeps_chain [OF assms(1) inv_endpoint [OF assms(1)]] n
    by (auto simp: serve_def split: routed.split)
  then show ?thesis using assms(2) by (simp add: preserves_def)
qed

end


section \<open>Data stays well-formed\<close>

text \<open>
  The constraints of the four tables hold, the registry of workers satisfies its invariant with no
  registration under way, and so do the pools of all workers.
\<close>

abbreviation workers_ok :: "'c manager \<Rightarrow> bool" where
  "workers_ok m \<equiv> mgr_inv (m, [], [])"

definition backend_ok :: "(Account table, Bot table, 'c) backend \<Rightarrow> bool" where
  "backend_ok b \<longleftrightarrow> ap_ok (bk_accounts b) \<and> bp_ok (bk_bots b) \<and> (\<forall>m. bk_mgr b = Some m \<longrightarrow> workers_ok m)"

definition node_ok :: "(Account table, Bot table, 'c, APIKey table, Webhook table, 'p, 'l) node \<Rightarrow> bool" where
  "node_ok s \<longleftrightarrow> backend_ok (nd_backend s) \<and> kp_ok (nd_keys s) \<and> hp_ok (nd_hooks s)"

lemma preserves_lifts:
  "preserves ap_ok f \<Longrightarrow> preserves backend_ok (on_accounts f)"
  "preserves bp_ok g \<Longrightarrow> preserves backend_ok (on_bots g)"
  "preserves workers_ok k \<Longrightarrow> preserves backend_ok (on_mgr d k)"
  "preserves backend_ok e \<Longrightarrow> preserves node_ok (on_backend e)"
  "preserves workers_ok k \<Longrightarrow> preserves node_ok (call_mgr k)"
  by (auto simp: preserves_def backend_ok_def node_ok_def on_accounts_def on_bots_def on_mgr_def on_backend_def call_mgr_def
      split_beta Let_def split: option.split)

subsection \<open>Tables\<close>

lemma accounts_preserved:
  "preserves ap_ok (as_Get (account_postgres check show_int now) i)"
  "preserves ap_ok (as_GetBySessionID (account_postgres check show_int now) sid)"
  "preserves ap_ok (as_List (account_postgres check show_int now) f)"
  "preserves ap_ok (as_ListByWorkerID (account_postgres check show_int now) wid)"
  "preserves ap_ok (as_UpdateStatus (account_postgres check show_int now) i st)"
  "preserves ap_ok (as_UpdateWorkerID (account_postgres check show_int now) sid wid)"
  "preserves ap_ok (as_Remove (account_postgres check show_int now) i)"
  by (rule preservesI, erule ap_ok_step [of check show_int, rotated], rule acc_step.intros, simp)+

lemma as_Add_preserved: "preserves ap_ok (as_Add (account_postgres check show_int now) uuid phone)"
proof (rule preservesI)
  fix t
  assume ok: "ap_ok t"
  have "ap_ok (snd (ap_Create check now (new_account uuid phone) t))"
    using acc_pg.create_error [OF ok] ap_Create_row [OF ok blank_new_account(1)]
    by (cases "fst (ap_Create check now (new_account uuid phone) t)") (metis prod.collapse)+
  then show "ap_ok (snd (as_Add (account_postgres check show_int now) uuid phone t))"
    by (simp add: as_Add_snd account_postgres_def)
qed

lemma bots_preserved:
  "preserves bp_ok (bs_Add (bot_postgres check show_int now) enc rnd uuid token)"
  "preserves bp_ok (bs_Get (bot_postgres check show_int now) enc i)"
  "preserves bp_ok (bs_GetBySessionID (bot_postgres check show_int now) enc sid)"
  "preserves bp_ok (bs_List (bot_postgres check show_int now) enc f)"
  "preserves bp_ok (bs_ListByWorkerID (bot_postgres check show_int now) enc wid)"
  "preserves bp_ok (bs_UpdateStatus (bot_postgres check show_int now) i st)"
  "preserves bp_ok (bs_UpdateWorkerID (bot_postgres check show_int now) sid wid)"
  "preserves bp_ok (bs_Remove (bot_postgres check show_int now) i)"
  by (rule preservesI, erule bp_ok_step [of check show_int enc, rotated], rule bot_step.intros)+

subsection \<open>Workers\<close>

text \<open>Operations of the manager that only call workers: they open and close no connection.\<close>

definition calls_only :: "('c manager \<Rightarrow> 'x \<times> 'c manager) \<Rightarrow> bool" where
  "calls_only f \<longleftrightarrow> (\<forall>m. net_ok (mgr_net m) \<longrightarrow>
     (\<exists>n. snd (f m) = m\<lparr>mgr_net := n\<rparr> \<and> net_ok n \<and> net_open n = net_open (mgr_net m)))"

lemma calls_onlyD:
  assumes "calls_only f" "f m = (x, m')" "net_ok (mgr_net m)"
  shows "\<exists>n. m' = m\<lparr>mgr_net := n\<rparr> \<and> net_ok n \<and> net_open n = net_open (mgr_net m)"
  using assms unfolding calls_only_def by (metis snd_conv)

lemma calls_only_preserved:
  fixes f :: "'c manager \<Rightarrow> 'x \<times> 'c manager"
  assumes "calls_only f"
  shows "preserves workers_ok f"
proof (rule preservesI)
  fix m :: "'c manager"
  assume ok: "workers_ok m"
  obtain n where "snd (f m) = m\<lparr>mgr_net := n\<rparr>" "net_ok n" "net_open n = net_open (mgr_net m)"
    using assms mgr_inv_parts(2) [OF ok] unfolding calls_only_def by blast
  then show "workers_ok (snd (f m))" by (intro mgr_inv_frame [OF ok]) simp_all
qed

lemmas net_calls = net_step.intros(1-8) [THEN net_step_frame]

lemma with_worker_calls:
  fixes f :: "wclient \<Rightarrow> 'c net \<Rightarrow> (error + 'd) \<times> 'c net"
  shows
  "(\<And>c n. net_ok n \<Longrightarrow> net_ok (snd (f c n)) \<and> net_open (snd (f c n)) = net_open n) \<Longrightarrow> calls_only (with_worker wid f)"
  unfolding calls_only_def
proof (intro allI impI)
  fix m :: "'c manager"
  assume f: "\<And>c n. net_ok n \<Longrightarrow> net_ok (snd (f c n)) \<and> net_open (snd (f c n)) = net_open n" and ok: "net_ok (mgr_net m)"
  show "\<exists>n. snd (with_worker wid f m) = m\<lparr>mgr_net := n\<rparr> \<and> net_ok n \<and> net_open n = net_open (mgr_net m)"
  proof (cases "go_get (mgr_workers m) wid")
    case None
    then show ?thesis using ok by (intro exI [of _ "mgr_net m"]) (simp add: with_worker_def)
  next
    case (Some c)
    then show ?thesis using f [OF ok, of c]
      by (intro exI [of _ "snd (f c (mgr_net m))"]) (simp add: with_worker_def split_beta)
  qed
qed

lemma leastLoaded_calls: "calls_only (leastLoaded ks)"
  unfolding calls_only_def
proof (intro allI impI)
  fix m :: "'c manager"
  assume ok: "net_ok (mgr_net m)"
  obtain r m' where l: "leastLoaded ks m = (r, m')" by fastforce
  then show "\<exists>n. snd (leastLoaded ks m) = m\<lparr>mgr_net := n\<rparr> \<and> net_ok n \<and> net_open n = net_open (mgr_net m)"
  proof (cases rule: leastLoaded_cases)
    case none
    then show ?thesis using ok l by (intro exI [of _ "mgr_net m"]) simp
  next
    case (chosen wid c n)
    then show ?thesis using ok l same_net_ok [OF chosen(4)] by (intro exI [of _ n]) (simp add: same_net_def)
  qed
qed

lemma then_calls:
  fixes f :: "'c manager \<Rightarrow> (error + 'd) \<times> 'c manager"
  assumes "calls_only f" and "\<And>c n. net_ok n \<Longrightarrow> net_ok (snd (g c n)) \<and> net_open (snd (g c n)) = net_open n"
    and "\<And>m. snd (k m) = (case f m of (Inl e, m1) \<Rightarrow> m1 | (Inr c, m1) \<Rightarrow> m1\<lparr>mgr_net := snd (g c (mgr_net m1))\<rparr>)"
  shows "calls_only k"
  unfolding calls_only_def
proof (intro allI impI)
  fix m :: "'c manager"
  assume ok: "net_ok (mgr_net m)"
  obtain r m1 where f: "f m = (r, m1)" by fastforce
  obtain n where n: "m1 = m\<lparr>mgr_net := n\<rparr>" "net_ok n" "net_open n = net_open (mgr_net m)"
    using calls_onlyD [OF assms(1) f ok] by blast
  show "\<exists>n. snd (k m) = m\<lparr>mgr_net := n\<rparr> \<and> net_ok n \<and> net_open n = net_open (mgr_net m)"
  proof (cases r)
    case (Inl e)
    then show ?thesis using n f assms(3) [of m] by auto
  next
    case (Inr c)
    then show ?thesis using n f assms(3) [of m] assms(2) [OF n(2), of c] by (intro exI [of _ "snd (g c n)"]) simp
  qed
qed

lemma assigns_preserved:
  "preserves workers_ok (AssignAccount E ks sid phone)" "preserves workers_ok (AssignBot E ks sid token)"
proof -
  show "preserves workers_ok (AssignAccount E ks sid phone)"
    by (rule calls_only_preserved, rule then_calls [OF leastLoaded_calls [of ks], where g = "\<lambda>c. wc_AddAccount E c sid phone"])
      (auto simp: net_calls AssignAccount_def split_beta Let_def split: sum.split prod.split)
  show "preserves workers_ok (AssignBot E ks sid token)"
    by (rule calls_only_preserved, rule then_calls [OF leastLoaded_calls [of ks], where g = "\<lambda>c. wc_AddBot E c sid token"])
      (auto simp: net_calls AssignBot_def split_beta Let_def split: sum.split prod.split)
qed

lemma routed_preserved:
  "preserves workers_ok (AssignBotToWorker E wid sid token)" "preserves workers_ok (AssignAccountToWorker E wid sid phone)"
  "preserves workers_ok (mgr_RemoveSession E wid sid)" "preserves workers_ok (mgr_SendAuthCode E wid sid code)"
  "preserves workers_ok (mgr_SendPassword E wid sid password)" "preserves workers_ok (mgr_GetAuthState E wid sid)"
  unfolding AssignBotToWorker_def AssignAccountToWorker_def mgr_RemoveSession_def mgr_SendAuthCode_def mgr_SendPassword_def
    mgr_GetAuthState_def
  by (rule calls_only_preserved, rule with_worker_calls,
      simp add: as_sum_def split_beta Let_def net_calls split: sum.split option.split)+

lemma collect_from_calls: "net_ok n \<Longrightarrow> net_ok (snd (collect_from E cs n)) \<and> net_open (snd (collect_from E cs n)) = net_open n"
  by (induction cs arbitrary: n) (simp_all add: split_beta Let_def net_calls)

lemma AddWorker_preserved: "preserves workers_ok (AddWorker E cfg)"
proof (rule preservesI)
  fix m :: "'a manager"
  assume ok: "workers_ok m"
  obtain r m' where c: "AddWorker_connect E cfg m = (r, m')" by fastforce
  note inv = mgr_inv_connect [OF ok c]
  show "workers_ok (snd (AddWorker E cfg m))"
  proof (cases r)
    case (Inl e)
    then show ?thesis using inv c by (simp add: AddWorker_def)
  next
    case (Inr w)
    then have "mgr_inv (AddWorker_insert w m', [], [w])" using mgr_inv_insert [of m' "[w]" "[]" w] inv by simp
    from mgr_inv_publish [OF this, of w] show ?thesis using c Inr by (simp add: AddWorker_def)
  qed
qed

lemma registry_preserved:
  "preserves workers_ok (AddWorker E cfg)" "preserves workers_ok (RemoveWorker wid)"
  "preserves workers_ok (CollectMetrics E ks)" "preserves workers_ok (\<lambda>m. (Workers ks m, m))"
proof -
  show "preserves workers_ok (CollectMetrics E ks)"
    using collect_from_calls by (intro calls_only_preserved) (fastforce simp: calls_only_def CollectMetrics_def split_beta Let_def)
qed (rule AddWorker_preserved, simp_all add: preserves_def mgr_inv_remove)

lemma drain_loop_calls:
  "drain_loop E sched wid target infos (res, m) = (res', m') \<Longrightarrow> net_ok (mgr_net m) \<Longrightarrow>
   \<exists>n. m' = m\<lparr>mgr_net := n\<rparr> \<and> net_ok n \<and> net_open n = net_open (mgr_net m)"
proof (induction infos arbitrary: res m)
  case (Cons sess infos)
  obtain res1 m1 where one: "drain_one E (sched (length infos)) wid target sess (res, m) = (res1, m1)" by fastforce
  have ok1: "net_ok (mgr_net m1)" using drain_one_hosted [OF one Cons.prems(2)] by blast
  from one obtain n1 where m1: "m1 = m\<lparr>mgr_net := n1\<rparr>" "net_open n1 = net_open (mgr_net m)"
  proof (cases rule: drain_one_cases)
    case (failed e n)
    have "net_open n = net_open (mgr_net m)"
      using failed(3) wc_call_conns(1) by (fastforce simp: same_net_def dest: arg_cong [of _ _ snd])
    with failed(2) show ?thesis by (rule that)
  next
    case (migrated dest n1 n2 n3 x err)
    have "net_open n3 = net_open n2" using wc_conns(3) [of E target "si_SessionId sess" n2] migrated(5) by simp
    moreover have "net_open n2 = net_open n1" using wc_call_conns(1) [of dest "restart_handler E dest sess" n1] migrated(4) by simp
    ultimately show ?thesis using migrated(2,3) that by (simp add: same_net_def)
  qed
  have "drain_loop E sched wid target infos (res1, m1) = (res', m')" using Cons.prems(1) one by simp
  from Cons.IH [OF this ok1] m1 show ?case by auto
next
  case Nil
  then show ?case by (intro exI [of _ "mgr_net m"]) simp
qed

lemma DrainWorker_preserved: "preserves workers_ok (DrainWorker E sched wid)"
proof (rule preservesI)
  fix m :: "'a manager"
  assume ok: "workers_ok m"
  show "workers_ok (snd (DrainWorker E sched wid m))"
  proof (cases "go_get (mgr_workers m) wid")
    case (Some target)
    obtain r n where l: "wc_ListSessions target (mgr_net m) = (r, n)" by fastforce
    have n: "net_ok n" "net_open n = net_open (mgr_net m)"
      using net_calls(4) [of "mgr_net m" target] mgr_inv_parts(2) [OF ok] l by auto
    have ok1: "workers_ok (m\<lparr>mgr_net := n\<rparr>)" by (rule mgr_inv_frame [OF ok]) (use n in simp_all)
    show ?thesis
    proof (cases r)
      case (Inr infos)
      obtain res m2 where d: "drain_loop E sched wid target infos (\<lparr>dr_Migrated = 0, dr_Failed = 0, dr_Errors = []\<rparr>, m\<lparr>mgr_net := n\<rparr>) = (res, m2)"
        by fastforce
      then obtain n2 where n2: "m2 = m\<lparr>mgr_net := n2\<rparr>" "net_ok n2" "net_open n2 = net_open n"
        using drain_loop_calls [OF d] n by auto
      have "workers_ok m2" by (rule mgr_inv_frame [OF ok1]) (use n2 in simp_all)
      from mgr_inv_remove [OF this, of wid] show ?thesis
        using Some l Inr d by (simp add: DrainWorker_def split_beta Let_def)
    qed (use Some l ok1 in \<open>simp add: DrainWorker_def\<close>)
  qed (use ok in \<open>simp add: DrainWorker_def\<close>)
qed

subsection \<open>Bulk operations\<close>

lemma par_step_preserved:
  assumes "\<And>i pc. preserves holds (body i pc)" and "holds (par_state p)"
  shows "holds (par_state (par_step conc body i p))"
  using preservesD [OF assms(1) _ assms(2)] assms(2)
  by (auto simp: par_step_def split: goroutine.split prod.split sum.split)

lemma parallel_preserved:
  assumes "\<And>i pc. preserves holds (body i pc)" and "holds s" and "parallel conc n body sched s = Some (res, s')"
  shows "holds s'"
proof -
  have "holds (par_state (par_run conc body sched p))" if "holds (par_state p)" for p
    using that by (induction sched arbitrary: p) (simp_all add: par_run_def par_step_preserved [OF assms(1)])
  from this [of "par_start n s"] show ?thesis
    using assms(2,3) by (auto simp: parallel_def par_start_def Let_def split: if_splits)
qed


text \<open>The services of the main node keep the tables.\<close>

locale node_services =
  fixes V :: "(Account table, Bot table, 'c) services" and checkA :: "Account \<Rightarrow> error option" and checkB :: "Bot \<Rightarrow> error option"
    and now :: int
  assumes accounts_wired: "sv_accounts V = account_postgres checkA FormatInt now"
    and bots_wired: "sv_bots V = bot_postgres checkB FormatInt now"
begin

lemmas calls_preserved =
  preserves_lifts(1) [OF accounts_preserved(1) [of checkA FormatInt now], folded accounts_wired]
  preserves_lifts(1) [OF accounts_preserved(2) [of checkA FormatInt now], folded accounts_wired]
  preserves_lifts(1) [OF accounts_preserved(3) [of checkA FormatInt now], folded accounts_wired]
  preserves_lifts(1) [OF accounts_preserved(4) [of checkA FormatInt now], folded accounts_wired]
  preserves_lifts(1) [OF accounts_preserved(5) [of checkA FormatInt now], folded accounts_wired]
  preserves_lifts(1) [OF accounts_preserved(6) [of checkA FormatInt now], folded accounts_wired]
  preserves_lifts(1) [OF accounts_preserved(7) [of checkA FormatInt now], folded accounts_wired]
  preserves_lifts(1) [OF as_Add_preserved [of checkA FormatInt now], folded accounts_wired]
  preserves_lifts(2) [OF bots_preserved(1) [of checkB FormatInt now], folded bots_wired]
  preserves_lifts(2) [OF bots_preserved(2) [of checkB FormatInt now], folded bots_wired]
  preserves_lifts(2) [OF bots_preserved(3) [of checkB FormatInt now], folded bots_wired]
  preserves_lifts(2) [OF bots_preserved(4) [of checkB FormatInt now], folded bots_wired]
  preserves_lifts(2) [OF bots_preserved(5) [of checkB FormatInt now], folded bots_wired]
  preserves_lifts(2) [OF bots_preserved(6) [of checkB FormatInt now], folded bots_wired]
  preserves_lifts(2) [OF bots_preserved(7) [of checkB FormatInt now], folded bots_wired]
  preserves_lifts(2) [OF bots_preserved(8) [of checkB FormatInt now], folded bots_wired]

lemmas calls_keep = calls_preserved [THEN preservesD]

lemmas manager_keeps =
  assigns_preserved [THEN preserves_lifts(3), THEN preservesD] routed_preserved [THEN preserves_lifts(3), THEN preservesD]

lemma items_preserved:
  "preserves backend_ok (AddBots_item V rnd tokens i pc)"
  "preserves backend_ok (AddAccounts_item V rnd phones i pc)"
  "preserves backend_ok (RemoveSessions_item V sids i pc)"
proof -
  have resolve: "preserves backend_ok (resolveWorkerID V sid)" for sid
    by (auto simp: preserves_def resolveWorkerID_def split: prod.split sum.split dest: calls_keep)
  show "preserves backend_ok (AddBots_item V rnd tokens i pc)"
    by (auto simp: preserves_def AddBots_item_def split: bulk_pc.split prod.split sum.split dest: calls_keep manager_keeps)
  show "preserves backend_ok (AddAccounts_item V rnd phones i pc)"
    by (auto simp: preserves_def AddAccounts_item_def split: bulk_pc.split prod.split sum.split dest: calls_keep manager_keeps)
  show "preserves backend_ok (RemoveSessions_item V sids i pc)"
    by (auto simp: preserves_def RemoveSessions_item_def Let_def split: bulk_pc.split prod.split sum.split
        dest: preservesD [OF resolve] manager_keeps)
qed

lemma bulk_preserved:
  "AddBots V rnd sched tokens b = Some (res, b') \<Longrightarrow> backend_ok b \<Longrightarrow> backend_ok b'"
  "AddAccounts V rnd sched phones b = Some (res, b') \<Longrightarrow> backend_ok b \<Longrightarrow> backend_ok b'"
  "RemoveSessions V sched sids b = Some (res, b') \<Longrightarrow> backend_ok b \<Longrightarrow> backend_ok b'"
  by (auto simp: AddBots_def AddAccounts_def RemoveSessions_def
      dest: parallel_preserved [where body = "AddBots_item V rnd tokens", OF items_preserved(1), rotated]
        parallel_preserved [where body = "AddAccounts_item V rnd phones", OF items_preserved(2), rotated]
        parallel_preserved [where body = "RemoveSessions_item V sids", OF items_preserved(3), rotated])

end


subsection \<open>Endpoints\<close>

lemma keys_preserved:
  "kp_ok t \<Longrightarrow> ks_Create (auth_postgres check now) rnd name t = (r, t') \<Longrightarrow> kp_ok t'"
  "kp_ok t \<Longrightarrow> ks_Delete (auth_postgres check now) i t = (e, t') \<Longrightarrow> kp_ok t'"
  "kp_ok t \<Longrightarrow> ks_Validate (auth_postgres check now) master key t = (b, t') \<Longrightarrow> kp_ok t'"
  "kp_ok t \<Longrightarrow> ks_List (auth_postgres check now) t = (q, t') \<Longrightarrow> kp_ok t'"
proof -
  assume ok: "kp_ok t"
  show "kp_ok t'" if c: "ks_Create (auth_postgres check now) rnd name t = (r, t')"
  proof (cases r)
    case (Inl e)
    from ks_Create_error [OF c [unfolded Inl]] auth_pg.create_fails [OF ok] ok show ?thesis by blast
  next
    case (Inr kr)
    then obtain k raw where "ks_Create (auth_postgres check now) rnd name t = (Inr (k, raw), t')" using c by (cases kr) auto
    then obtain "kr_Create (auth_postgres check now) name (take 8 raw) (hashKey raw) t = (Inr k, t')" by (rule ks_Create_success)
    from auth_pg.create_key [OF ok TrueI this] show ?thesis by simp
  qed
  show "kp_ok t'" if "ks_Delete (auth_postgres check now) i t = (e, t')"
    using auth_pg.delete_key [OF ok, of check now i t'] auth_pg.delete_fails [OF ok, of check now i _ t'] that
    by (cases e) (auto simp: ks_Delete_def)
  show "kp_ok t'" if "ks_Validate (auth_postgres check now) master key t = (b, t')"
    using ks_Validate_state [OF that] auth_pg.hash_frame [OF ok, of check now "hashKey key"] ok by auto
  show "kp_ok t'" if "ks_List (auth_postgres check now) t = (q, t')"
    using kp_List_frame [OF ok] that by (simp add: ks_List_def auth_postgres_def)
qed


lemma main_deps_simps:
  "dp_services (main_deps X cfg enc now) = \<lparr>sv_accounts = account_postgres (xt_acc X) FormatInt now,
     sv_bots = bot_postgres (xt_bot X) FormatInt now, sv_enc = Some enc, sv_env = xt_env X\<rparr>"
  "dp_auth (main_deps X cfg enc now) = Some (auth_postgres (xt_key X) now, cfg_MasterKey cfg)"
  "dp_hooks (main_deps X cfg enc now) = Some (webhook_postgres (xt_hook X) now)"
  by (simp_all add: main_deps_def)

interpretation main_svc: node_services "dp_services (main_deps X cfg enc now)" "xt_acc X" "xt_bot X" now
  by unfold_locales (simp_all add: main_deps_simps)

lemmas node_calls = main_svc.calls_preserved [THEN preserves_lifts(4), THEN preservesD]
lemmas node_manager = assigns_preserved [THEN preserves_lifts(5), THEN preservesD]
  routed_preserved [THEN preserves_lifts(5), THEN preservesD] registry_preserved [THEN preserves_lifts(5), THEN preservesD]
  DrainWorker_preserved [THEN preserves_lifts(5), THEN preservesD]

lemma account_endpoints_preserved:
  assumes "D = main_deps X cfg enc now"
  shows "preserves node_ok (acc_create D w ch req)" "preserves node_ok (acc_list D req)" "preserves node_ok (acc_get D param)"
    "preserves node_ok (acc_delete D param)" "preserves node_ok (acc_sendAuthCode D w param req)"
    "preserves node_ok (acc_sendPassword D w param req)" "preserves node_ok (acc_getAuthState D w param)"
  unfolding assms acc_create_def acc_list_def acc_get_def acc_delete_def acc_sendAuthCode_def acc_sendPassword_def acc_submit_def
    acc_getAuthState_def preserves_def Let_def
  by (auto split: sum.split prod.split option.split dest: node_calls node_manager)

lemma bot_endpoints_preserved:
  assumes "D = main_deps X cfg enc now"
  shows "preserves node_ok (bot_create D w ch req)" "preserves node_ok (bot_list D req)" "preserves node_ok (bot_get D param)"
    "preserves node_ok (bot_delete D param)"
  unfolding assms bot_create_def bot_list_def bot_get_def bot_delete_def preserves_def Let_def
  by (auto split: sum.split prod.split option.split dest: node_calls node_manager)

lemma worker_endpoints_preserved:
  "preserves node_ok (wk_list ch)" "preserves node_ok (wk_metrics D ch)" "preserves node_ok (wk_add D req)"
  "preserves node_ok (wk_remove param)" "preserves node_ok (wk_drain D ch param)"
  unfolding wk_list_def wk_metrics_def wk_add_def wk_remove_def wk_drain_def preserves_def
  by (auto split: sum.split prod.split option.split dest: node_manager)


lemma key_endpoints_preserved:
  "preserves node_ok (key_create (auth_postgres check now) ch req)" "preserves node_ok (key_list (auth_postgres check now))"
  "preserves node_ok (key_delete (auth_postgres check now) param)"
  unfolding key_create_def key_list_def key_delete_def preserves_def
  by (auto simp: node_ok_def split: sum.split prod.split option.split dest: keys_preserved)

lemma hook_endpoints_preserved:
  "preserves node_ok (hook_create D (webhook_postgres check now) req)" "preserves node_ok (hook_list (webhook_postgres check now))"
  "preserves node_ok (hook_delete (webhook_postgres check now) param)"
  unfolding hook_create_def hook_list_def hook_delete_def preserves_def Let_def
  by (auto simp: node_ok_def split: sum.split prod.split option.split dest: hs_Create_ok hs_List_ok hs_Delete_ok)

lemma bulk_endpoints_preserved:
  assumes "D = main_deps X cfg enc now"
  shows "preserves node_ok (bulk_addBots D ch req)" "preserves node_ok (bulk_addAccounts D ch req)"
    "preserves node_ok (bulk_removeSessions D ch req)"
  unfolding assms bulk_addBots_def bulk_addAccounts_def bulk_removeSessions_def bulk_reply_def preserves_def
  by (auto simp: node_ok_def split: sum.split prod.split option.split dest: main_svc.bulk_preserved)

lemma other_endpoints_preserved:
  "preserves node_ok health" "preserves node_ok (ready ch)" "preserves node_ok ses_list" "preserves node_ok (ses_get param)"
  "preserves node_ok (ses_stop D param)" "preserves node_ok (\<lambda>s. (r, s))"
  unfolding health_def ready_def ses_list_def ses_get_def ses_stop_def preserves_def
  by (auto simp: node_ok_def split: prod.split option.split)

interpretation main_data: served_invariant "\<lambda>D. \<exists>cfg enc now. D = main_deps X cfg enc now" node_ok
proof (unfold_locales, goal_cases)
  case (3 D R master s key)
  then obtain check now where R: "R = auth_postgres check now" by (auto simp: main_deps_simps)
  have "kp_ok (snd (ks_Validate R master key (nd_keys s)))"
    unfolding R by (rule keys_preserved(3) [OF _ prod.collapse [symmetric]]) (use 3 in \<open>simp add: node_ok_def\<close>)
  then show ?case using 3 by (simp add: node_ok_def)
next
  case (4 D ch req e param)
  then obtain cfg enc now where D: "D = main_deps X cfg enc now" by blast
  have a: "dp_auth D = Some (auth_postgres (xt_key X) now, cfg_MasterKey cfg)" "dp_hooks D = Some (webhook_postgres (xt_hook X) now)"
    by (simp_all add: D main_deps_simps)
  show ?case unfolding run_endpoint_def [abs_def] a
    by (cases e) (simp_all add: account_endpoints_preserved [OF D] bot_endpoints_preserved [OF D] worker_endpoints_preserved
        key_endpoints_preserved hook_endpoints_preserved bulk_endpoints_preserved [OF D] other_endpoints_preserved)
qed (simp_all add: node_ok_def)


section \<open>The main node runs no sessions\<close>

abbreviation no_sessions :: "('a, 'b, 'c, 'k, 'h, 'p, 'l) node \<Rightarrow> bool" where
  "no_sessions s \<equiv> sessions (nd_pool s) = []"

lemma pool_frames:
  "on_backend f s = (x, s') \<Longrightarrow> nd_pool s' = nd_pool s"
  "call_mgr g s = (y, s') \<Longrightarrow> nd_pool s' = nd_pool s"
  by (auto simp: on_backend_def call_mgr_def split: prod.splits option.splits)

lemma backend_endpoints_pool:
  "preserves no_sessions (acc_create D w ch req)" "preserves no_sessions (acc_list D req)" "preserves no_sessions (acc_get D param)"
  "preserves no_sessions (acc_delete D param)" "preserves no_sessions (acc_sendAuthCode D w param req)"
  "preserves no_sessions (acc_sendPassword D w param req)" "preserves no_sessions (acc_getAuthState D w param)"
  "preserves no_sessions (bot_create D w ch req)" "preserves no_sessions (bot_list D req)" "preserves no_sessions (bot_get D param)"
  "preserves no_sessions (bot_delete D param)"
  "preserves no_sessions (wk_list ch)" "preserves no_sessions (wk_metrics D ch)" "preserves no_sessions (wk_add D req)"
  "preserves no_sessions (wk_remove param)" "preserves no_sessions (wk_drain D ch param)"
  unfolding acc_create_def acc_list_def acc_get_def acc_delete_def acc_sendAuthCode_def acc_sendPassword_def acc_submit_def
    acc_getAuthState_def bot_create_def bot_list_def bot_get_def bot_delete_def
    wk_list_def wk_metrics_def wk_add_def wk_remove_def wk_drain_def preserves_def Let_def
  by (auto split: sum.split prod.split option.split dest!: pool_frames)

lemma other_endpoints_pool:
  "preserves no_sessions (key_create R ch req)" "preserves no_sessions (key_list R)" "preserves no_sessions (key_delete R param)"
  "preserves no_sessions (hook_create D H req)" "preserves no_sessions (hook_list H)" "preserves no_sessions (hook_delete H param)"
  "preserves no_sessions (bulk_addBots D ch req)" "preserves no_sessions (bulk_addAccounts D ch req)"
  "preserves no_sessions (bulk_removeSessions D ch req)"
  "preserves no_sessions health" "preserves no_sessions (ready ch)" "preserves no_sessions ses_list"
  "preserves no_sessions (ses_get param)" "preserves no_sessions (ses_stop D param)" "preserves no_sessions (\<lambda>s. (r, s))"
  unfolding key_create_def key_list_def key_delete_def hook_create_def hook_list_def hook_delete_def bulk_addBots_def
    bulk_addAccounts_def bulk_removeSessions_def bulk_reply_def health_def ready_def ses_list_def ses_get_def ses_stop_def
    Pool_Remove_def preserves_def Let_def
  by (auto split: sum.split prod.split option.split)

interpretation main_sessions: served_invariant "\<lambda>D. True" no_sessions
proof (unfold_locales, goal_cases)
  case (4 D ch req e param)
  consider "dp_auth D = None" | R k where "dp_auth D = Some (R, k)" by (metis option.exhaust surj_pair)
  then show ?case unfolding run_endpoint_def [abs_def]
    by cases (cases "dp_hooks D"; cases e; simp add: backend_endpoints_pool other_endpoints_pool)+
qed simp_all

section \<open>Reachable states of the main node\<close>

text \<open>
  The routes of the main node, which wires every service. Requests are atomic here, apart from the
  interleavings inside a bulk operation; between them a worker may become ready, the limiters are
  cleaned up, and workers and their sessions come and go.
\<close>

definition main_router :: "Config \<Rightarrow> router" where
  "main_router cfg = build (NewServer (cfg_RPS cfg > 0) True True True True)"

inductive main_reach ::
  "('c, 'p, 'l) externals \<Rightarrow> Config \<Rightarrow> TokenEncryptor \<Rightarrow> (Account table, Bot table, 'c, APIKey table, Webhook table, 'p, 'l) node \<Rightarrow> bool"
  for X cfg enc where
  start: "ap_ok accounts \<Longrightarrow> bp_ok bots \<Longrightarrow> kp_ok keys \<Longrightarrow> hp_ok hooks \<Longrightarrow> net_ok n \<Longrightarrow>
    main_reach X cfg enc (main_node X accounts bots keys hooks workers n)"
| request: "main_reach X cfg enc s \<Longrightarrow>
    main_reach X cfg enc (snd (serve lookup (main_router cfg) (main_deps X cfg enc now) ch req s))"
| ready: "main_reach X cfg enc s \<Longrightarrow>
    main_reach X cfg enc (s\<lparr>nd_backend := onWorkerReady (dp_services (main_deps X cfg enc now)) wid (nd_backend s)\<rparr>)"
| cleanup: "main_reach X cfg enc s \<Longrightarrow> main_reach X cfg enc (s\<lparr>nd_limiters := limiter_cleanup now (nd_limiters s)\<rparr>)"
| world: "main_reach X cfg enc s \<Longrightarrow> bk_mgr (nd_backend s) = Some m \<Longrightarrow> net_step (xt_env X) (mgr_net m) n \<Longrightarrow>
    main_reach X cfg enc (s\<lparr>nd_backend := (nd_backend s)\<lparr>bk_mgr := Some (m\<lparr>mgr_net := n\<rparr>)\<rparr>\<rparr>)"

lemma restore_entries_ok: "workers_ok m \<Longrightarrow> workers_ok (snd (restore_entries E es k m))"
proof (induction E es k m rule: restore_entries.induct)
  case (2 E wid addr es k m)
  obtain e m' where a: "AddWorker E \<lparr>cfg_ID = wid, cfg_Addr = addr\<rparr> m = (e, m')" by fastforce
  then have "workers_ok m'" using preservesD [OF registry_preserved(1) a 2(3)] by simp
  then show ?case using 2(1,2) a by (cases e) simp_all
qed simp

lemma main_workers_ok: "net_ok n \<Longrightarrow> workers_ok (main_workers E t n)"
proof -
  assume "net_ok n"
  then have start: "workers_ok ((NewManager (Some t) n)\<lparr>mgr_store := Some t'\<rparr>)" for t'
    by (simp add: mgr_inv_def NewManager_def)
  have "workers_ok (snd (RestoreWorkers E (NewManager (Some t) n)))"
    using start restore_entries_ok [OF start]
    by (cases "wr_List t") (simp add: RestoreWorkers_def NewManager_def Let_def split: sum.split)
  then show ?thesis by (simp add: main_workers_def SetOnWorkerReady_def mgr_inv_def)
qed

lemma restore_sessions_ok:
  "workers_ok m \<Longrightarrow> workers_ok (restore_bots E wid bots m)"
  "workers_ok m \<Longrightarrow> workers_ok (restore_accounts E wid accounts m)"
proof -
  show "workers_ok m \<Longrightarrow> workers_ok (restore_bots E wid bots m)"
    by (induction bots arbitrary: m) (simp_all add: preservesS [OF routed_preserved(1)])
  show "workers_ok m \<Longrightarrow> workers_ok (restore_accounts E wid accounts m)"
    by (induction accounts arbitrary: m) (simp_all add: preservesS [OF routed_preserved(2)])
qed

lemma restored_backend_ok:
  "backend_ok b \<Longrightarrow> backend_ok (b\<lparr>bk_mgr := map_option (restore_bots E wid bots) (bk_mgr b)\<rparr>)"
  "backend_ok b \<Longrightarrow> backend_ok (b\<lparr>bk_mgr := map_option (restore_accounts E wid accounts) (bk_mgr b)\<rparr>)"
  by (auto simp: backend_ok_def restore_sessions_ok)

lemma onWorkerReady_ok:
  "backend_ok b \<Longrightarrow> backend_ok (onWorkerReady (dp_services (main_deps X cfg enc now)) wid b)"
  unfolding onWorkerReady_def Let_def
  by (auto split: prod.split sum.split dest: main_svc.calls_keep intro!: restored_backend_ok)

lemma main_reach_ok: "main_reach X cfg enc s \<Longrightarrow> node_ok s \<and> no_sessions s"
proof (induction rule: main_reach.induct)
  case (start accounts bots keys hooks n workers)
  then show ?case by (simp add: main_node_def node_ok_def backend_ok_def main_pool_def NewPool_def main_workers_ok)
next
  case (request s lookup now ch req)
  then show ?case using main_data.serve_keeps [where X = X] main_sessions.serve_keeps by blast
next
  case (ready s now wid)
  then show ?case using onWorkerReady_ok by (auto simp: node_ok_def)
next
  case (cleanup s now)
  then show ?case by (simp add: node_ok_def)
next
  case (world s m n)
  from mgr_inv_step [OF net_moves [OF world(3)]] world show ?case by (simp add: node_ok_def backend_ok_def)
qed


section \<open>Properties\<close>

text \<open>
  C2: The stored data and the fleet stay consistent. In every state the main node reaches, whatever
  it is asked, whichever statements fail, messages get lost and workers come and go: no two
  accounts share a phone or a session, no two bots a stored token or a session, no two keys a
  hash, every row is stored under its identifier; every worker is registered under its own
  identifier with an open connection that no other worker uses; and every worker's pool satisfies
  its invariant.
\<close>

theorem node_data_consistent:
  assumes "main_reach X cfg enc s"
  shows "(\<forall>i j a b. ap_view (bk_accounts (nd_backend s)) i = Some a \<and> ap_view (bk_accounts (nd_backend s)) j = Some b \<and>
      (acc_Phone a = acc_Phone b \<or> acc_SessionID a = acc_SessionID b) \<longrightarrow> acc_ID a = i \<and> i = j) \<and>
    (\<forall>i j a b. bp_view (bk_bots (nd_backend s)) i = Some a \<and> bp_view (bk_bots (nd_backend s)) j = Some b \<and>
      (bot_Token a = bot_Token b \<or> bot_SessionID a = bot_SessionID b) \<longrightarrow> bot_ID a = i \<and> i = j) \<and>
    (\<forall>i j a b. kp_view (nd_keys s) i = Some a \<and> kp_view (nd_keys s) j = Some b \<and> key_KeyHash a = key_KeyHash b \<longrightarrow>
      key_ID a = i \<and> i = j) \<and>
    (\<forall>i w. hp_view (nd_hooks s) i = Some w \<longrightarrow> wh_ID w = i) \<and>
    (\<forall>m wid c. bk_mgr (nd_backend s) = Some m \<and> go_get (mgr_workers m) wid = Some c \<longrightarrow>
      wc_id c = wid \<and> wc_conn c \<in> set (net_open (mgr_net m)) \<and>
      (\<forall>wid' c'. go_get (mgr_workers m) wid' = Some c' \<and> wc_conn c' = wc_conn c \<longrightarrow> wid' = wid)) \<and>
    (\<forall>m a w. bk_mgr (nd_backend s) = Some m \<and> net_nodes (mgr_net m) a = Some w \<longrightarrow> pool_ok (srv_pool w))"
proof -
  have ok: "ap_ok (bk_accounts (nd_backend s))" "bp_ok (bk_bots (nd_backend s))" "kp_ok (nd_keys s)" "hp_ok (nd_hooks s)"
    and mgr: "\<And>m. bk_mgr (nd_backend s) = Some m \<Longrightarrow> workers_ok m"
    using main_reach_ok [OF assms] by (auto simp: node_ok_def backend_ok_def)
  have ids: "\<And>i a. ap_view (bk_accounts (nd_backend s)) i = Some a \<Longrightarrow> acc_ID a = i"
    "\<And>i b. bp_view (bk_bots (nd_backend s)) i = Some b \<Longrightarrow> bot_ID b = i"
    "\<And>i k. kp_view (nd_keys s) i = Some k \<Longrightarrow> key_ID k = i" "\<And>i w. hp_view (nd_hooks s) i = Some w \<Longrightarrow> wh_ID w = i"
    using tb_okD [OF tb_uniqD(1) [OF ok(1)]] tb_okD [OF tb_uniqD(1) [OF ok(2)]] tb_okD [OF tb_uniqD(1) [OF ok(3)]]
      tb_okD [OF tb_uniqD(1) [OF ok(4)]] by simp_all
  have uniq: "\<And>i j a b. ap_view (bk_accounts (nd_backend s)) i = Some a \<Longrightarrow> ap_view (bk_accounts (nd_backend s)) j = Some b \<Longrightarrow>
      acc_Phone a = acc_Phone b \<or> acc_SessionID a = acc_SessionID b \<Longrightarrow> i = j"
    "\<And>i j a b. bp_view (bk_bots (nd_backend s)) i = Some a \<Longrightarrow> bp_view (bk_bots (nd_backend s)) j = Some b \<Longrightarrow>
      bot_Token a = bot_Token b \<or> bot_SessionID a = bot_SessionID b \<Longrightarrow> i = j"
    "\<And>i j a b. kp_view (nd_keys s) i = Some a \<Longrightarrow> kp_view (nd_keys s) j = Some b \<Longrightarrow> key_KeyHash a = key_KeyHash b \<Longrightarrow> i = j"
    using tb_uniqD(2) [OF ok(1)] tb_uniqD(2) [OF ok(2)] tb_uniqD(2) [OF ok(3)]
    by (simp_all add: acc_unique_def bot_unique_def key_unique_def)
  have reg: "wc_id c = wid \<and> wc_conn c \<in> set (net_open (mgr_net m)) \<and>
      (\<forall>wid' c'. go_get (mgr_workers m) wid' = Some c' \<and> wc_conn c' = wc_conn c \<longrightarrow> wid' = wid)"
    if "bk_mgr (nd_backend s) = Some m" "go_get (mgr_workers m) wid = Some c" for m wid c
    using mgr_inv_workerD [OF mgr [OF that(1)] go_get_in_set [OF that(2)]] mgr_inv_parts(5) [OF mgr [OF that(1)]]
      go_get_in_set [OF that(2)] by (metis go_get_in_set)
  have pools: "pool_ok (srv_pool w)" if "bk_mgr (nd_backend s) = Some m" "net_nodes (mgr_net m) a = Some w" for m a w
    using net_okD [OF mgr_inv_parts(2) [OF mgr [OF that(1)]] that(2)] .
  show ?thesis
    by (intro conjI) (use ids(1) uniq(1) in blast, use ids(2) uniq(2) in blast, use ids(3) uniq(3) in blast,
      use ids(4) in blast, use reg in blast, use pools in blast)
qed

definition ex_main :: "(Account table, Bot table, mockClient, APIKey table, Webhook table, mockClient, bucket) node" where
  "ex_main = main_node ex_ext tb_empty tb_empty tb_empty tb_empty ex_table ex_net"

lemma ex_main_reach: "main_reach ex_ext ex_cfg ex_tokens ex_main"
  unfolding ex_main_def
proof (rule main_reach.start)
  show "net_ok ex_net" by (simp add: net_ok_def ex_net_def mock_node_def NewWorkerServer_def pool_ok_handler pool_ok_NewPool)
qed (use tb_uniq_empty [of _ _ "[]"] in \<open>simp_all add: tb_empty_def\<close>)

theorem node_data_consistent_witness:
  "wc_conn \<lparr>wc_id = ''w1'', wc_addr = ''h1'', wc_conn = 0\<rparr> \<in> set (net_open (mgr_net (main_workers mock_env ex_table ex_net)))"
proof -
  have m: "bk_mgr (nd_backend ex_main) = Some (main_workers mock_env ex_table ex_net)"
    by (simp add: ex_main_def main_node_def ex_ext_def)
  have c: "go_get (mgr_workers (main_workers mock_env ex_table ex_net)) ''w1'' = Some \<lparr>wc_id = ''w1'', wc_addr = ''h1'', wc_conn = 0\<rparr>"
    by (simp add: ex_main_workers)
  from node_data_consistent [OF ex_main_reach] m c show ?thesis by blast
qed



end
