(* ===== verification/Node_Flows.thy ===== *)
theory Node_Flows
  imports Node_Invariants
begin

text \<open>
  What happens across the components of the main node: the creation of an account from the request
  to the session on a worker, and the way of an update from a worker to the table of messages.
\<close>

section \<open>Creating an account\<close>

lemma ap_UpdateStatus_row:
  assumes ok: "ap_ok t" and x: "go_get (tb_rows t) i = Some x" and u: "ap_UpdateStatus show_int now i st t = (None, t')"
  shows "ap_ok t' \<and> (tb_faults t = [] \<longrightarrow> tb_faults t' = []) \<and>
    go_get (tb_rows t') = (go_get (tb_rows t))(i \<mapsto> x\<lparr>acc_Status := st, acc_UpdatedAt := now\<rparr>)"
proof -
  have u': "tb_update (\<lambda>a. acc_ID a = i) (\<lambda>a. a\<lparr>acc_Status := st, acc_UpdatedAt := now\<rparr>) t = (None, t')"
    using u by (simp add: ap_UpdateStatus_def)
  have "ap_ok t'" by (rule tb_uniq_update [OF ok u']) (simp_all add: acc_unique_def)
  moreover have "go_get (tb_rows t') j = ((go_get (tb_rows t))(i \<mapsto> x\<lparr>acc_Status := st, acc_UpdatedAt := now\<rparr>)) j" for j
    using tb_update_get [OF u', of j] x tb_okD [OF tb_uniqD(1) [OF ok], of j]
    by (cases "go_get (tb_rows t) j") auto
  ultimately show ?thesis using tb_update_rows [OF u'] by auto
qed

text \<open>The two updates after an assignment, when no statement fails.\<close>

lemma assigned_row:
  assumes ok: "ap_ok t" "tb_faults t = []" "ap_view t (acc_ID a) = Some a"
    and s: "as_UpdateStatus (account_postgres check show_int now) (acc_ID a) st t = (e1, t1)"
    and w: "as_UpdateWorkerID (account_postgres check show_int now) (acc_SessionID a) wid t1 = (e2, t2)"
  shows "ap_view t2 = (ap_view t)(acc_ID a \<mapsto> a\<lparr>acc_Status := st, acc_WorkerID := Some wid, acc_UpdatedAt := now\<rparr>)"
proof -
  have s': "ap_UpdateStatus show_int now (acc_ID a) st t = (e1, t1)" using s by (simp add: as_UpdateStatus_def account_postgres_def)
  have w': "ap_UpdateWorkerID now (acc_SessionID a) wid t1 = (e2, t2)" using w by (simp add: as_UpdateWorkerID_def account_postgres_def)
  have "e1 = None" using s' ok(2) by (auto simp: ap_UpdateStatus_def tb_update_def tb_stmt_def wrap_error_def split: prod.splits)
  note S = ap_UpdateStatus_row [OF ok(1,3) s' [unfolded this]]
  have "e2 = None" using w' S ok(2) by (auto simp: ap_UpdateWorkerID_def tb_update_def tb_stmt_def split: prod.splits)
  moreover have "ap_view t1 (acc_ID a) = Some (a\<lparr>acc_Status := st, acc_UpdatedAt := now\<rparr>)" using S by simp
  ultimately show ?thesis using ap_UpdateWorkerID_row [of t1 "acc_ID a" "a\<lparr>acc_Status := st, acc_UpdatedAt := now\<rparr>" now wid t2] w' S
    by (auto simp: fun_eq_iff)
qed

lemma AssignAccount_runs:
  assumes inv: "workers_ok m" and a: "AssignAccount E ks sid phone m = (Inr wid, m')"
  shows "\<exists>c. go_get (mgr_workers m') wid = Some c \<and> runs_at m' (wc_addr c) sid"
proof -
  obtain q m1 where pick: "leastLoaded ks m = (q, m1)" by fastforce
  then show ?thesis
  proof (cases rule: leastLoaded_cases)
    case none
    with a pick show ?thesis by (simp add: AssignAccount_def)
  next
    case (chosen w c n)
    have w: "wc_id c = w" "go_get (mgr_workers m) w = Some c"
      using mgr_inv_workerD [OF inv chosen(2)] go_get_Some_iff [OF mgr_inv_parts(1) [OF inv]] chosen(2) by simp_all
    let ?h = "srv_AddAccount (env_factory E (wc_addr c)) (env_now E) sid phone"
    obtain x n2 where call: "wc_call c ?h n = (Inr x, n2)" and m': "wid = w" "m' = m\<lparr>mgr_net := n2\<rparr>"
      using a pick chosen(1,3) w(1) by (auto simp: AssignAccount_def wc_AddAccount_def split: prod.splits sum.splits)
    from started_at [OF call starts_AddAccount] obtain s s' where "net_nodes n2 = (net_nodes n)(wc_addr c \<mapsto> s')"
      "go_get (sessions (srv_pool s')) sid \<noteq> None" by blast
    then show ?thesis using m' w(2) by (auto simp: runs_at_def)
  qed
qed


text \<open>
  C4: Creating an account, end to end. In every state the main node reaches, when no statement on
  the accounts fails and the request is answered with 201: the reply has the phone of the request,
  the new session and a worker; that worker is registered and runs the session; and the database
  has the account under the identifier of the reply with that session, worker and the status
  authorizing, and every other account as it was.
\<close>

theorem account_created:
  assumes "main_reach X cfg enc s" and "acc_create (main_deps X cfg enc now) True ch req s = (Respond r, s')"
    and "rs_Status r = 201" and "hr_Body req = Inr b" and "tb_faults (bk_accounts (nd_backend s)) = []"
  shows "\<exists>a wid m c row. rs_Body r = AccountBody a \<and> acc_Phone a = field b ''phone'' \<and> acc_SessionID a = ch_uuid ch \<and>
    acc_WorkerID a = Some wid \<and> acc_Status a = ''authorizing'' \<and>
    bk_mgr (nd_backend s') = Some m \<and> go_get (mgr_workers m) wid = Some c \<and> runs_at m (wc_addr c) (ch_uuid ch) \<and>
    ap_view (bk_accounts (nd_backend s')) = (ap_view (bk_accounts (nd_backend s)))(acc_ID a \<mapsto> row) \<and>
    ap_view (bk_accounts (nd_backend s)) (acc_ID a) = None \<and>
    acc_ID row = acc_ID a \<and> acc_Phone row = field b ''phone'' \<and> acc_SessionID row = ch_uuid ch \<and>
    acc_WorkerID row = Some wid \<and> acc_Status row = ''authorizing''"
proof -
  let ?D = "main_deps X cfg enc now" and ?R = "account_postgres (xt_acc X) FormatInt now" and ?ph = "field b ''phone''"
  let ?t = "bk_accounts (nd_backend s)"
  have ok: "ap_ok ?t" and mgr: "\<And>m. bk_mgr (nd_backend s) = Some m \<Longrightarrow> workers_ok m"
    using main_reach_ok [OF assms(1)] by (auto simp: node_ok_def backend_ok_def)
  have sv: "sv_accounts (dp_services ?D) = ?R" "sv_env (dp_services ?D) = xt_env X" by (simp_all add: main_deps_simps)
  have bound: "bind_required [''phone''] req = Inr b"
    using assms(2-4) by (auto simp: acc_create_def errorResp_def bind_required_def split: sum.splits option.splits)
  obtain res t1 where add: "as_Add ?R (ch_uuid ch) ?ph ?t = (res, t1)" by fastforce
  obtain a where res: "res = Inr a"
    using assms(2,3) bound add by (cases res) (auto simp: acc_create_def sv on_backend_def on_accounts_def errorResp_def)
  have c: "ap_Create (xt_acc X) now (new_account (ch_uuid ch) ?ph) ?t = (Inr a, t1)"
    using add res by (simp add: as_Add_Inr account_postgres_def)
  note row = ap_Create_row [OF ok blank_new_account(1) c]
  obtain m where m: "bk_mgr (nd_backend s) = Some m"
    using assms(2) bound add res
    by (auto simp: acc_create_def sv on_backend_def on_accounts_def call_mgr_def nil_pointer_def split: option.splits)
  obtain w m' where asg: "AssignAccount (xt_env X) (ch_order ch) (acc_SessionID a) (acc_Phone a) m = (w, m')" by fastforce
  obtain wid where wid: "w = Inr wid"
    using assms(2,3) bound add res m asg
    by (cases w) (auto simp: acc_create_def sv on_backend_def on_accounts_def call_mgr_def errorResp_def)
  obtain cl where cl: "go_get (mgr_workers m') wid = Some cl" "runs_at m' (wc_addr cl) (acc_SessionID a)"
    using AssignAccount_runs [OF mgr [OF m] asg [unfolded wid]] by blast
  obtain e1 t2 where u1: "as_UpdateStatus ?R (acc_ID a) ''authorizing'' t1 = (e1, t2)" by fastforce
  obtain e2 t3 where u2: "as_UpdateWorkerID ?R (acc_SessionID a) wid t2 = (e2, t3)" by fastforce
  let ?row = "a\<lparr>acc_Status := ''authorizing'', acc_WorkerID := Some wid, acc_UpdatedAt := now\<rparr>"
  have "ap_view t3 = (ap_view t1)(acc_ID a \<mapsto> ?row)"
    by (rule assigned_row [OF _ _ _ u1 u2]) (use row assms(5) in simp_all)
  then have t3: "ap_view t3 = (ap_view ?t)(acc_ID a \<mapsto> ?row)" using row by (auto simp: fun_eq_iff)
  have "r = \<lparr>rs_Status = 201, rs_Body = AccountBody (a\<lparr>acc_WorkerID := Some wid, acc_Status := ''authorizing''\<rparr>)\<rparr>"
    "bk_mgr (nd_backend s') = Some m'" "bk_accounts (nd_backend s') = t3"
    using assms(2) bound add res m asg wid u1 u2
    by (auto simp: acc_create_def sv on_backend_def on_accounts_def call_mgr_def Let_def)
  then show ?thesis using cl t3 row
    by - (rule exI [of _ "a\<lparr>acc_WorkerID := Some wid, acc_Status := ''authorizing''\<rparr>"], rule exI [of _ wid], rule exI [of _ m'],
        rule exI [of _ cl], rule exI [of _ ?row], simp add: fun_upd_def)
qed


theorem account_created_witness:
  "\<exists>a s'. acc_create (main_deps ex_ext ex_cfg ex_tokens 5) True ex_chance (ex_request ''POST'' []) ex_main = (reply 201 (AccountBody a), s') \<and>
     acc_WorkerID a = Some ''w1'' \<and> runs_at (the (bk_mgr (nd_backend s'))) ''h1'' ''u1''"
proof -
  let ?f = "acc_create (main_deps ex_ext ex_cfg ex_tokens 5) True ex_chance (ex_request ''POST'' []) ex_main"
  have main: "nd_backend ex_main = \<lparr>bk_accounts = tb_empty, bk_bots = tb_empty, bk_mgr = Some (main_workers mock_env ex_table ex_net)\<rparr>"
    by (simp add: ex_main_def main_node_def ex_ext_def)
  have env: "xt_env ex_ext = mock_env" "xt_acc ex_ext = (\<lambda>_. None)" by (simp_all add: ex_ext_def)
  obtain a t1 where add: "as_Add (account_postgres (\<lambda>_. None) FormatInt 5) ''u1'' ''+1'' tb_empty = (Inr a, t1)"
    "acc_SessionID a = ''u1''" "acc_Phone a = ''+1''"
    by (simp add: as_Add_def account_postgres_def ap_Create_def tb_insert_def tb_empty_def new_account_def Let_def)
  let ?m = "main_workers mock_env ex_table ex_net" and ?c = "\<lparr>wc_id = ''w1'', wc_addr = ''h1'', wc_conn = 0\<rparr>"
  have ll: "leastLoaded [] ?m = (Inr ?c, ?m)"
    unfolding ex_main_workers
    by (simp add: leastLoaded_def ex_net_def wc_ListSessions_quiet best_client_def mock_node_sessions)
  obtain x n where call: "wc_AddAccount mock_env ?c ''u1'' ''+1'' (mgr_net ?m) = (Inr x, n)"
    unfolding ex_main_workers
    by (simp add: wc_AddAccount_def wc_call_def ex_net_def mock_env_def mock_node_def srv_AddAccount_def Pool_Add_def server_eval Let_def)
  have asg: "AssignAccount mock_env [] ''u1'' ''+1'' ?m = (Inr ''w1'', ?m\<lparr>mgr_net := n\<rparr>)"
    using ll call by (simp add: AssignAccount_def)
  obtain s' where f: "?f = (reply 201 (AccountBody (a\<lparr>acc_WorkerID := Some ''w1'', acc_Status := ''authorizing''\<rparr>)), s')"
    using add asg
    by (simp add: acc_create_def main env main_deps_simps bind_required_def ex_request_def ex_chance_def field_def on_backend_def
        on_accounts_def call_mgr_def Let_def split_beta)
  have m': "bk_mgr (nd_backend s') = Some (?m\<lparr>mgr_net := n\<rparr>)"
    using f add asg
    by (auto simp: acc_create_def main env main_deps_simps bind_required_def ex_request_def ex_chance_def field_def on_backend_def
        on_accounts_def call_mgr_def Let_def split_beta)
  have b: "hr_Body (ex_request ''POST'' []) = Inr \<lparr>jb_fields = [(''phone'', ''+1'')], jb_items = None, jb_events = None\<rparr>"
    by (simp add: ex_request_def)
  have q: "tb_faults (bk_accounts (nd_backend ex_main)) = []" by (simp add: main tb_empty_def)
  from account_created [OF ex_main_reach f _ b q] m'
  have "\<exists>c. go_get (mgr_workers ?m) ''w1'' = Some c \<and> runs_at (?m\<lparr>mgr_net := n\<rparr>) (wc_addr c) ''u1''"
    by (auto simp: ex_chance_def)
  then have "runs_at (?m\<lparr>mgr_net := n\<rparr>) ''h1'' ''u1''" by (auto simp: ex_main_workers)
  then show ?thesis using f m' by auto
qed

section \<open>From a worker to the table of messages\<close>







end
