(* ===== verification/Worker_Node.thy ===== *)
theory Worker_Node
  imports Main_Node
begin

text \<open>
  The life of a worker process: the gRPC server of \<open>internal/worker/server/grpc.go\<close> and \<open>main\<close> of
  \<open>cmd/worker/main.go\<close>, from the start of the server goroutine over the calls and streams it serves
  to the signal and the graceful stop. Of the gRPC library the model takes what it documents:
  \<open>Serve\<close> accepts calls until the server is stopped and returns an error if it was stopped before,
  \<open>GracefulStop\<close> lets no new call in and returns once the pending ones are finished; and a panic of
  a handler is not recovered.
\<close>

section \<open>Calls\<close>

text \<open>The unary remote procedures of the service.\<close>

datatype worker_call =
    CallAddAccount string string
  | CallAddBot string string
  | CallRemoveSession string
  | CallSendAuthCode string string
  | CallSendPassword string string
  | CallGetAuthState string
  | CallListSessions
  | CallGetMetrics
  | CallHealth

text \<open>
  What the process does not decide: TDLib, the clock, the JSON encoder and the formatting of types,
  the address it listens on and whether that succeeds.
\<close>

record ('c, 'u) worker_env =
  we_ifc :: "'c TDClient"
  we_factory :: "'c ClientFactory"
  we_now :: "nat \<Rightarrow> int"
  we_marshal :: "'u \<Rightarrow> error + string"
  we_typename :: "'u \<Rightarrow> string"
  we_addr :: string
  we_listen :: "error option"

text \<open>A handler changes the server; the first component is its panic, if there is one.\<close>

definition panic_of :: "(error + 'a) \<times> 's \<Rightarrow> error option \<times> 's" where
  "panic_of = (\<lambda>(r, s). (case r of Inl (Panic p) \<Rightarrow> Some (Panic p) | _ \<Rightarrow> None, s))"

fun run_call :: "('c, 'u) worker_env \<Rightarrow> worker_call \<Rightarrow> 'c server \<Rightarrow> error option \<times> 'c server" where
  "run_call W (CallAddAccount sid phone) s = panic_of (srv_AddAccount (we_factory W) (we_now W) sid phone s)"
| "run_call W (CallAddBot sid token) s = panic_of (srv_AddBot (we_factory W) (we_now W) sid token s)"
| "run_call W (CallRemoveSession sid) s = panic_of (srv_RemoveSession (we_ifc W) sid s)"
| "run_call W (CallSendAuthCode sid code) s = panic_of (srv_SendAuthCode (we_ifc W) sid code s)"
| "run_call W (CallSendPassword sid password) s = panic_of (srv_SendPassword (we_ifc W) sid password s)"
| "run_call W (CallGetAuthState sid) s = panic_of (srv_GetAuthState (we_ifc W) sid s, s)"
| "run_call W CallListSessions s = (None, s)"
| "run_call W CallGetMetrics s = (None, s)"
| "run_call W CallHealth s = (None, s)"

section \<open>The gRPC server\<close>

datatype grpc_phase = Fresh | Accepting | Draining

definition ErrServerStopped :: error where
  "ErrServerStopped = Sentinel ''grpc: the server has been stopped''"

text \<open>
  \<open>Serve\<close>: an error is what it returns at once, otherwise it goes on accepting.
\<close>

definition GRPCServer_Serve :: "error option \<Rightarrow> string \<Rightarrow> grpc_phase \<Rightarrow> error option \<times> grpc_phase" where
  "GRPCServer_Serve listen addr g =
     (case listen of
        Some err \<Rightarrow> (Some (Wrapf ''listen %s: %w'' [addr] err), g)
      | None \<Rightarrow> if g = Fresh then (None, Accepting) else (Some ErrServerStopped, g))"

text \<open>\<open>Stop\<close> begins with closing the door; it returns when nothing is pending, see \<open>stopped\<close> below.\<close>

definition GRPCServer_Stop :: "grpc_phase \<Rightarrow> grpc_phase" where
  "GRPCServer_Stop g = Draining"

section \<open>The process\<close>

text \<open>Where \<open>main\<close> is: waiting for a signal, about to cancel, about to stop the server, stopping it.\<close>

datatype worker_pc = AwaitSignal | Signalled | Cancelled | InStop

text \<open>
  \<open>wp_serving\<close> says whether the goroutine has called \<open>Serve\<close>, \<open>wp_calls\<close> are the accepted unary calls
  whose handlers have not finished, \<open>wp_gone\<close> the streams whose client has gone away.
\<close>

record 'c worker_proc =
  wp_server :: "'c server"
  wp_grpc :: grpc_phase
  wp_serving :: bool
  wp_calls :: "worker_call list"
  wp_gone :: "nat list"
  wp_pc :: worker_pc
  wp_ctx_done :: bool
  wp_exit :: "exit_reason option"

definition worker_main :: "'c server \<Rightarrow> 'c worker_proc" where
  "worker_main s =
     \<lparr>wp_server = s, wp_grpc = Fresh, wp_serving = False, wp_calls = [], wp_gone = [], wp_pc = AwaitSignal,
      wp_ctx_done = False, wp_exit = None\<rparr>"

definition serve_goroutine :: "('c, 'u) worker_env \<Rightarrow> 'c worker_proc \<Rightarrow> 'c worker_proc" where
  "serve_goroutine W w =
     (case GRPCServer_Serve (we_listen W) (we_addr W) (wp_grpc w) of
        (Some err, g) \<Rightarrow> w\<lparr>wp_serving := True, wp_exit := Some (Fatal ''gRPC server error'' err)\<rparr>
      | (None, g) \<Rightarrow> w\<lparr>wp_serving := True, wp_grpc := g\<rparr>)"

definition finish_call :: "('c, 'u) worker_env \<Rightarrow> worker_call \<Rightarrow> 'c worker_proc \<Rightarrow> 'c worker_proc" where
  "finish_call W c w =
     (case run_call W c (wp_server w) of
        (panic, s) \<Rightarrow> w\<lparr>wp_server := s, wp_calls := remove1 c (wp_calls w), wp_exit := map_option Crashed panic\<rparr>)"

text \<open>The rest of \<open>main\<close> after a signal, one step at a time; the last one waits for the stop.\<close>

definition pending :: "'c worker_proc \<Rightarrow> nat" where
  "pending w = length (wp_calls w) + card (open_subs (wp_server w))"

fun shutdown_step :: "worker_pc \<Rightarrow> 'c worker_proc \<Rightarrow> 'c worker_proc" where
  "shutdown_step AwaitSignal w = w\<lparr>wp_pc := Signalled\<rparr>"
| "shutdown_step Signalled w = w\<lparr>wp_pc := Cancelled, wp_ctx_done := True\<rparr>"
| "shutdown_step Cancelled w = w\<lparr>wp_pc := InStop, wp_grpc := GRPCServer_Stop (wp_grpc w)\<rparr>"
| "shutdown_step InStop w = (if pending w = 0 then w\<lparr>wp_exit := Some Returned\<rparr> else w)"

text \<open>
  Steps of a running process. A stream ends because its context is done or because a message
  cannot be sent, both when its client is gone; nothing in \<open>Subscribe\<close> looks at the context of the
  server.
\<close>

inductive worker_step :: "('c, 'u) worker_env \<Rightarrow> 'c worker_proc \<Rightarrow> 'c worker_proc \<Rightarrow> bool" for W where
  serves: "wp_exit w = None \<Longrightarrow> \<not> wp_serving w \<Longrightarrow> worker_step W w (serve_goroutine W w)"
| accept_fails: "wp_exit w = None \<Longrightarrow> wp_grpc w = Accepting \<Longrightarrow>
    worker_step W w (w\<lparr>wp_exit := Some (Fatal ''gRPC server error'' err)\<rparr>)"
| accepts: "wp_exit w = None \<Longrightarrow> wp_grpc w = Accepting \<Longrightarrow> worker_step W w (w\<lparr>wp_calls := c # wp_calls w\<rparr>)"
| finishes: "wp_exit w = None \<Longrightarrow> c \<in> set (wp_calls w) \<Longrightarrow> worker_step W w (finish_call W c w)"
| stream_opens: "wp_exit w = None \<Longrightarrow> wp_grpc w = Accepting \<Longrightarrow>
    worker_step W w (w\<lparr>wp_server := Subscribe_open k ids (wp_server w)\<rparr>)"
| stream_sends: "wp_exit w = None \<Longrightarrow> r \<in> open_subs (wp_server w) \<Longrightarrow>
    worker_step W w (w\<lparr>wp_server := snd (Subscribe_recv r True (wp_server w))\<rparr>)"
| client_leaves: "wp_exit w = None \<Longrightarrow> worker_step W w (w\<lparr>wp_gone := r # wp_gone w\<rparr>)"
| stream_ends: "wp_exit w = None \<Longrightarrow> r \<in> open_subs (wp_server w) \<Longrightarrow> r \<in> set (wp_gone w) \<Longrightarrow>
    worker_step W w (w\<lparr>wp_server := Subscribe_close r (wp_server w)\<rparr>)"
| send_fails: "wp_exit w = None \<Longrightarrow> r \<in> open_subs (wp_server w) \<Longrightarrow> r \<in> set (wp_gone w) \<Longrightarrow>
    Subscribe_recv r False (wp_server w) = (False, s) \<Longrightarrow>
    worker_step W w (w\<lparr>wp_server := Subscribe_close r s\<rparr>)"
| updates: "wp_exit w = None \<Longrightarrow> r \<in> set (loops (srv_pool (wp_server w))) \<Longrightarrow>
    Pool_runLoop_update r u (srv_pool (wp_server w)) = Some (h, sid, raw) \<Longrightarrow>
    worker_step W w (w\<lparr>wp_server := snd (dispatch (we_marshal W) (we_typename W) now sid raw (wp_server w))\<rparr>)"
| loop_ends: "wp_exit w = None \<Longrightarrow> r \<in> set (loops (srv_pool (wp_server w))) \<Longrightarrow>
    worker_step W w (w\<lparr>wp_server := (wp_server w)\<lparr>srv_pool := Pool_runLoop_exit now r (srv_pool (wp_server w))\<rparr>\<rparr>)"
| client_moves: "wp_exit w = None \<Longrightarrow> heap (srv_pool (wp_server w)) r = Some e \<Longrightarrow>
    worker_step W w (w\<lparr>wp_server := (wp_server w)\<lparr>srv_pool :=
      (srv_pool (wp_server w))\<lparr>heap := (heap (srv_pool (wp_server w)))(r \<mapsto> e\<lparr>e_client := c\<rparr>)\<rparr>\<rparr>\<rparr>)"
| shuts_down: "wp_exit w = None \<Longrightarrow> wp_pc w = pc \<Longrightarrow> worker_step W w (shutdown_step pc w)"

inductive worker_reach :: "('c, 'u) worker_env \<Rightarrow> 'c worker_proc \<Rightarrow> bool" for W where
  start: "worker_start flag (B :: int boot) = Inr s \<Longrightarrow> worker_reach W (worker_main s)"
| step: "worker_reach W w \<Longrightarrow> worker_step W w w' \<Longrightarrow> worker_reach W w'"

section \<open>The server of a worker process\<close>

lemma run_call_subs: "srv_subs (snd (run_call W c s)) = srv_subs s"
  by (cases c) (simp_all add: panic_of_def srv_AddAccount_def srv_AddBot_def srv_RemoveSession_def srv_SendAuthCode_def
      srv_SendPassword_def Let_def split: prod.split option.split)

text \<open>A call is at most one step of the pool.\<close>

lemma run_call_pool:
  "snd (run_call W c s) = s \<or> (\<exists>p. snd (run_call W c s) = s\<lparr>srv_pool := p\<rparr> \<and> pool_step (we_ifc W) (srv_pool s) p)"
proof -
  have same: "s\<lparr>srv_pool := srv_pool s\<rparr> = s" by simp
  have adds: "pool_step (we_ifc W) (srv_pool s) (snd (Pool_add f now sid phone token t (srv_pool s)))" for f now sid phone token t
    by (rule pool_step.adds)
  have removes: "pool_step (we_ifc W) (srv_pool s) (snd (Pool_Remove (we_ifc W) sid (srv_pool s)))" for sid
    by (rule pool_step.removes)
  have codes: "snd (Pool_SendAuthCode (we_ifc W) sid code (srv_pool s)) = srv_pool s \<or>
      pool_step (we_ifc W) (srv_pool s) (snd (Pool_SendAuthCode (we_ifc W) sid code (srv_pool s)))"
    "snd (Pool_SendPassword (we_ifc W) sid code (srv_pool s)) = srv_pool s \<or>
      pool_step (we_ifc W) (srv_pool s) (snd (Pool_SendPassword (we_ifc W) sid code (srv_pool s)))" for sid code
    by (rule pool_step_SendAuthCode [OF prod.collapse [symmetric]], rule pool_step_SendPassword [OF prod.collapse [symmetric]])
  show ?thesis
  proof (cases c)
    case (CallSendAuthCode sid code)
    then have "snd (run_call W c s) = s\<lparr>srv_pool := snd (Pool_SendAuthCode (we_ifc W) sid code (srv_pool s))\<rparr>"
      by (simp add: panic_of_def srv_SendAuthCode_def Let_def split: prod.split option.split)
    then show ?thesis using codes(1) [of sid code] same by metis
  next
    case (CallSendPassword sid code)
    then have "snd (run_call W c s) = s\<lparr>srv_pool := snd (Pool_SendPassword (we_ifc W) sid code (srv_pool s))\<rparr>"
      by (simp add: panic_of_def srv_SendPassword_def Let_def split: prod.split option.split)
    then show ?thesis using codes(2) [of sid code] same by metis
  next
    case (CallAddAccount sid phone)
    have "snd (run_call W c s) = s\<lparr>srv_pool := snd (Pool_Add (we_factory W) (we_now W) sid phone (srv_pool s))\<rparr>"
      by (simp add: CallAddAccount panic_of_def srv_AddAccount_def Let_def split: prod.split option.split)
    then show ?thesis using adds by (auto simp: Pool_Add_def)
  next
    case (CallAddBot sid token)
    have "snd (run_call W c s) = s\<lparr>srv_pool := snd (Pool_AddBot (we_factory W) (we_now W) sid token (srv_pool s))\<rparr>"
      by (simp add: CallAddBot panic_of_def srv_AddBot_def Let_def split: prod.split option.split)
    then show ?thesis using adds by (auto simp: Pool_AddBot_def)
  next
    case (CallRemoveSession sid)
    have "snd (run_call W c s) = s\<lparr>srv_pool := snd (Pool_Remove (we_ifc W) sid (srv_pool s))\<rparr>"
      by (simp add: CallRemoveSession panic_of_def srv_RemoveSession_def Let_def split: prod.split option.split)
    then show ?thesis using removes by auto
  qed (simp_all add: panic_of_def)
qed

lemma srv_reach_run_call: "srv_reach (we_ifc W) m t s \<Longrightarrow> srv_reach (we_ifc W) m t (snd (run_call W c s))"
  using run_call_pool [of W c s] srv_reach.step [OF _ srv_step.pool_moves] by metis

text \<open>The server of a process moves by steps of \<open>Worker_Server\<close> only, so its properties hold for the process.\<close>

lemma open_subsD: "r \<in> open_subs s \<Longrightarrow> \<exists>sub. srv_subs s r = Some sub \<and> \<not> sub_closed sub"
  by (simp add: open_subs_def)

lemma open_subs_pool [simp]: "open_subs (s\<lparr>srv_pool := p\<rparr>) = open_subs s"
  by (simp add: open_subs_def)

lemma Subscribe_recv_open: "open_subs (snd (Subscribe_recv r b s)) = open_subs s"
  by (rule open_subs_cong) (auto simp: Subscribe_recv_def Let_def split: option.split list.split)

lemma Subscribe_close_open: "open_subs (Subscribe_close r s) = open_subs s - {r}"
  by (auto simp: Subscribe_close_def open_subs_def split: option.split if_splits)

lemma dispatch_open: "bus_ok s \<Longrightarrow> open_subs (snd (dispatch m t now sid raw s)) = open_subs s"
  by (cases "m raw") (auto simp: dispatch_unencodable dispatch_ok offer_all_def offer_def option.map_comp comp_def
      intro!: open_subs_cong)

lemma srv_reach_worker_step:
  assumes "worker_step W w w'" "srv_reach (we_ifc W) (we_marshal W) (we_typename W) (wp_server w)"
  shows "srv_reach (we_ifc W) (we_marshal W) (we_typename W) (wp_server w')"
  using assms
proof (induction rule: worker_step.induct)
  case (finishes w c)
  then show ?case using srv_reach_run_call [OF finishes(3), of c] by (simp add: finish_call_def split_beta)
next
  case (stream_opens w k ids)
  then show ?case by (simp add: srv_reach.step [OF _ srv_step.opens])
next
  case (stream_sends w r)
  then obtain sub where sub: "srv_subs (wp_server w) r = Some sub" "\<not> sub_closed sub" by (blast dest: open_subsD)
  show ?case using srv_reach.step [OF stream_sends(3) srv_step.receives [OF sub]] by simp
next
  case (stream_ends w r)
  then obtain sub where sub: "srv_subs (wp_server w) r = Some sub" "\<not> sub_closed sub" by (blast dest: open_subsD)
  show ?case using srv_reach.step [OF stream_ends(4) srv_step.closes [OF sub]] by simp
next
  case (send_fails w r s)
  then obtain sub where sub: "srv_subs (wp_server w) r = Some sub" "\<not> sub_closed sub" by (blast dest: open_subsD)
  have s: "srv_reach (we_ifc W) (we_marshal W) (we_typename W) s"
    using srv_reach.step [OF send_fails(5) srv_step.receives [OF sub, where ok = False]] send_fails(4) by simp
  have "r \<in> open_subs s" using send_fails(2,4) Subscribe_recv_open [of r False "wp_server w"] by simp
  then obtain sub' where "srv_subs s r = Some sub'" "\<not> sub_closed sub'" by (blast dest: open_subsD)
  then show ?case using srv_reach.step [OF s srv_step.closes] by simp
next
  case (updates w r u h sid raw now)
  then show ?case using srv_reach.step [OF updates(4) srv_step.update_arrives [OF updates(2,3)]] by simp
next
  case (loop_ends w r now)
  then show ?case using srv_reach.step [OF loop_ends(3) srv_step.pool_moves [OF pool_step.loop_exits [OF loop_ends(2)]]] by simp
next
  case (client_moves w r e c)
  then show ?case using srv_reach.step [OF client_moves(3) srv_step.pool_moves [OF pool_step.client_moves [OF client_moves(2)]]] by simp
next
  case (shuts_down w pc)
  then show ?case by (cases pc) simp_all
next
  case (serves w)
  then show ?case by (simp add: serve_goroutine_def split: prod.split option.split)
qed simp_all

lemma worker_server_reach:
  "worker_reach W w \<Longrightarrow> srv_reach (we_ifc W) (we_marshal W) (we_typename W) (wp_server w)"
proof (induction rule: worker_reach.induct)
  case (start flag B s)
  then show ?case by (auto simp: worker_start_def worker_main_def split: sum.splits intro: srv_reach.start)
qed (rule srv_reach_worker_step)

text \<open>The order of the shutdown.\<close>

definition worker_inv :: "'c worker_proc \<Rightarrow> bool" where
  "worker_inv w \<longleftrightarrow> (wp_ctx_done w \<longleftrightarrow> wp_pc w \<in> {Cancelled, InStop}) \<and> (wp_grpc w = Draining \<longleftrightarrow> wp_pc w = InStop) \<and>
     (wp_exit w = Some Returned \<longrightarrow> wp_pc w = InStop \<and> pending w = 0)"

lemma worker_inv_step: "worker_step W w w' \<Longrightarrow> worker_inv w \<Longrightarrow> worker_inv w'"
proof (induction rule: worker_step.induct)
  case (shuts_down w pc)
  then show ?case by (cases pc) (auto simp: worker_inv_def GRPCServer_Stop_def pending_def)
qed (auto simp: worker_inv_def serve_goroutine_def GRPCServer_Serve_def finish_call_def split: prod.splits option.splits if_splits)

lemma worker_reach_inv: "worker_reach W w \<Longrightarrow> worker_inv w"
proof (induction rule: worker_reach.induct)
  case (start flag B s)
  then show ?case by (simp add: worker_inv_def worker_main_def)
qed (rule worker_inv_step)

text \<open>An open stream whose client stays is open after every step; no process ends well before it.\<close>

lemma gone_mono: "worker_step W w w' \<Longrightarrow> set (wp_gone w) \<subseteq> set (wp_gone w')"
proof (induction rule: worker_step.induct)
  case (shuts_down w pc)
  then show ?case by (cases pc) simp_all
qed (auto simp: serve_goroutine_def finish_call_def split: prod.split option.split)

lemma stream_stays:
  assumes "worker_step W w w'" "bus_ok (wp_server w)" "r \<in> open_subs (wp_server w)" "r \<notin> set (wp_gone w')"
  shows "r \<in> open_subs (wp_server w')"
  using assms
proof (induction rule: worker_step.induct)
  case (finishes w c)
  then show ?case using run_call_subs [of W c "wp_server w"] by (auto simp: finish_call_def open_subs_def split_beta)
next
  case (stream_opens w k ids)
  then show ?case using bus_ok_parts(3) [of "wp_server w" "r"] by (auto simp: open_subs_def Subscribe_open_def Let_def)
next
  case (send_fails w q s)
  then show ?case using Subscribe_recv_open [of q False "wp_server w"] by (auto simp: Subscribe_close_open)
next
  case (shuts_down w pc)
  then show ?case by (cases pc) simp_all
next
  case (serves w)
  then show ?case by (simp add: serve_goroutine_def split: prod.split option.split)
qed (auto simp: Subscribe_recv_open Subscribe_close_open dispatch_open)

lemma stream_stays_run:
  assumes "(worker_step W)\<^sup>*\<^sup>* w w'" "worker_reach W w" "r \<in> open_subs (wp_server w)" "r \<notin> set (wp_gone w')"
  shows "worker_reach W w' \<and> r \<in> open_subs (wp_server w')"
  using assms
proof (induction rule: rtranclp_induct)
  case (step w1 w2)
  have stays: "r \<in> open_subs (wp_server w1) \<Longrightarrow> worker_reach W w1 \<Longrightarrow> r \<in> open_subs (wp_server w2)"
    using stream_stays [OF step(2) srv_reach_bus [OF worker_server_reach]] step(6) by blast
  have "r \<notin> set (wp_gone w1)" using gone_mono [OF step(2)] step(6) by blast
  then show ?case using step stays worker_reach.step by blast
qed simp





text \<open>
  The tasks of a worker that was told to stop: \<open>main\<close>, as long as it is not waiting; the handlers of
  the accepted calls; the handlers of the streams, once their client is gone; and the clients of the
  streams, which leave.
\<close>

datatype worker_task = WMain | WCall worker_call | WStream nat | WLeave nat

fun worker_acts :: "('c, 'u) worker_env \<Rightarrow> worker_task \<Rightarrow> 'c worker_proc \<Rightarrow> 'c worker_proc \<Rightarrow> bool" where
  "worker_acts W WMain w w' \<longleftrightarrow> wp_exit w = None \<and> wp_pc w \<noteq> AwaitSignal \<and> (wp_pc w = InStop \<longrightarrow> pending w = 0) \<and>
     w' = shutdown_step (wp_pc w) w"
| "worker_acts W (WCall c) w w' \<longleftrightarrow> wp_exit w = None \<and> c \<in> set (wp_calls w) \<and> w' = finish_call W c w"
| "worker_acts W (WStream r) w w' \<longleftrightarrow> wp_exit w = None \<and> r \<in> open_subs (wp_server w) \<and> r \<in> set (wp_gone w) \<and>
     (\<exists>s. (s = wp_server w \<or> Subscribe_recv r False (wp_server w) = (False, s)) \<and> w' = w\<lparr>wp_server := Subscribe_close r s\<rparr>)"
| "worker_acts W (WLeave r) w w' \<longleftrightarrow> wp_exit w = None \<and> r \<in> open_subs (wp_server w) \<and> r \<notin> set (wp_gone w) \<and>
     w' = w\<lparr>wp_gone := r # wp_gone w\<rparr>"

lemma worker_acts_step: "worker_acts W t w w' \<Longrightarrow> worker_step W w w'"
  by (cases t) (auto intro: worker_step.intros)



















text \<open>
  C33: A worker that returns has finished its work. When \<open>main\<close> of a worker returns, the context of
  its sessions has been cancelled, no call is left unfinished, no stream is open and the gauge of
  subscribers is back at zero; and until then the pool and the bus keep their invariants, whatever
  calls, streams, updates and signals interleave.
\<close>

theorem worker_stops_drained:
  assumes "worker_reach W w"
  shows "(wp_exit w = Some Returned \<longrightarrow> wp_ctx_done w \<and> wp_calls w = [] \<and> open_subs (wp_server w) = {} \<and>
      WorkerSubscribers (wp_server w) = 0) \<and> pool_ok (srv_pool (wp_server w)) \<and> bus_ok (wp_server w)"
proof -
  have srv: "srv_reach (we_ifc W) (we_marshal W) (we_typename W) (wp_server w)" by (rule worker_server_reach [OF assms])
  note ok = srv_reach_bus [OF srv] srv_reach_pool [OF srv]
  then show ?thesis using worker_reach_inv [OF assms] finite_open_subs [OF ok(1)] bus_ok_parts(5) [OF ok(1)]
    by (auto simp: worker_inv_def pending_def)
qed


text \<open>
  C31: A worker does not stop while a subscriber stays. Whatever else happens, a process with an
  open stream does not return before the client of that stream has gone away: the handler of a
  stream does not watch the context that \<open>main\<close> cancels, and the graceful stop waits for it.
\<close>

theorem worker_waits_for_subscribers:
  assumes "worker_reach W w" and "r \<in> open_subs (wp_server w)"
    and "(worker_step W)\<^sup>*\<^sup>* w w'" and "r \<notin> set (wp_gone w')"
  shows "r \<in> open_subs (wp_server w') \<and> wp_exit w' \<noteq> Some Returned"
  using stream_stays_run [OF assms(3,1,2,4)] worker_reach_inv [of W w'] finite_open_subs
    srv_reach_bus [OF worker_server_reach [of W w']] by (fastforce simp: worker_inv_def pending_def)

text \<open>
  A signal that arrives before the goroutine has called \<open>Serve\<close> can end the process with a fatal
  error although the stop was asked for, because a stopped server refuses to serve.
\<close>

theorem worker_early_signal:
  assumes "we_listen W = None"
  shows "\<exists>w. (worker_step W)\<^sup>*\<^sup>* (worker_main s) w \<and> wp_exit w = Some (Fatal ''gRPC server error'' ErrServerStopped)"
proof -
  let ?w3 = "shutdown_step Cancelled (shutdown_step Signalled (shutdown_step AwaitSignal (worker_main s)))"
  have "(worker_step W)\<^sup>*\<^sup>* (worker_main s) ?w3"
    by (rule rtranclp.rtrancl_into_rtrancl [OF rtranclp.rtrancl_into_rtrancl [OF r_into_rtranclp]])
      (rule worker_step.shuts_down; simp add: worker_main_def)+
  moreover have "worker_step W ?w3 (serve_goroutine W ?w3)" by (rule worker_step.serves) (simp_all add: worker_main_def)
  moreover have "wp_exit (serve_goroutine W ?w3) = Some (Fatal ''gRPC server error'' ErrServerStopped)"
    by (simp add: serve_goroutine_def GRPCServer_Serve_def GRPCServer_Stop_def assms worker_main_def)
  ultimately show ?thesis by (metis rtranclp.rtrancl_into_rtrancl)
qed

section \<open>A small run\<close>

definition ex_wenv :: "(mockClient, string) worker_env" where
  "ex_wenv = \<lparr>we_ifc = mock_iface, we_factory = mock_factory, we_now = (\<lambda>_. 0), we_marshal = ex_marshal,
     we_typename = ex_typename, we_addr = '':50051'', we_listen = None\<rparr>"

definition ex_boot :: "int boot" where
  "ex_boot = \<lparr>bt_source = Inr (\<lambda>_. None), bt_decode = None, bt_level = (\<lambda>_. Inr 0), bt_info = 0, bt_log = (\<lambda>_. None),
     bt_open = (\<lambda>_. None), bt_ping = None, bt_driver = None, bt_init = None, bt_up = None\<rparr>"

text \<open>A worker that serves one stream and is told to stop; then the client leaves and it returns.\<close>

definition ex_worker :: "mockClient worker_proc" where
  "ex_worker = worker_main (NewWorkerServer ''w1'' (NewPool None True))"

definition ex_worker_stream :: "mockClient worker_proc" where
  "ex_worker_stream = (let w = serve_goroutine ex_wenv ex_worker in w\<lparr>wp_server := Subscribe_open ''sub-1'' [] (wp_server w)\<rparr>)"

definition ex_worker_stopping :: "mockClient worker_proc" where
  "ex_worker_stopping = shutdown_step Cancelled (shutdown_step Signalled (shutdown_step AwaitSignal ex_worker_stream))"

definition ex_worker_done :: "mockClient worker_proc" where
  "ex_worker_done = (let w = ex_worker_stopping\<lparr>wp_gone := [0]\<rparr>; w1 = w\<lparr>wp_server := Subscribe_close 0 (wp_server w)\<rparr>
     in shutdown_step InStop w1)"

lemmas worker_eval = ex_worker_def ex_worker_stream_def ex_worker_stopping_def ex_worker_done_def worker_main_def
  serve_goroutine_def GRPCServer_Serve_def GRPCServer_Stop_def ex_wenv_def Subscribe_open_def Subscribe_close_def
  NewWorkerServer_def open_subs_def pending_def Let_def

lemma ex_worker_reach: "worker_reach ex_wenv ex_worker_stream" "worker_reach ex_wenv ex_worker_stopping"
  "worker_reach ex_wenv (ex_worker_stopping\<lparr>wp_gone := [0]\<rparr>)" "worker_reach ex_wenv ex_worker_done"
proof -
  have "worker_start ''w1'' ex_boot = Inr (NewWorkerServer ''w1'' (NewPool None True))"
    by (simp add: worker_start_def boot_config_def ex_boot_def Load_def logger_Must_def logger_New_def worker_name_def Let_def)
  then have "worker_reach ex_wenv ex_worker" unfolding ex_worker_def by (rule worker_reach.start)
  then have "worker_reach ex_wenv (serve_goroutine ex_wenv ex_worker)"
    by (rule worker_reach.step) (rule worker_step.serves; simp add: worker_eval)
  then show stream: "worker_reach ex_wenv ex_worker_stream" unfolding ex_worker_stream_def Let_def
    by (rule worker_reach.step) (rule worker_step.stream_opens; simp add: worker_eval)
  have down: "worker_reach ex_wenv (shutdown_step pc w)" if "worker_reach ex_wenv w" "wp_exit w = None" "wp_pc w = pc" for w pc
    using that worker_reach.step [OF _ worker_step.shuts_down] by blast
  show stopping: "worker_reach ex_wenv ex_worker_stopping" unfolding ex_worker_stopping_def
    by (intro down stream) (simp_all add: worker_eval)
  have "worker_step ex_wenv ex_worker_stopping (ex_worker_stopping\<lparr>wp_gone := 0 # wp_gone ex_worker_stopping\<rparr>)"
    by (rule worker_step.client_leaves) (simp add: worker_eval)
  moreover have "wp_gone ex_worker_stopping = []" by (simp add: worker_eval)
  ultimately show left: "worker_reach ex_wenv (ex_worker_stopping\<lparr>wp_gone := [0]\<rparr>)" using worker_reach.step [OF stopping] by simp
  show "worker_reach ex_wenv ex_worker_done" unfolding ex_worker_done_def Let_def
    by (rule down, rule worker_reach.step [OF left], rule worker_step.stream_ends) (simp_all add: worker_eval)
qed

theorem worker_stops_drained_witness:
  "wp_exit ex_worker_done = Some Returned \<and> WorkerSubscribers (wp_server ex_worker_done) = 0"
proof -
  have "wp_exit ex_worker_done = Some Returned" by (simp add: worker_eval)
  with worker_stops_drained [OF ex_worker_reach(4)] show ?thesis by blast
qed




theorem worker_waits_for_subscribers_witness:
  "0 \<in> open_subs (wp_server ex_worker_stopping) \<and> wp_exit ex_worker_stopping \<noteq> Some Returned"
  using worker_waits_for_subscribers [OF ex_worker_reach(2) _ rtranclp.rtrancl_refl, of 0] by (simp add: worker_eval)

end
