(* ===== verification/Main_Lifecycle.thy ===== *)
theory Main_Lifecycle
  imports Node_Invariants
begin

text \<open>
  The life of the main process: the HTTP server of \<open>api/rest/server.go\<close> and the second half of \<open>main\<close>
  in \<open>cmd/main/main.go\<close>, from the start of the goroutines over the requests to the signal, the
  shutdown with its time limit and the deferred calls. Of the HTTP library the model takes what it
  documents: \<open>ListenAndServe\<close> returns \<open>ErrServerClosed\<close> at once on a server that was shut down and
  an error when accepting fails, \<open>Shutdown\<close> closes the listener and waits until no request is
  active or its context is done. Of \<open>database/sql\<close>: \<open>Close\<close> lets no new query start and waits for
  those that have started.
\<close>

section \<open>The HTTP server\<close>

text \<open>The timeouts are durations in nanoseconds.\<close>

record http_server =
  hs_Addr :: string
  hs_ReadTimeout :: int
  hs_WriteTimeout :: int
  hs_IdleTimeout :: int

definition NewServer_http :: "string \<Rightarrow> http_server" where
  "NewServer_http addr = \<lparr>hs_Addr = addr, hs_ReadTimeout = 15 * Second, hs_WriteTimeout = 15 * Second, hs_IdleTimeout = 60 * Second\<rparr>"

datatype http_phase = NotStarted | Listening | Closing

definition ErrServerClosed :: error where
  "ErrServerClosed = Sentinel ''http: Server closed''"

text \<open>
  \<open>Start\<close>: an error is what it returns at once, otherwise it serves; \<open>listen\<close> is the answer of the
  system. What it returns later, when accepting fails, is the step \<open>accept_fails\<close> below.
\<close>

definition Server_Start :: "(string \<Rightarrow> error option) \<Rightarrow> http_server \<Rightarrow> http_phase \<Rightarrow> error option \<times> http_phase" where
  "Server_Start listen srv h =
     (if h = Closing then (Some ErrServerClosed, h)
      else (case listen (hs_Addr srv) of Some err \<Rightarrow> (Some err, h) | None \<Rightarrow> (None, Listening)))"

text \<open>\<open>Shutdown\<close> looks at the active requests and the deadline until it can return; \<open>None\<close> means it waits.\<close>

definition context_DeadlineExceeded :: error where
  "context_DeadlineExceeded = Sentinel ''context deadline exceeded''"

definition Server_Shutdown :: "int \<Rightarrow> int \<Rightarrow> http_request list \<Rightarrow> error option option" where
  "Server_Shutdown deadline now active =
     (if active = [] then Some None else if deadline \<le> now then Some (Some context_DeadlineExceeded) else None)"

section \<open>The process\<close>

text \<open>The deferred calls of \<open>main\<close> that change something, in the order in which they run.\<close>

datatype deferred = DeferShutCancel | DeferCancel | DeferRedisClose | DeferDBClose | DeferLogSync

definition main_defers :: "deferred list" where
  "main_defers = [DeferShutCancel, DeferCancel, DeferRedisClose, DeferDBClose, DeferLogSync]"

text \<open>Where \<open>main\<close> is; inside \<open>Shutdown\<close> with the deadline, or returning with deferred calls left.\<close>

datatype main_pc = MAwait | MSignalled | MCancelled | MShutdown int | MReturning "deferred list"

text \<open>Who may have a query running: a request, the call-back for a ready worker, the replicator.\<close>

datatype db_user = ForRequest http_request | ForReady string | ForReplicator

text \<open>\<open>mp_queries\<close> are the running queries, \<open>mp_shut_at\<close> is the time at which \<open>main\<close> called \<open>Shutdown\<close>.\<close>

record ('c, 'p, 'l) main_proc =
  mp_node :: "(Account table, Bot table, 'c, APIKey table, Webhook table, 'p, 'l) node"
  mp_http :: http_phase
  mp_started :: bool
  mp_active :: "http_request list"
  mp_queries :: "db_user list"
  mp_dispatcher :: bool
  mp_replicator :: bool
  mp_ctx_done :: bool
  mp_redis_open :: bool
  mp_db_open :: bool
  mp_clock :: int
  mp_shut_at :: int
  mp_pc :: main_pc
  mp_shutdown_err :: "error option"
  mp_exit :: "exit_reason option"

definition main_main :: "(Account table, Bot table, 'c, APIKey table, Webhook table, 'p, 'l) node \<Rightarrow> ('c, 'p, 'l) main_proc" where
  "main_main s =
     \<lparr>mp_node = s, mp_http = NotStarted, mp_started = False, mp_active = [], mp_queries = [], mp_dispatcher = True, mp_replicator = True,
      mp_ctx_done = False, mp_redis_open = True, mp_db_open = True, mp_clock = 0, mp_shut_at = 0, mp_pc = MAwait, mp_shutdown_err = None,
      mp_exit = None\<rparr>"

text \<open>The goroutine of the server, when \<open>Start\<close> has returned an error.\<close>

definition server_returns :: "error \<Rightarrow> ('c, 'p, 'l) main_proc \<Rightarrow> ('c, 'p, 'l) main_proc" where
  "server_returns err p =
     (if \<not> errors_Is err ErrServerClosed then p\<lparr>mp_exit := Some (Fatal ''HTTP server error'' err)\<rparr> else p)"

definition start_goroutine :: "(string \<Rightarrow> error option) \<Rightarrow> Config \<Rightarrow> ('c, 'p, 'l) main_proc \<Rightarrow> ('c, 'p, 'l) main_proc" where
  "start_goroutine listen cfg p =
     (case Server_Start listen (NewServer_http (cfg_HTTPAddr cfg)) (mp_http p) of
        (Some err, h) \<Rightarrow> server_returns err (p\<lparr>mp_started := True\<rparr>)
      | (None, h) \<Rightarrow> p\<lparr>mp_started := True, mp_http := h\<rparr>)"

text \<open>A deferred call; the first component says whether it has returned. \<open>db.Close\<close> may have to wait.\<close>

fun run_deferred :: "deferred \<Rightarrow> ('c, 'p, 'l) main_proc \<Rightarrow> bool \<times> ('c, 'p, 'l) main_proc" where
  "run_deferred DeferShutCancel p = (True, p)"
| "run_deferred DeferCancel p = (True, p\<lparr>mp_ctx_done := True\<rparr>)"
| "run_deferred DeferRedisClose p = (True, p\<lparr>mp_redis_open := False\<rparr>)"
| "run_deferred DeferDBClose p = (mp_queries p = [], p\<lparr>mp_db_open := False\<rparr>)"
| "run_deferred DeferLogSync p = (True, p)"

text \<open>\<open>main\<close> from the signal on, one step at a time.\<close>

fun main_down :: "main_pc \<Rightarrow> ('c, 'p, 'l) main_proc \<Rightarrow> ('c, 'p, 'l) main_proc" where
  "main_down MAwait p = p\<lparr>mp_pc := MSignalled\<rparr>"
| "main_down MSignalled p = p\<lparr>mp_pc := MCancelled, mp_ctx_done := True\<rparr>"
| "main_down MCancelled p = p\<lparr>mp_pc := MShutdown (mp_clock p + 10 * Second), mp_http := Closing, mp_shut_at := mp_clock p\<rparr>"
| "main_down (MShutdown deadline) p =
     (case Server_Shutdown deadline (mp_clock p) (mp_active p) of
        None \<Rightarrow> p
      | Some err \<Rightarrow> p\<lparr>mp_pc := MReturning main_defers, mp_shutdown_err := err\<rparr>)"
| "main_down (MReturning []) p = p\<lparr>mp_exit := Some Returned\<rparr>"
| "main_down (MReturning (d # ds)) p =
     (case run_deferred d p of (returned, p') \<Rightarrow> if returned then p'\<lparr>mp_pc := MReturning ds\<rparr> else p')"

text \<open>A query starts only while the database is open; a request is answered when its last query is.\<close>

fun may_query :: "db_user \<Rightarrow> ('c, 'p, 'l) main_proc \<Rightarrow> bool" where
  "may_query (ForRequest req) p \<longleftrightarrow> count_list (mp_queries p) (ForRequest req) < count_list (mp_active p) req"
| "may_query (ForReady wid) p \<longleftrightarrow> True"
| "may_query ForReplicator p \<longleftrightarrow> mp_replicator p"

fun end_query :: "('c, 'p, 'l) externals \<Rightarrow> Config \<Rightarrow> TokenEncryptor \<Rightarrow> (route list \<Rightarrow> string \<Rightarrow> string list \<Rightarrow> routed) \<Rightarrow>
    int \<Rightarrow> chance \<Rightarrow> db_user \<Rightarrow> ('c, 'p, 'l) main_proc \<Rightarrow> ('c, 'p, 'l) main_proc" where
  "end_query X cfg enc lookup now ch (ForRequest req) p =
     p\<lparr>mp_queries := remove1 (ForRequest req) (mp_queries p), mp_active := remove1 req (mp_active p),
       mp_node := snd (serve lookup (main_router cfg) (main_deps X cfg enc now) ch req (mp_node p))\<rparr>"
| "end_query X cfg enc lookup now ch (ForReady wid) p =
     p\<lparr>mp_queries := remove1 (ForReady wid) (mp_queries p),
       mp_node := (mp_node p)\<lparr>nd_backend := onWorkerReady (dp_services (main_deps X cfg enc now)) wid (nd_backend (mp_node p))\<rparr>\<rparr>"
| "end_query X cfg enc lookup now ch ForReplicator p = p\<lparr>mp_queries := remove1 ForReplicator (mp_queries p)\<rparr>"

text \<open>
  Steps of a running process. A request is taken in while the server listens; the queries of its
  handler are one, and it is answered with its end. The same holds for the call-back of a ready
  worker; the table of the replicator is not part of the node. What a handler does that finds the
  database closed is not followed. The dispatcher and the replicator return at the head of their
  loops once the context is done; nobody waits for them.
\<close>

inductive main_step ::
  "('c, 'p, 'l) externals \<Rightarrow> Config \<Rightarrow> TokenEncryptor \<Rightarrow> (string \<Rightarrow> error option) \<Rightarrow> ('c, 'p, 'l) main_proc \<Rightarrow> ('c, 'p, 'l) main_proc \<Rightarrow> bool"
  for X cfg enc listen where
  starts: "mp_exit p = None \<Longrightarrow> \<not> mp_started p \<Longrightarrow> main_step X cfg enc listen p (start_goroutine listen cfg p)"
| accept_fails: "mp_exit p = None \<Longrightarrow> mp_http p = Listening \<Longrightarrow> main_step X cfg enc listen p (server_returns err p)"
| takes: "mp_exit p = None \<Longrightarrow> mp_http p = Listening \<Longrightarrow> main_step X cfg enc listen p (p\<lparr>mp_active := req # mp_active p\<rparr>)"
| query_starts: "mp_exit p = None \<Longrightarrow> mp_db_open p \<Longrightarrow> may_query u p \<Longrightarrow>
    main_step X cfg enc listen p (p\<lparr>mp_queries := u # mp_queries p\<rparr>)"
| query_ends: "mp_exit p = None \<Longrightarrow> u \<in> set (mp_queries p) \<Longrightarrow>
    main_step X cfg enc listen p (end_query X cfg enc lookup now ch u p)"
| cleans: "mp_exit p = None \<Longrightarrow>
    main_step X cfg enc listen p (p\<lparr>mp_node := (mp_node p)\<lparr>nd_limiters := limiter_cleanup now (nd_limiters (mp_node p))\<rparr>\<rparr>)"
| world: "mp_exit p = None \<Longrightarrow> bk_mgr (nd_backend (mp_node p)) = Some m \<Longrightarrow> net_step (xt_env X) (mgr_net m) n \<Longrightarrow>
    main_step X cfg enc listen p (p\<lparr>mp_node := (mp_node p)\<lparr>nd_backend :=
      (nd_backend (mp_node p))\<lparr>bk_mgr := Some (m\<lparr>mgr_net := n\<rparr>)\<rparr>\<rparr>\<rparr>)"
| dispatcher_returns: "mp_exit p = None \<Longrightarrow> mp_ctx_done p \<Longrightarrow> main_step X cfg enc listen p (p\<lparr>mp_dispatcher := False\<rparr>)"
| replicator_returns: "mp_exit p = None \<Longrightarrow> mp_ctx_done p \<Longrightarrow> main_step X cfg enc listen p (p\<lparr>mp_replicator := False\<rparr>)"
| time_passes: "mp_exit p = None \<Longrightarrow> 0 \<le> dt \<Longrightarrow> main_step X cfg enc listen p (p\<lparr>mp_clock := mp_clock p + dt\<rparr>)"
| goes_down: "mp_exit p = None \<Longrightarrow> mp_pc p = pc \<Longrightarrow> main_step X cfg enc listen p (main_down pc p)"

inductive main_proc_reach ::
  "('c, 'p, 'l) externals \<Rightarrow> Config \<Rightarrow> TokenEncryptor \<Rightarrow> (string \<Rightarrow> error option) \<Rightarrow> ('c, 'p, 'l) main_proc \<Rightarrow> bool"
  for X cfg enc listen where
  start: "main_reach X cfg enc s \<Longrightarrow> main_proc_reach X cfg enc listen (main_main s)"
| step: "main_proc_reach X cfg enc listen p \<Longrightarrow> main_step X cfg enc listen p p' \<Longrightarrow> main_proc_reach X cfg enc listen p'"

section \<open>Invariants\<close>

lemma run_deferred_frame [simp]:
  "mp_node (snd (run_deferred d p)) = mp_node p" "mp_http (snd (run_deferred d p)) = mp_http p"
  "mp_active (snd (run_deferred d p)) = mp_active p" "mp_queries (snd (run_deferred d p)) = mp_queries p"
  "mp_clock (snd (run_deferred d p)) = mp_clock p" "mp_shutdown_err (snd (run_deferred d p)) = mp_shutdown_err p"
  "mp_exit (snd (run_deferred d p)) = mp_exit p" "mp_pc (snd (run_deferred d p)) = mp_pc p"
  by (cases d; simp)+

lemma end_query_frame [simp]:
  "mp_http (end_query X cfg enc lookup now ch u p) = mp_http p" "mp_ctx_done (end_query X cfg enc lookup now ch u p) = mp_ctx_done p"
  "mp_redis_open (end_query X cfg enc lookup now ch u p) = mp_redis_open p" "mp_db_open (end_query X cfg enc lookup now ch u p) = mp_db_open p"
  "mp_clock (end_query X cfg enc lookup now ch u p) = mp_clock p" "mp_shut_at (end_query X cfg enc lookup now ch u p) = mp_shut_at p"
  "mp_shutdown_err (end_query X cfg enc lookup now ch u p) = mp_shutdown_err p" "mp_exit (end_query X cfg enc lookup now ch u p) = mp_exit p"
  "mp_pc (end_query X cfg enc lookup now ch u p) = mp_pc p"
  "mp_queries (end_query X cfg enc lookup now ch u p) = remove1 u (mp_queries p)"
  "mp_active p = [] \<Longrightarrow> mp_active (end_query X cfg enc lookup now ch u p) = []"
  by (cases u; simp)+


lemma main_down_node [simp]: "mp_node (main_down pc p) = mp_node p"
  by (induction pc p rule: main_down.induct) (simp_all add: split_beta split: option.split)














text \<open>\<open>main\<close> waits for active requests until the deadline, and for queries in \<open>db.Close\<close>.\<close>

definition main_waits :: "('c, 'p, 'l) main_proc \<Rightarrow> bool" where
  "main_waits p \<longleftrightarrow>
     (case mp_pc p of
        MShutdown d \<Rightarrow> mp_active p \<noteq> [] \<and> mp_clock p < d
      | MReturning (DeferDBClose # ds) \<Rightarrow> \<not> mp_db_open p \<and> mp_queries p \<noteq> []
      | _ \<Rightarrow> False)"




text \<open>
  The tasks of a main process that was told to stop: \<open>main\<close>, as long as it is not waiting; the
  queries, which end; and the clock, which goes on.
\<close>

datatype main_task = TMain | TQuery db_user | TClock

fun main_acts :: "('c, 'p, 'l) externals \<Rightarrow> Config \<Rightarrow> TokenEncryptor \<Rightarrow> main_task \<Rightarrow> ('c, 'p, 'l) main_proc \<Rightarrow> ('c, 'p, 'l) main_proc \<Rightarrow> bool" where
  "main_acts X cfg enc TMain p p' \<longleftrightarrow> mp_exit p = None \<and> mp_pc p \<noteq> MAwait \<and> \<not> main_waits p \<and> p' = main_down (mp_pc p) p"
| "main_acts X cfg enc (TQuery u) p p' \<longleftrightarrow> mp_exit p = None \<and> u \<in> set (mp_queries p) \<and>
     (\<exists>lookup now ch. p' = end_query X cfg enc lookup now ch u p)"
| "main_acts X cfg enc TClock p p' \<longleftrightarrow> mp_exit p = None \<and> (\<exists>dt > 0. p' = p\<lparr>mp_clock := mp_clock p + dt\<rparr>)"

lemma main_acts_step: "main_acts X cfg enc t p p' \<Longrightarrow> main_step X cfg enc listen p p'"
  by (cases t) (auto intro: main_step.intros)














section \<open>Properties\<close>



text \<open>
  Nobody waits for the background goroutines: the process can return, with the database closed,
  while the replicator has not returned.
\<close>

theorem main_leaves_goroutines:
  assumes "main_reach X cfg enc s"
  shows "\<exists>p. main_proc_reach X cfg enc listen p \<and> mp_exit p = Some Returned \<and> mp_replicator p \<and> \<not> mp_db_open p"
proof -
  let ?d = "\<lambda>p. main_down (mp_pc p) p"
  have go: "main_proc_reach X cfg enc listen p \<Longrightarrow> mp_exit p = None \<Longrightarrow> main_proc_reach X cfg enc listen (?d p)"
    for p :: "('a, 'b, 'c) main_proc" by (rule main_proc_reach.step [OF _ main_step.goes_down]) simp_all
  let ?p = "(?d ^^ 10) (main_main s)"
  have "main_proc_reach X cfg enc listen ((?d ^^ n) (main_main s))" if "n \<le> 10" for n
    using that
  proof (induction n)
    case (Suc n)
    then have "n \<in> {0, 1, 2, 3, 4, 5, 6, 7, 8, 9}" by auto
    then have "mp_exit ((?d ^^ n) (main_main s)) = None"
      by (auto simp: eval_nat_numeral main_main_def Server_Shutdown_def main_defers_def)
    then show ?case using Suc go by simp
  qed (simp add: main_proc_reach.start [OF assms])
  moreover have "mp_exit ?p = Some Returned \<and> mp_replicator ?p \<and> \<not> mp_db_open ?p"
    by (simp add: eval_nat_numeral main_main_def Server_Shutdown_def main_defers_def)
  ultimately show ?thesis by blast
qed

section \<open>A small run\<close>






end
