(* ===== verification/Spec2Isabelle.thy ===== *)
theory Spec2Isabelle
  imports Node_Flows Worker_Node Main_Lifecycle
begin

text \<open>
  \<^bold>\<open>TGPlane, a control plane for Telegram sessions.\<close>

  A main node takes requests over a REST API, keeps accounts, bots, API keys and webhooks in a
  database, and assigns sessions to worker nodes over gRPC. A worker runs the sessions, one TDLib
  client each, and streams their updates to the main node, which publishes them to a Redis stream;
  from there a dispatcher posts them to webhooks and a replicator copies them to the database.
  Paths below are relative to \<open>src/\<close>.

  \<^bold>\<open>Conventions.\<close> Structs are records, Go maps association lists with unique keys in the order of
  insertion (\<open>gomap\<close>), errors values of the datatype \<open>error\<close>, a panic the error \<open>Panic\<close> or the outcome
  \<open>Panicked\<close>, pointers to shared entries references into a heap. An operation takes the state and
  returns the result and the new state. What the program cannot decide is an argument: random
  bytes, clock readings, the order in which a map is iterated or replies arrive (a list of
  positions), and scripts of failing statements, lost messages, answers and cancellations, whose
  empty list means that nothing fails. Integers are \<open>int\<close> with the wrap-around of 64 and 32 bits
  written out where a counter can reach it; the ciphers compute on words of 8 and 32 bits.

  \<^bold>\<open>Theories.\<close>
  \<^item> \<open>Prelude\<close>: errors, Go maps, scripts, wrap-around and the collections of simplification rules.
  \<^item> \<open>Session_Pool\<close>, \<open>internal/session\<close>: sessions, entries, the pool's operations, the event loop of
    an entry. Invariant of all reachable pools, refinement of the abstract map from identifiers to
    type and status, outcomes of adding and removing, harmlessness of a late loop exit.
  \<^item> \<open>Metrics_Hook\<close>, \<open>internal/metrics\<close>: the hook; the gauge of active sessions is exact.
  \<^item> \<open>TDLib_Client\<close>, \<open>internal/tdlib\<close> and the client factory of \<open>cmd/worker\<close>: construction, event loop,
    authorization as a step relation with its invariant, data directories. TDLib is a parameter.
  \<^item> \<open>Worker_Server\<close>, \<open>internal/worker/server\<close>: every remote procedure and the update bus; no send on
    a closed channel, order and bounds of the streams, exact counters.
  \<^item> \<open>Worker_Client\<close>, \<open>internal/worker/client\<close>: calls over a network of workers in which messages are
    lost and a panicking handler takes its worker down.
  \<^item> \<open>Worker_Manager\<close>, \<open>internal/worker/manager\<close> and \<open>internal/worker/repository.go\<close>: registration in its
    three critical sections, removal, restore, load balancing, draining, routing, the subscribe
    loop. Registry invariant under interleaving, drains lose no session, restore, waits.
  \<^item> \<open>Repository\<close>: SQL tables with identifiers, unique constraints and failing statements, and the
    contract of a repository (locale \<open>repository\<close>) that accounts and bots instantiate twice each.
  \<^item> \<open>Account\<close>, \<open>internal/account\<close>; \<open>Bot\<close>, \<open>internal/bot\<close>: models, in-memory and database
    repositories, services. Round trips, indexes, uniqueness, pages.
  \<^item> \<open>Go_Crypto\<close>, \<open>Token\<close>, \<open>internal/crypto\<close>: hexadecimal and base64, SHA-256, HMAC, AES-256 and GCM
    as the library computes them; tokens decrypt to what was encrypted and to nothing else.
  \<^item> \<open>Auth\<close>, \<open>internal/auth\<close>: API keys; exactly the issued and unrevoked keys validate.
  \<^item> \<open>Go_Strconv\<close>: the conversions between numbers and text the program uses, with round trips.
  \<^item> \<open>Update_Stream\<close>, \<open>internal/stream\<close>: publishing, the read loop shared by dispatcher and
    replicator, what Redis promises (locale \<open>redis_stream\<close>) and a server that keeps it.
  \<^item> \<open>Webhook\<close>, \<open>internal/webhook\<close>: repositories, service, dispatcher with signatures and retries.
  \<^item> \<open>Replication\<close>, \<open>internal/replication\<close>: insertion with retries.
  \<^item> \<open>Bulk\<close>, \<open>internal/bulk\<close>: the bounded executor as a machine of goroutines under an arbitrary
    schedule, and the three operations; they return, report every item and stay within the bound.
  \<^item> \<open>Rest_Middleware\<close>, \<open>Rest_Handlers\<close>, \<open>Rest_Server\<close>, \<open>api/rest\<close>: middlewares, every endpoint with its
    status codes, the routes in the order of registration. The API needs a key, panics become
    answers, the clean-up of limiters is not observable.
  \<^item> \<open>Configuration\<close>, \<open>internal/config\<close>: the fields, the defaults and their precedence.
  \<^item> \<open>Infrastructure\<close>, \<open>internal/database\<close>, \<open>internal/logger\<close>, \<open>internal/redisclient\<close>,
    \<open>internal/metrics/metrics.go\<close>, keep-alive options: what is set up from the configuration; how a
    process ends; the argument that a stopping process returns (locale \<open>progress\<close>). All metrics can
    be registered and every series the program selects exists; pings of clients are never punished.
  \<^item> \<open>Main_Node\<close>, \<open>cmd/main\<close>, \<open>cmd/worker\<close>: start-up with every way to fail, wiring, the restoring of
    sessions.
  \<^item> \<open>Node_Invariants\<close>: invariants that every request keeps (locale \<open>served_invariant\<close>), interpreted
    for the consistency of all stored data and workers and for the empty pool of the main node.
  \<^item> \<open>Worker_Node\<close>, \<open>internal/worker/server/grpc.go\<close> and \<open>cmd/worker\<close>: the worker process as a step
    relation over the server, its calls and streams, the signal and the graceful stop. It returns
    drained, it returns once its clients have left, and not before.
  \<^item> \<open>Main_Lifecycle\<close>, \<open>api/rest/server.go\<close> and \<open>cmd/main\<close>: the main process with its requests,
    goroutines, clock, shutdown and deferred calls. It returns within ten seconds of a signal and
    closes the database last, after the requests or the time-out.
  \<^item> \<open>Node_Flows\<close>: the creation of an account from the request to the worker, and the way of an
    update from a worker to the table of messages.

  \<^bold>\<open>Interfaces.\<close> A component relies on another through a locale, interpreted on the definitions that
  provide it: the TDLib clients of a pool, the repositories, the key store, the webhook store, the
  stream, the item operations of the executor, the token bucket, the services of the main node, the
  invariants of the server and the progress of a stopping process.

  \<^bold>\<open>Bounds.\<close> The read loops run for ever in the program; \<open>stream_loop\<close> takes the number of iterations,
  and the properties hold for every number. \<open>parallel\<close> takes the schedule; \<open>3 * n\<close> rounds in which
  every goroutine gets a turn are enough for \<open>n\<close> items, since each needs at most three moves and in
  every round in which one is left some goroutine moves. The subscribe loop takes the list of its
  attempts. Retries are bounded by the code itself. All other loops recurse on their data.

  \<^bold>\<open>Not modelled.\<close> TDLib, Redis, PostgreSQL, gRPC and HTTP beyond what is assumed of them; the encoding
  of JSON (requests arrive decoded, the body of a webhook call is a parameter); the matching of
  paths by the web framework (a parameter of \<open>serve\<close>), while its groups and middlewares are modelled
  by their documented behaviour; what is logged; the values of the histogram of latencies; time-outs
  other than as failures, apart from the one of the shutdown; the data races of counters; requests
  that outlive the closing of the database; generated protobuf code; link flags; test helpers; the web
  interface. In \<open>Node_Invariants\<close> a request other than a bulk operation is one step, and in
  \<open>Worker_Node\<close> a unary call from its handler's first to its last statement.
\<close>

end
